(* ===== verification/Prelude.thy ===== *)
theory Prelude
  imports Main "HOL-Library.Word" "HOL-Library.Multiset"
begin

text \<open>
  Shared vocabulary of the development: the fixed-width integers of the C code, the C library
  functions the sources use on byte arrays (\<^verbatim>\<open>strlen\<close>, \<^verbatim>\<open>strcmp\<close>, \<^verbatim>\<open>memcpy\<close>), the bounded
  search that models the \<^verbatim>\<open>for\<close> loops with an early exit, and the lemmas on lists, sums and words
  that several components use.
\<close>

unbundle bit_operations_syntax

named_theorems level_simps \<open>accessors and updates of the level hash table\<close>
named_theorems frame_simps \<open>fields an operation leaves alone\<close>

type_synonym u8 = "8 word"
type_synonym u16 = "16 word"
type_synonym u32 = "32 word"
type_synonym u64 = "64 word"

section \<open>C strings and memory copies\<close>

text \<open>The C string held in a byte array: the bytes before the first NUL.\<close>

definition c_str :: "u8 list \<Rightarrow> u8 list" where
  "c_str bs = takeWhile (\<lambda>b. b \<noteq> 0) bs"

definition strlen :: "u8 list \<Rightarrow> nat" where
  "strlen bs = length (c_str bs)"

text \<open>\<^verbatim>\<open>strcmp(a, b) == 0\<close>.\<close>

definition strcmp_eq :: "u8 list \<Rightarrow> u8 list \<Rightarrow> bool" where
  "strcmp_eq a b \<longleftrightarrow> c_str a = c_str b"

text \<open>\<^verbatim>\<open>memcpy(dst, src, n)\<close> onto an array of exactly \<open>n\<close> bytes: the first \<open>n\<close> bytes of the source.\<close>

definition memcpy_n :: "nat \<Rightarrow> u8 list \<Rightarrow> u8 list" where
  "memcpy_n n src = take n src"

lemma takeWhile_take_prefix:
  "\<exists>x \<in> set (take n xs). \<not> P x \<Longrightarrow> takeWhile P (take n xs) = takeWhile P xs"
  by (induction xs arbitrary: n) (auto simp: take_Cons split: nat.splits)

lemma c_str_take: "0 \<in> set (take n xs) \<Longrightarrow> c_str (take n xs) = c_str xs"
  unfolding c_str_def by (rule takeWhile_take_prefix) auto

lemma c_str_prefix: "take (length (c_str xs)) xs = c_str xs"
  unfolding c_str_def by (induction xs) auto

lemma strlen_le: "strlen bs \<le> length bs"
  by (simp add: strlen_def c_str_def length_takeWhile_le)

lemma strcmp_eq_refl [simp]: "strcmp_eq a a"
  by (simp add: strcmp_eq_def)

section \<open>Loops that may fail\<close>

text \<open>A \<^verbatim>\<open>for\<close> loop over the elements of a list whose body may leave the program.\<close>

fun fold_err :: "('s \<Rightarrow> 'x \<Rightarrow> 'e + 's) \<Rightarrow> 's \<Rightarrow> 'x list \<Rightarrow> 'e + 's" where
  "fold_err f s [] = Inr s"
| "fold_err f s (x # xs) = (case f s x of Inl e \<Rightarrow> Inl e | Inr s' \<Rightarrow> fold_err f s' xs)"

lemma fold_err_invariant:
  assumes "fold_err f s xs = Inr t" and "P s"
    and "\<And>x s s'. x \<in> set xs \<Longrightarrow> P s \<Longrightarrow> f s x = Inr s' \<Longrightarrow> P s'"
  shows "P t"
  using assms
proof (induction xs arbitrary: s)
  case Nil
  then show ?case by simp
next
  case (Cons x xs)
  then obtain s' where s': "f s x = Inr s'" "fold_err f s' xs = Inr t"
    by (auto split: sum.splits)
  have "P s'" by (rule Cons.prems(3) [OF _ Cons.prems(2) s'(1)]) simp
  then show ?case
    by (rule Cons.IH [OF s'(2)]) (rule Cons.prems(3), auto)
qed

section \<open>Lists\<close>

lemma sum_list_update:
  fixes f :: "'a \<Rightarrow> 'b::ab_semigroup_add"
  assumes "i < length xs"
  shows "foldr (\<lambda>x a. f x + a) (xs[i := y]) z + f (xs ! i) = foldr (\<lambda>x a. f x + a) xs z + f y"
  using assms
proof (induction xs arbitrary: i)
  case Nil
  then show ?case by simp
next
  case (Cons x xs)
  show ?case
  proof (cases i)
    case 0
    then show ?thesis by (simp add: ac_simps)
  next
    case (Suc k)
    with Cons.IH [of k] Cons.prems show ?thesis by (simp add: add.assoc)
  qed
qed

lemma sum_list_map_update:
  fixes f :: "'a \<Rightarrow> 'b::comm_monoid_add"
  assumes "i < length xs"
  shows "sum_list (map f (xs[i := y])) + f (xs ! i) = sum_list (map f xs) + f y"
  using sum_list_update [OF assms, of f y 0]
  by (simp add: sum_list.eq_foldr foldr_map comp_def)

lemma in_sum_list_map: "x \<in># sum_list (map f xs) \<longleftrightarrow> (\<exists>n < length xs. x \<in># f (xs ! n))"
  by (induction xs) (auto simp: less_Suc_eq_0_disj)

section \<open>Words\<close>

lemma unat_less_2p: "unat (w :: 'a::len word) < 2 ^ LENGTH('a)"
  by (rule unsigned_less)

lemma unat_u64_less: "unat (w :: u64) < 2 ^ 64"
  using unat_less_2p [of w] by simp

lemma unat_2p:
  assumes "n < LENGTH('a)"
  shows "unat (2 ^ n :: 'a::len word) = 2 ^ n"
proof -
  have "(2 ^ n :: 'a word) = of_nat (2 ^ n)" by simp
  moreover have "(2::nat) ^ n < 2 ^ LENGTH('a)" using assms by simp
  ultimately show ?thesis by (simp only: unat_of_nat mod_less)
qed

lemma unat_of_nat_id: "n < 2 ^ LENGTH('a) \<Longrightarrow> unat (of_nat n :: 'a::len word) = n"
  by (simp add: unat_of_nat)

lemma unat_inj: "unat a = unat b \<Longrightarrow> a = b"
  by (simp add: word_unat_eq_iff)

lemma unat_add1: "unat (n :: u64) < 2 ^ 63 \<Longrightarrow> unat (n + 1) = Suc (unat n)"
  by (simp add: unat_word_ariths)

lemma unat_sub1: "0 < unat (n :: u64) \<Longrightarrow> unat (n - 1) = unat n - 1"
  by (rule unat_minus_one) auto

end
