(* ===== verification/KeyHash.thy ===== *)
theory KeyHash
  imports Prelude
begin

text \<open>
  The string hash of the level hash table, \<^verbatim>\<open>levelkv/src/levelhashing/hash.c\<close>. A pointer \<^verbatim>\<open>p\<close>
  into the key with the end pointer \<^verbatim>\<open>end\<close> is the list of the bytes from \<^verbatim>\<open>p\<close> on together with the
  number \<open>n\<close> of bytes left, \<^verbatim>\<open>end - p\<close>. Words are read little-endian, as on the x86 and ARM
  machines the code runs on.

  The lemmas show that the hash reads exactly the bytes \<^verbatim>\<open>[data, data + length)\<close> (so that two buffers
  with the same C string hash alike whatever follows the terminator), that the address alignment
  has no influence on the value, that \<^verbatim>\<open>shifting_hash\<close> is a rotation, and that the final mixing
  step is injective.
\<close>

definition NUMBER64_1 :: u64 where "NUMBER64_1 = 11400714785074694791"
definition NUMBER64_2 :: u64 where "NUMBER64_2 = 14029467366897019727"
definition NUMBER64_3 :: u64 where "NUMBER64_3 = 1609587929392839161"
definition NUMBER64_4 :: u64 where "NUMBER64_4 = 9650029242287828579"
definition NUMBER64_5 :: u64 where "NUMBER64_5 = 2870177450012600261"

definition shifting_hash :: "u64 \<Rightarrow> nat \<Rightarrow> u64" where
  "shifting_hash x r = push_bit r x OR drop_bit (64 - r) x"

text \<open>Little-endian value of a byte sequence.\<close>

fun le_bytes :: "u8 list \<Rightarrow> 'a::len word" where
  "le_bytes [] = 0"
| "le_bytes (b # bs) = ucast b + 256 * le_bytes bs"

definition hash_read64_align :: "u8 list \<Rightarrow> u32 \<Rightarrow> u64" where
  "hash_read64_align ptr align =
     (if align = 0 then le_bytes (take 8 ptr) else le_bytes (take 8 ptr))"

definition hash_read32_align :: "u8 list \<Rightarrow> u32 \<Rightarrow> u32" where
  "hash_read32_align ptr align =
     (if align = 0 then le_bytes (take 4 ptr) else le_bytes (take 4 ptr))"

text \<open>One lane of the 32-byte loop: \<^verbatim>\<open>v += read * N2; v = rot(v, 31); v *= N1\<close>.\<close>

definition hash_lane :: "u64 \<Rightarrow> u64 \<Rightarrow> u64" where
  "hash_lane v w = shifting_hash (v + w * NUMBER64_2) 31 * NUMBER64_1"

text \<open>The \<^verbatim>\<open>do ... while (p <= limitation)\<close> loop; \<^verbatim>\<open>p <= end - 32\<close> is \<open>32 \<le> n\<close>.\<close>

function hash_stripes ::
  "u32 \<Rightarrow> u8 list \<Rightarrow> nat \<Rightarrow> u64 \<Rightarrow> u64 \<Rightarrow> u64 \<Rightarrow> u64 \<Rightarrow> u8 list \<times> nat \<times> u64 \<times> u64 \<times> u64 \<times> u64" where
  "hash_stripes align p n v1 v2 v3 v4 =
     (if 32 \<le> n - 32
      then hash_stripes align (drop 32 p) (n - 32)
             (hash_lane v1 (hash_read64_align p align))
             (hash_lane v2 (hash_read64_align (drop 8 p) align))
             (hash_lane v3 (hash_read64_align (drop 16 p) align))
             (hash_lane v4 (hash_read64_align (drop 24 p) align))
      else (drop 32 p, n - 32,
             hash_lane v1 (hash_read64_align p align),
             hash_lane v2 (hash_read64_align (drop 8 p) align),
             hash_lane v3 (hash_read64_align (drop 16 p) align),
             hash_lane v4 (hash_read64_align (drop 24 p) align)))"
  by pat_completeness auto
termination
  by (relation "measure (\<lambda>(align, p, n, v1, v2, v3, v4). n)") auto

declare hash_stripes.simps [simp del]

text \<open>\<^verbatim>\<open>k *= N2; k = rot(k, 31); k *= N1\<close>.\<close>

definition hash_round :: "u64 \<Rightarrow> u64" where
  "hash_round k = shifting_hash (k * NUMBER64_2) 31 * NUMBER64_1"

text \<open>The round of lane \<open>v\<close>, then \<^verbatim>\<open>hash ^= v; hash = hash * N1 + N4\<close>.\<close>

definition hash_merge :: "u64 \<Rightarrow> u64 \<Rightarrow> u64" where
  "hash_merge hash v = (hash XOR hash_round v) * NUMBER64_1 + NUMBER64_4"

definition hash_long :: "u32 \<Rightarrow> u8 list \<Rightarrow> nat \<Rightarrow> u64 \<Rightarrow> u8 list \<times> nat \<times> u64" where
  "hash_long align p n seed =
     (let (p', n', v1, v2, v3, v4) =
            hash_stripes align p n (seed + NUMBER64_1 + NUMBER64_2) (seed + NUMBER64_2)
              (seed + 0) (seed - NUMBER64_1);
          hash = shifting_hash v1 1 + shifting_hash v2 7 + shifting_hash v3 12 + shifting_hash v4 18
      in (p', n', hash_merge (hash_merge (hash_merge (hash_merge hash v1) v2) v3) v4))"

text \<open>The loop \<^verbatim>\<open>while (p + 8 <= end)\<close>.\<close>

function hash_tail8 :: "u32 \<Rightarrow> u8 list \<Rightarrow> nat \<Rightarrow> u64 \<Rightarrow> u8 list \<times> nat \<times> u64" where
  "hash_tail8 align p n hash =
     (if 8 \<le> n then
        hash_tail8 align (drop 8 p) (n - 8)
          (shifting_hash (hash XOR hash_round (hash_read64_align p align)) 27 * NUMBER64_1 + NUMBER64_4)
      else (p, n, hash))"
  by pat_completeness auto
termination
  by (relation "measure (\<lambda>(align, p, n, hash). n)") auto

declare hash_tail8.simps [simp del]

definition hash_tail4 :: "u32 \<Rightarrow> u8 list \<Rightarrow> nat \<Rightarrow> u64 \<Rightarrow> u8 list \<times> nat \<times> u64" where
  "hash_tail4 align p n hash =
     (if 4 \<le> n then
        (drop 4 p, n - 4,
         shifting_hash (hash XOR (ucast (hash_read32_align p align) * NUMBER64_1)) 23
           * NUMBER64_2 + NUMBER64_3)
      else (p, n, hash))"

text \<open>The loop \<^verbatim>\<open>while (p < end)\<close>; \<^verbatim>\<open>*p\<close> is the head of the remaining bytes.\<close>

fun hash_tail1 :: "u8 list \<Rightarrow> nat \<Rightarrow> u64 \<Rightarrow> u64" where
  "hash_tail1 p 0 hash = hash"
| "hash_tail1 p (Suc n) hash =
     hash_tail1 (drop 1 p) n (shifting_hash (hash XOR (ucast (p ! 0) * NUMBER64_5)) 11 * NUMBER64_1)"

text \<open>\<^verbatim>\<open>hash ^= hash >> k\<close>.\<close>

definition xor_shift :: "nat \<Rightarrow> u64 \<Rightarrow> u64" where
  "xor_shift k hash = hash XOR drop_bit k hash"

definition hash_avalanche :: "u64 \<Rightarrow> u64" where
  "hash_avalanche hash = xor_shift 32 (xor_shift 29 (xor_shift 33 hash * NUMBER64_2) * NUMBER64_3)"

definition string_key_hash_computation :: "u8 list \<Rightarrow> u64 \<Rightarrow> u64 \<Rightarrow> u32 \<Rightarrow> u64" where
  "string_key_hash_computation data len seed align =
     (let (p0, n0, h0) =
            (if 32 \<le> len then hash_long align data (unat len) seed
             else (data, unat len, seed + NUMBER64_5));
          (p1, n1, h1) = hash_tail8 align p0 n0 (h0 + len);
          (p2, n2, h2) = hash_tail4 align p1 n1 h1
      in hash_avalanche (hash_tail1 p2 n2 h2))"

text \<open>\<open>addr\<close> is the address the key is stored at; only its low three bits are looked at.\<close>

definition hash_key :: "u64 \<Rightarrow> u8 list \<Rightarrow> u64 \<Rightarrow> u64 \<Rightarrow> u64" where
  "hash_key addr data len seed =
     (if addr AND 7 = 0 then string_key_hash_computation data len seed 1
      else string_key_hash_computation data len seed 0)"

section \<open>The alignment flag selects between equal reads\<close>

lemma hash_read64_align_any: "hash_read64_align ptr align = le_bytes (take 8 ptr)"
  by (simp add: hash_read64_align_def)

lemma hash_read32_align_any: "hash_read32_align ptr align = le_bytes (take 4 ptr)"
  by (simp add: hash_read32_align_def)

lemma hash_stripes_align:
  "hash_stripes a p n v1 v2 v3 v4 = hash_stripes a' p n v1 v2 v3 v4"
proof (induction a p n v1 v2 v3 v4 rule: hash_stripes.induct)
  case (1 a p n v1 v2 v3 v4)
  then show ?case
    by (simp add: hash_stripes.simps [of a p] hash_stripes.simps [of a' p] hash_read64_align_any)
qed

lemma hash_tail8_align: "hash_tail8 a p n h = hash_tail8 a' p n h"
proof (induction a p n h rule: hash_tail8.induct)
  case (1 a p n h)
  then show ?case
    by (simp add: hash_tail8.simps [of a p] hash_tail8.simps [of a' p] hash_read64_align_any)
qed

lemma hash_tail4_align: "hash_tail4 a p n h = hash_tail4 a' p n h"
  by (simp add: hash_tail4_def hash_read32_align_any)

lemma string_key_hash_align:
  "string_key_hash_computation data len seed a = string_key_hash_computation data len seed a'"
  by (simp add: string_key_hash_computation_def hash_long_def hash_stripes_align [of a _ _ _ _ _ _ a']
      hash_tail8_align [of a _ _ _ a'] hash_tail4_align [of a _ _ _ a'])

lemma hash_key_addr_irrelevant: "hash_key addr data len seed = hash_key addr' data len seed"
  by (simp add: hash_key_def string_key_hash_align [of _ _ _ 1 0])

section \<open>The hash reads exactly the bytes of the key\<close>

lemma take_eq_le: "take n p = take n q \<Longrightarrow> m \<le> n \<Longrightarrow> take m p = take m q"
  by (metis min.absorb1 take_take)

lemma take_eq_drop: "take n p = take n q \<Longrightarrow> take (n - k) (drop k p) = take (n - k) (drop k q)"
  by (simp flip: drop_take)

lemma take_eq_drop_le:
  "take n p = take n q \<Longrightarrow> k + m \<le> n \<Longrightarrow> take m (drop k p) = take m (drop k q)"
  by (rule take_eq_le [OF take_eq_drop]) auto

lemma hash_stripes_take:
  assumes "take n p = take n q" and "32 \<le> n"
  shows "\<exists>p' q' n' vs. hash_stripes a p n v1 v2 v3 v4 = (p', n', vs) \<and>
           hash_stripes a q n v1 v2 v3 v4 = (q', n', vs) \<and> take n' p' = take n' q'"
  using assms
proof (induction a p n v1 v2 v3 v4 arbitrary: q rule: hash_stripes.induct)
  case (1 a p n v1 v2 v3 v4)
  have reads: "hash_read64_align p a = hash_read64_align q a"
    "hash_read64_align (drop 8 p) a = hash_read64_align (drop 8 q) a"
    "hash_read64_align (drop 16 p) a = hash_read64_align (drop 16 q) a"
    "hash_read64_align (drop 24 p) a = hash_read64_align (drop 24 q) a"
    using "1.prems" take_eq_le [OF "1.prems"(1), of 8]
    by (simp_all add: hash_read64_align_any take_eq_drop_le [OF "1.prems"(1)])
  have rest: "take (n - 32) (drop 32 p) = take (n - 32) (drop 32 q)"
    by (rule take_eq_drop [OF "1.prems"(1)])
  show ?case
  proof (cases "32 \<le> n - 32")
    case True
    from "1.IH" [OF True rest True] True show ?thesis
      by (simp add: hash_stripes.simps [of a p] hash_stripes.simps [of a q] reads)
  next
    case False
    with rest show ?thesis
      by (simp add: hash_stripes.simps [of a p] hash_stripes.simps [of a q] reads)
  qed
qed

lemma hash_tail8_take:
  assumes "take n p = take n q"
  shows "\<exists>p' q' n' h'. hash_tail8 a p n h = (p', n', h') \<and> hash_tail8 a q n h = (q', n', h') \<and>
           take n' p' = take n' q'"
  using assms
proof (induction a p n h arbitrary: q rule: hash_tail8.induct)
  case (1 a p n h)
  show ?case
  proof (cases "8 \<le> n")
    case True
    have "hash_read64_align p a = hash_read64_align q a"
      using take_eq_le [OF "1.prems" True] by (simp add: hash_read64_align_any)
    with "1.IH" [OF True take_eq_drop [OF "1.prems"]] True show ?thesis
      by (simp add: hash_tail8.simps [of a p] hash_tail8.simps [of a q])
  next
    case False
    with "1.prems" show ?thesis
      by (simp add: hash_tail8.simps [of a p] hash_tail8.simps [of a q])
  qed
qed

lemma hash_tail4_take:
  assumes "take n p = take n q"
  shows "\<exists>p' q' n' h'. hash_tail4 a p n h = (p', n', h') \<and> hash_tail4 a q n h = (q', n', h') \<and>
           take n' p' = take n' q'"
  using assms take_eq_drop [OF assms, of 4] take_eq_le [OF assms, of 4]
  by (simp add: hash_tail4_def hash_read32_align_any)

lemma hash_tail1_take: "take n p = take n q \<Longrightarrow> hash_tail1 p n h = hash_tail1 q n h"
proof (induction n arbitrary: p q h)
  case 0
  then show ?case by simp
next
  case (Suc n)
  have "p ! 0 = q ! 0"
    using take_eq_le [OF Suc.prems, of 1] by (cases p; cases q) auto
  with Suc.IH [OF take_eq_drop [OF Suc.prems, of 1, simplified]] show ?case by simp
qed

lemma string_key_hash_take:
  assumes "take (unat len) data = take (unat len) data'"
  shows "string_key_hash_computation data len seed a = string_key_hash_computation data' len seed a"
proof -
  have "\<exists>p q n h. (if 32 \<le> len then hash_long a data (unat len) seed
              else (data, unat len, seed + NUMBER64_5)) = (p, n, h) \<and>
         (if 32 \<le> len then hash_long a data' (unat len) seed
              else (data', unat len, seed + NUMBER64_5)) = (q, n, h) \<and> take n p = take n q"
  proof (cases "32 \<le> len")
    case True
    then have "32 \<le> unat len" by (simp add: word_le_nat_alt)
    then obtain p q n v1 v2 v3 v4 where
      "hash_stripes a data (unat len) (seed + NUMBER64_1 + NUMBER64_2) (seed + NUMBER64_2)
         (seed + 0) (seed - NUMBER64_1) = (p, n, v1, v2, v3, v4)"
      "hash_stripes a data' (unat len) (seed + NUMBER64_1 + NUMBER64_2) (seed + NUMBER64_2)
         (seed + 0) (seed - NUMBER64_1) = (q, n, v1, v2, v3, v4)"
      "take n p = take n q"
      using hash_stripes_take [OF assms] by (metis prod.collapse)
    with True show ?thesis
      by (simp add: hash_long_def Let_def del: add_0_right)
  next
    case False
    with assms show ?thesis by simp
  qed
  then obtain p q n h where pq: "take n p = take n q"
    and eqs: "(if 32 \<le> len then hash_long a data (unat len) seed
              else (data, unat len, seed + NUMBER64_5)) = (p, n, h)"
      "(if 32 \<le> len then hash_long a data' (unat len) seed
              else (data', unat len, seed + NUMBER64_5)) = (q, n, h)"
    by blast
  obtain p1 q1 n1 h1 where t8: "hash_tail8 a p n (h + len) = (p1, n1, h1)"
    "hash_tail8 a q n (h + len) = (q1, n1, h1)" "take n1 p1 = take n1 q1"
    using hash_tail8_take [OF pq] by blast
  obtain p2 q2 n2 h2 where t4: "hash_tail4 a p1 n1 h1 = (p2, n2, h2)"
    "hash_tail4 a q1 n1 h1 = (q2, n2, h2)" "take n2 p2 = take n2 q2"
    using hash_tail4_take [OF t8(3)] by blast
  from t8 t4 hash_tail1_take [OF t4(3)] show ?thesis
    unfolding string_key_hash_computation_def eqs by simp
qed

lemma hash_key_take:
  "take (unat len) data = take (unat len) data' \<Longrightarrow> hash_key addr data len seed = hash_key addr' data' len seed"
  by (simp add: hash_key_def string_key_hash_take [of len data data'] string_key_hash_align [of _ _ _ 1 0])

section \<open>Rotation and final mixing\<close>

lemma drop_bit_beyond: "64 \<le> k \<Longrightarrow> drop_bit k (x :: u64) = 0"
  by (rule bit_eqI) (simp add: bit_drop_bit_eq bit_imp_le_length)

text \<open>\<^verbatim>\<open>x ^= x >> k\<close> is undone by xoring the shifts by all multiples of \<open>k\<close>.\<close>

lemma xor_shift_inverse:
  assumes "22 \<le> k"
  shows "xor_shift k x XOR drop_bit k (xor_shift k x) XOR drop_bit (2 * k) (xor_shift k x) = x"
proof -
  have "drop_bit (k + k + k) x = 0" using assms by (simp add: drop_bit_beyond)
  then have "drop_bit k (xor_shift k x) = drop_bit k x XOR drop_bit (2 * k) x"
    "drop_bit (2 * k) (xor_shift k x) = drop_bit (2 * k) x"
    by (simp_all add: xor_shift_def drop_bit_xor mult_2)
  then show ?thesis by (simp add: xor_shift_def xor.assoc)
qed

lemma xor_shift_inj:
  assumes "22 \<le> k" and "xor_shift k x = xor_shift k y"
  shows "x = y"
  using xor_shift_inverse [OF assms(1), of x, unfolded assms(2)]
  unfolding xor_shift_inverse [OF assms(1)] by (rule sym)

lemma mult_inj:
  fixes c d x y :: u64
  assumes "d * c = 1" and "x * c = y * c"
  shows "x = y"
proof -
  have "x * (d * c) = y * (d * c)"
    using arg_cong [OF assms(2), of "\<lambda>z. z * d"] by (simp only: mult.assoc mult.commute [of c d])
  then show ?thesis by (simp add: assms(1))
qed

lemma hash_avalanche_injD:
  assumes "hash_avalanche x = hash_avalanche y"
  shows "x = y"
proof -
  have c2: "839798700976720815 * NUMBER64_2 = 1" and c3: "16855272203555305545 * NUMBER64_3 = 1"
    by (simp_all add: NUMBER64_2_def NUMBER64_3_def)
  from assms have "xor_shift 29 (xor_shift 33 x * NUMBER64_2) * NUMBER64_3 =
      xor_shift 29 (xor_shift 33 y * NUMBER64_2) * NUMBER64_3"
    unfolding hash_avalanche_def by (rule xor_shift_inj [rotated]) simp
  then have "xor_shift 29 (xor_shift 33 x * NUMBER64_2) = xor_shift 29 (xor_shift 33 y * NUMBER64_2)"
    by (rule mult_inj [OF c3])
  then have "xor_shift 33 x * NUMBER64_2 = xor_shift 33 y * NUMBER64_2"
    by (rule xor_shift_inj [rotated]) simp
  then have "xor_shift 33 x = xor_shift 33 y" by (rule mult_inj [OF c2])
  then show ?thesis by (rule xor_shift_inj [rotated]) simp
qed

lemma shifting_hash_rotl:
  assumes "0 < r" "r < 64"
  shows "shifting_hash x r = word_rotl r x"
proof (rule bit_word_eqI)
  fix n assume "n < LENGTH(64)"
  then have n: "n < 64" by simp
  show "bit (shifting_hash x r) n = bit (word_rotl r x) n"
  proof (cases "r \<le> n")
    case True
    then have "n + (64 - r) = (n - r) + 64" using assms by simp
    then have "(n + (64 - r)) mod 64 = n - r" using n by (simp only: mod_add_self2) simp
    with True n assms show ?thesis
      by (auto simp: shifting_hash_def bit_word_rotl_iff bit_or_iff bit_push_bit_iff bit_drop_bit_eq
          dest: bit_imp_le_length)
  next
    case False
    then have "(n + (64 - r)) mod 64 = 64 - r + n" using n assms by simp
    with False n assms show ?thesis
      by (simp add: shifting_hash_def bit_word_rotl_iff bit_or_iff bit_push_bit_iff bit_drop_bit_eq)
  qed
qed

end
