(* ===== verification/LevelTable.thy ===== *)
theory LevelTable
  imports KeyHash
begin

text \<open>
  The level hash table, \<^verbatim>\<open>levelkv/src/levelhashing/level_hashing.h\<close> and \<^verbatim>\<open>level_hashing.c\<close>: a top
  level of \<open>2 ^ level_size\<close> buckets over a bottom level of half that size, four slots to a bucket,
  two hash locations for a key in either level.

  The two bucket arrays \<^verbatim>\<open>buckets[0]\<close> (top) and \<^verbatim>\<open>buckets[1]\<close> (bottom) are a list of two lists.
  A key or value argument is the list of the bytes its pointer addresses. Memory that
  \<^verbatim>\<open>posix_memalign\<close> returns is not initialised: what it holds is the parameter \<open>alloc\<close> of the
  operations that allocate, \<open>None\<close> being a failed allocation. \<^verbatim>\<open>exit(1)\<close> is a value of
  \<open>level_exit\<close>; \<^verbatim>\<open>level_insert\<close> calls itself after every expansion and is a partial function
  whose value \<open>None\<close> is a call that does not return.
\<close>

section \<open>Data\<close>

definition ASSOC_NUM :: nat where [simp]: "ASSOC_NUM = 4"
definition KEY_LEN :: nat where [simp]: "KEY_LEN = 16"
definition VALUE_LEN :: nat where [simp]: "VALUE_LEN = 15"

record entry =
  entry_key :: "u8 list"
  entry_value :: "u8 list"

record level_bucket =
  token :: "u8 list"
  slot :: "entry list"

record level_hash =
  buckets :: "level_bucket list list"
  level_item_num :: "u64 list"
  addr_capacity :: u64
  total_capacity :: u64
  level_size :: u64
  level_expand_time :: u8
  resize_state :: u8
  f_seed :: u64
  s_seed :: u64

text \<open>The calls of \<^verbatim>\<open>exit(1)\<close>, with the number the message before it carries, the use of a
  failed allocation that \<^verbatim>\<open>level_shrink\<close> does not check, and its read beyond the old top level.\<close>

datatype level_exit = Init_fails nat | Expand_fails nat | Shrink_fails nat | Null_buckets | Interim_overrun

type_synonym level_alloc = "u64 \<Rightarrow> level_bucket list option"

section \<open>Hash locations\<close>

definition F_HASH :: "level_hash \<Rightarrow> u8 list \<Rightarrow> u64" where
  "F_HASH level key = hash_key 0 key (of_nat (strlen key)) (f_seed level)"

definition S_HASH :: "level_hash \<Rightarrow> u8 list \<Rightarrow> u64" where
  "S_HASH level key = hash_key 0 key (of_nat (strlen key)) (s_seed level)"

definition F_IDX :: "u64 \<Rightarrow> u64 \<Rightarrow> u64" where
  "F_IDX hashKey capacity = hashKey mod (capacity div 2)"

definition S_IDX :: "u64 \<Rightarrow> u64 \<Rightarrow> u64" where
  "S_IDX hashKey capacity = hashKey mod (capacity div 2) + capacity div 2"

text \<open>\<^verbatim>\<open>pow(2, n)\<close> converted to \<^verbatim>\<open>uint64_t\<close>; exact for \<open>n < 64\<close>, beyond which the C conversion is
  undefined.\<close>

definition pow2 :: "u64 \<Rightarrow> u64" where
  "pow2 n = 2 ^ unat n"

section \<open>Access to buckets and slots\<close>

definition bucket_at :: "level_hash \<Rightarrow> nat \<Rightarrow> u64 \<Rightarrow> level_bucket" where
  "bucket_at level i idx = buckets level ! i ! unat idx"

definition upd_bucket :: "level_hash \<Rightarrow> nat \<Rightarrow> u64 \<Rightarrow> (level_bucket \<Rightarrow> level_bucket) \<Rightarrow> level_hash" where
  "upd_bucket level i idx f =
     level\<lparr>buckets := (buckets level)[i := (buckets level ! i)[unat idx := f (bucket_at level i idx)]]\<rparr>"

text \<open>The two \<^verbatim>\<open>memcpy\<close> calls and \<^verbatim>\<open>token[j] = 1\<close> that fill a slot.\<close>

definition store_slot :: "u8 list \<Rightarrow> u8 list \<Rightarrow> nat \<Rightarrow> level_bucket \<Rightarrow> level_bucket" where
  "store_slot key val j b =
     b\<lparr>slot := (slot b)[j := \<lparr>entry_key = memcpy_n KEY_LEN key, entry_value = memcpy_n VALUE_LEN val\<rparr>],
       token := (token b)[j := 1]\<rparr>"

definition clear_slot :: "nat \<Rightarrow> level_bucket \<Rightarrow> level_bucket" where
  "clear_slot j b = b\<lparr>token := (token b)[j := 0]\<rparr>"

definition add_item_num :: "level_hash \<Rightarrow> nat \<Rightarrow> u64 \<Rightarrow> level_hash" where
  "add_item_num level i d = level\<lparr>level_item_num := (level_item_num level)[i := level_item_num level ! i + d]\<rparr>"

text \<open>The loop over the slots of a bucket that looks for an occupied slot with the key.\<close>

definition key_slot :: "level_bucket \<Rightarrow> u8 list \<Rightarrow> nat option" where
  "key_slot b key =
     find (\<lambda>j. token b ! j = 1 \<and> strcmp_eq (entry_key (slot b ! j)) key) [0..<ASSOC_NUM]"

definition free_slot :: "level_bucket \<Rightarrow> nat option" where
  "free_slot b = find (\<lambda>j. token b ! j = 0) [0..<ASSOC_NUM]"

text \<open>The loop over \<^verbatim>\<open>j\<close> that looks at slot \<^verbatim>\<open>j\<close> of the first bucket, then of the second. The flag of
  the result says that the slot is in the second bucket.\<close>

fun free_slot_pair :: "level_bucket \<Rightarrow> level_bucket \<Rightarrow> nat list \<Rightarrow> (bool \<times> nat) option" where
  "free_slot_pair bf bs [] = None"
| "free_slot_pair bf bs (j # js) =
     (if token bf ! j = 0 then Some (False, j)
      else if token bs ! j = 0 then Some (True, j)
      else free_slot_pair bf bs js)"

section \<open>Queries, deletion, update\<close>

text \<open>
  The loop nest shared by the queries, \<^verbatim>\<open>level_delete\<close> and \<^verbatim>\<open>level_update\<close>: for every level of the
  list, first the bucket \<^verbatim>\<open>f_idx\<close>, then the bucket \<^verbatim>\<open>s_idx\<close>; then the indices are computed for the
  capacity \<open>next_cap\<close> of the level that follows. The result is the level, the bucket and the slot.
\<close>

fun probe_levels ::
  "level_hash \<Rightarrow> u8 list \<Rightarrow> u64 \<Rightarrow> u64 \<Rightarrow> u64 \<Rightarrow> nat list \<Rightarrow> u64 \<Rightarrow> u64 \<Rightarrow> (nat \<times> u64 \<times> nat) option" where
  "probe_levels level key f_hash s_hash next_cap [] f_idx s_idx = None"
| "probe_levels level key f_hash s_hash next_cap (i # is) f_idx s_idx =
     (case key_slot (bucket_at level i f_idx) key of
        Some j \<Rightarrow> Some (i, f_idx, j)
      | None \<Rightarrow>
        (case key_slot (bucket_at level i s_idx) key of
           Some j \<Rightarrow> Some (i, s_idx, j)
         | None \<Rightarrow> probe_levels level key f_hash s_hash next_cap is
                    (F_IDX f_hash next_cap) (S_IDX s_hash next_cap)))"

definition probe_down :: "level_hash \<Rightarrow> u8 list \<Rightarrow> (nat \<times> u64 \<times> nat) option" where
  "probe_down level key =
     (let f_hash = F_HASH level key; s_hash = S_HASH level key
      in probe_levels level key f_hash s_hash (addr_capacity level div 2) [0, 1]
           (F_IDX f_hash (addr_capacity level)) (S_IDX s_hash (addr_capacity level)))"

definition probe_up :: "level_hash \<Rightarrow> u8 list \<Rightarrow> (nat \<times> u64 \<times> nat) option" where
  "probe_up level key =
     (let f_hash = F_HASH level key; s_hash = S_HASH level key
      in probe_levels level key f_hash s_hash (addr_capacity level) [1, 0]
           (F_IDX f_hash (addr_capacity level div 2)) (S_IDX s_hash (addr_capacity level div 2)))"

definition slot_value :: "level_hash \<Rightarrow> nat \<times> u64 \<times> nat \<Rightarrow> u8 list" where
  "slot_value level p = (case p of (i, idx, j) \<Rightarrow> entry_value (slot (bucket_at level i idx) ! j))"

definition level_static_query :: "level_hash \<Rightarrow> u8 list \<Rightarrow> u8 list option" where
  "level_static_query level key = map_option (slot_value level) (probe_down level key)"

definition level_dynamic_query :: "level_hash \<Rightarrow> u8 list \<Rightarrow> u8 list option" where
  "level_dynamic_query level key =
     (if level_item_num level ! 0 > level_item_num level ! 1
      then map_option (slot_value level) (probe_down level key)
      else map_option (slot_value level) (probe_up level key))"

definition level_delete :: "level_hash \<Rightarrow> u8 list \<Rightarrow> u8 \<times> level_hash" where
  "level_delete level key =
     (case probe_down level key of
        Some (i, idx, j) \<Rightarrow> (0, add_item_num (upd_bucket level i idx (clear_slot j)) i (- 1))
      | None \<Rightarrow> (1, level))"

definition set_value :: "u8 list \<Rightarrow> nat \<Rightarrow> level_bucket \<Rightarrow> level_bucket" where
  "set_value new_value j b =
     b\<lparr>slot := (slot b)[j := (slot b ! j)\<lparr>entry_value := memcpy_n VALUE_LEN new_value\<rparr>]\<rparr>"

definition level_update :: "level_hash \<Rightarrow> u8 list \<Rightarrow> u8 list \<Rightarrow> u8 \<times> level_hash" where
  "level_update level key new_value =
     (case probe_down level key of
        Some (i, idx, j) \<Rightarrow> (0, upd_bucket level i idx (set_value new_value j))
      | None \<Rightarrow> (1, level))"

section \<open>Movements\<close>

text \<open>The other hash location of an item, at the same level.\<close>

definition alt_index :: "level_hash \<Rightarrow> u64 \<Rightarrow> nat \<Rightarrow> u8 list \<Rightarrow> u64" where
  "alt_index level idx level_num m_key =
     (let f_idx = F_IDX (F_HASH level m_key) (addr_capacity level div (1 + of_nat level_num));
          s_idx = S_IDX (S_HASH level m_key) (addr_capacity level div (1 + of_nat level_num))
      in if f_idx = idx then s_idx else f_idx)"

fun movement_loop ::
  "level_hash \<Rightarrow> u64 \<Rightarrow> nat \<Rightarrow> u8 list \<Rightarrow> u8 list \<Rightarrow> nat list \<Rightarrow> u8 \<times> level_hash" where
  "movement_loop level idx level_num key val [] = (1, level)"
| "movement_loop level idx level_num key val (i # is) =
     (let m = slot (bucket_at level level_num idx) ! i;
          jdx = alt_index level idx level_num (entry_key m)
      in case free_slot (bucket_at level level_num jdx) of
           Some j \<Rightarrow>
             (let l1 = upd_bucket level level_num jdx (store_slot (entry_key m) (entry_value m) j);
                  l2 = upd_bucket l1 level_num idx (clear_slot i);
                  l3 = upd_bucket l2 level_num idx (store_slot key val i)
              in (0, add_item_num l3 level_num 1))
         | None \<Rightarrow> movement_loop level idx level_num key val is)"

definition try_movement :: "level_hash \<Rightarrow> u64 \<Rightarrow> nat \<Rightarrow> u8 list \<Rightarrow> u8 list \<Rightarrow> u8 \<times> level_hash" where
  "try_movement level idx level_num key val = movement_loop level idx level_num key val [0..<ASSOC_NUM]"

fun b2t_loop :: "level_hash \<Rightarrow> u64 \<Rightarrow> nat list \<Rightarrow> int \<times> level_hash" where
  "b2t_loop level idx [] = (- 1, level)"
| "b2t_loop level idx (i # is) =
     (let m = slot (bucket_at level 1 idx) ! i;
          f_idx = F_IDX (F_HASH level (entry_key m)) (addr_capacity level);
          s_idx = S_IDX (S_HASH level (entry_key m)) (addr_capacity level)
      in case free_slot_pair (bucket_at level 0 f_idx) (bucket_at level 0 s_idx) [0..<ASSOC_NUM] of
           Some (second, j) \<Rightarrow>
             (let l1 = upd_bucket level 0 (if second then s_idx else f_idx)
                         (store_slot (entry_key m) (entry_value m) j);
                  l2 = upd_bucket l1 1 idx (clear_slot i)
              in (int i, add_item_num (add_item_num l2 0 1) 1 (- 1)))
         | None \<Rightarrow> b2t_loop level idx is)"

definition b2t_movement :: "level_hash \<Rightarrow> u64 \<Rightarrow> int \<times> level_hash" where
  "b2t_movement level idx = b2t_loop level idx [0..<ASSOC_NUM]"

section \<open>Expansion\<close>

text \<open>One slot of the old bottom level; the state is the table, the new top level and the number of
  items in it.\<close>

definition expand_slot ::
  "level_hash \<times> level_bucket list \<times> u64 \<Rightarrow> nat \<times> nat \<Rightarrow> level_exit + level_hash \<times> level_bucket list \<times> u64" where
  "expand_slot st p =
     (case (st, p) of ((level, newBuckets, new_level_item_num), (old_idx, i)) \<Rightarrow>
        (let b = buckets level ! 1 ! old_idx
         in if token b ! i = 1 then
              (let e = slot b ! i;
                   f_idx = F_IDX (F_HASH level (entry_key e)) (addr_capacity level);
                   s_idx = S_IDX (S_HASH level (entry_key e)) (addr_capacity level)
               in case free_slot_pair (newBuckets ! unat f_idx) (newBuckets ! unat s_idx) [0..<ASSOC_NUM] of
                    Some (second, j) \<Rightarrow>
                      (let idx = unat (if second then s_idx else f_idx)
                       in Inr (upd_bucket level 1 (of_nat old_idx) (clear_slot i),
                               newBuckets[idx := store_slot (entry_key e) (entry_value e) j (newBuckets ! idx)],
                               new_level_item_num + 1))
                  | None \<Rightarrow> Inl (Expand_fails 3))
            else Inr (level, newBuckets, new_level_item_num)))"

definition level_expand :: "level_alloc \<Rightarrow> level_hash \<Rightarrow> level_exit + level_hash" where
  "level_expand alloc level0 =
     (let level = level0\<lparr>resize_state := 1, addr_capacity := pow2 (level_size level0 + 1)\<rparr>
      in case alloc (addr_capacity level) of
           None \<Rightarrow> Inl (Expand_fails 2)
         | Some newBuckets \<Rightarrow>
             (case fold_err expand_slot (level, newBuckets, 0)
                     (List.product [0..<unat (pow2 (level_size level - 1))] [0..<ASSOC_NUM]) of
                Inl e \<Rightarrow> Inl e
              | Inr (level', newBuckets', new_level_item_num) \<Rightarrow>
                  Inr (level'\<lparr>level_size := level_size level' + 1,
                         total_capacity := pow2 (level_size level' + 1) + pow2 (level_size level'),
                         buckets := [newBuckets', buckets level' ! 0],
                         level_item_num := [new_level_item_num, level_item_num level' ! 0],
                         level_expand_time := level_expand_time level' + 1,
                         resize_state := 0\<rparr>)))"

section \<open>Insertion\<close>

text \<open>The first loop of \<^verbatim>\<open>level_insert\<close>: a free slot in one of the two buckets of a level.\<close>

fun insert_levels ::
  "level_hash \<Rightarrow> u8 list \<Rightarrow> u8 list \<Rightarrow> u64 \<Rightarrow> u64 \<Rightarrow> nat list \<Rightarrow> u64 \<Rightarrow> u64 \<Rightarrow> level_hash option" where
  "insert_levels level key val f_hash s_hash [] f_idx s_idx = None"
| "insert_levels level key val f_hash s_hash (i # is) f_idx s_idx =
     (case free_slot_pair (bucket_at level i f_idx) (bucket_at level i s_idx) [0..<ASSOC_NUM] of
        Some (second, j) \<Rightarrow>
          Some (add_item_num (upd_bucket level i (if second then s_idx else f_idx) (store_slot key val j)) i 1)
      | None \<Rightarrow> insert_levels level key val f_hash s_hash is
                  (F_IDX f_hash (addr_capacity level div 2)) (S_IDX s_hash (addr_capacity level div 2)))"

text \<open>The second loop: a movement within a level. The result carries the indices the loop ends with.\<close>

fun move_levels ::
  "level_hash \<Rightarrow> u8 list \<Rightarrow> u8 list \<Rightarrow> u64 \<Rightarrow> u64 \<Rightarrow> nat list \<Rightarrow> u64 \<Rightarrow> u64 \<Rightarrow> bool \<times> level_hash \<times> u64 \<times> u64" where
  "move_levels level key val f_hash s_hash [] f_idx s_idx = (False, level, f_idx, s_idx)"
| "move_levels level key val f_hash s_hash (i # is) f_idx s_idx =
     (let (r1, l1) = try_movement level f_idx i key val
      in if r1 = 0 then (True, l1, f_idx, s_idx)
         else let (r2, l2) = try_movement l1 s_idx i key val
              in if r2 = 0 then (True, l2, f_idx, s_idx)
                 else move_levels l2 key val f_hash s_hash is
                        (F_IDX f_hash (addr_capacity l2 div 2)) (S_IDX s_hash (addr_capacity l2 div 2)))"

text \<open>A bottom-level item is moved to the top level and the new item takes its slot.\<close>

definition b2t_insert :: "level_hash \<Rightarrow> u8 list \<Rightarrow> u8 list \<Rightarrow> u64 \<Rightarrow> bool \<times> level_hash" where
  "b2t_insert level key val idx =
     (let (empty_location, l1) = b2t_movement level idx
      in if empty_location \<noteq> - 1
         then (True, add_item_num (upd_bucket l1 1 idx (store_slot key val (nat empty_location))) 1 1)
         else (False, l1))"

text \<open>Everything \<^verbatim>\<open>level_insert\<close> does before it gives up and expands the table.\<close>

definition insert_attempt :: "level_hash \<Rightarrow> u8 list \<Rightarrow> u8 list \<Rightarrow> bool \<times> level_hash" where
  "insert_attempt level key val =
     (let f_hash = F_HASH level key; s_hash = S_HASH level key;
          f_idx = F_IDX f_hash (addr_capacity level); s_idx = S_IDX s_hash (addr_capacity level)
      in case insert_levels level key val f_hash s_hash [0, 1] f_idx s_idx of
           Some l1 \<Rightarrow> (True, l1)
         | None \<Rightarrow>
             (case move_levels level key val f_hash s_hash [0, 1] f_idx s_idx of
                (moved, l1, f_idx, s_idx) \<Rightarrow>
                  if moved then (True, l1)
                  else if level_expand_time l1 > 0 then
                    (let (done1, l2) = b2t_insert l1 key val f_idx
                     in if done1 then (True, l2) else b2t_insert l2 key val s_idx)
                  else (False, l1)))"

partial_function (option) level_insert ::
  "level_alloc \<Rightarrow> level_hash \<Rightarrow> u8 list \<Rightarrow> u8 list \<Rightarrow> (level_exit + u8 \<times> level_hash) option" where
  "level_insert alloc level key val =
     (case insert_attempt level key val of
        (done, l1) \<Rightarrow>
          if done then Some (Inr (0, l1))
          else (case level_expand alloc l1 of
                  Inl e \<Rightarrow> Some (Inl e)
                | Inr l2 \<Rightarrow> level_insert alloc l2 key val))"

declare level_insert.simps [code]

section \<open>Shrinking\<close>

text \<open>One slot of the old top level, \<^verbatim>\<open>interimBuckets\<close>, is inserted into the shrunk table.\<close>

definition shrink_slot ::
  "level_alloc \<Rightarrow> level_hash \<times> level_bucket list \<Rightarrow> nat \<times> nat
     \<Rightarrow> (level_exit + level_hash \<times> level_bucket list) option" where
  "shrink_slot alloc st p =
     (case (st, p) of ((level, interim), (old_idx, i)) \<Rightarrow>
        (let b = interim ! old_idx
         in if token b ! i = 1 then
              (case level_insert alloc level (entry_key (slot b ! i)) (entry_value (slot b ! i)) of
                 None \<Rightarrow> None
               | Some (Inl e) \<Rightarrow> Some (Inl e)
               | Some (Inr (r, l1)) \<Rightarrow>
                   if r \<noteq> 0 then Some (Inl (Shrink_fails 3))
                   else Some (Inr (l1, interim[old_idx := clear_slot i b])))
            else Some (Inr (level, interim))))"

fun shrink_bucket ::
  "level_alloc \<Rightarrow> level_hash \<times> level_bucket list \<Rightarrow> nat \<Rightarrow> nat list
     \<Rightarrow> (level_exit + level_hash \<times> level_bucket list) option" where
  "shrink_bucket alloc st old_idx [] = Some (Inr st)"
| "shrink_bucket alloc st old_idx (i # is) =
     (case shrink_slot alloc st (old_idx, i) of
        None \<Rightarrow> None
      | Some (Inl e) \<Rightarrow> Some (Inl e)
      | Some (Inr st') \<Rightarrow> shrink_bucket alloc st' old_idx is)"

text \<open>The bound \<^verbatim>\<open>pow(2, level->level_size + 1)\<close> is evaluated again before every round, with the level
  size the insertions have left; \<open>Interim_overrun\<close> is a round beyond the end of \<^verbatim>\<open>interimBuckets\<close>.\<close>

partial_function (option) shrink_loop ::
  "level_alloc \<Rightarrow> level_hash \<times> level_bucket list \<Rightarrow> nat
     \<Rightarrow> (level_exit + level_hash \<times> level_bucket list) option" where
  "shrink_loop alloc st old_idx =
     (if old_idx < unat (pow2 (level_size (fst st) + 1)) then
        if old_idx < length (snd st) then
          (case shrink_bucket alloc st old_idx [0..<ASSOC_NUM] of
             None \<Rightarrow> None
           | Some (Inl e) \<Rightarrow> Some (Inl e)
           | Some (Inr st') \<Rightarrow> shrink_loop alloc st' (old_idx + 1))
        else Some (Inl Interim_overrun)
      else Some (Inr st))"

declare shrink_loop.simps [code]

text \<open>The comparison with \<^verbatim>\<open>total_capacity * ASSOC_NUM * 0.4\<close> is exact over the integers: the
  capacity is three times a power of two, so the product is at least a fifth away from any integer.\<close>

definition too_many_to_shrink :: "level_hash \<Rightarrow> bool" where
  "too_many_to_shrink level \<longleftrightarrow>
     5 * unat (level_item_num level ! 0 + level_item_num level ! 1)
       > 2 * unat (total_capacity level * of_nat ASSOC_NUM)"

definition level_shrink :: "level_alloc \<Rightarrow> level_hash \<Rightarrow> (level_exit + level_hash) option" where
  "level_shrink alloc level0 =
     (if too_many_to_shrink level0 then Some (Inl (Shrink_fails 2))
      else
        (let n = level_size level0 - 1
         in case alloc (pow2 (n - 1)) of
              None \<Rightarrow> Some (Inl Null_buckets)
            | Some newBuckets \<Rightarrow>
                (let interim = buckets level0 ! 0;
                     level = level0\<lparr>resize_state := 2, level_size := n,
                               buckets := [buckets level0 ! 1, newBuckets],
                               level_item_num := [level_item_num level0 ! 1, 0],
                               addr_capacity := pow2 n,
                               total_capacity := pow2 n + pow2 (n - 1)\<rparr>
                 in case shrink_loop alloc (level, interim) 0 of
                      None \<Rightarrow> None
                    | Some (Inl e) \<Rightarrow> Some (Inl e)
                    | Some (Inr (l1, interim')) \<Rightarrow>
                        Some (Inr (l1\<lparr>level_expand_time := 0, resize_state := 0\<rparr>)))))"

section \<open>Creation and destruction\<close>

text \<open>
  \<open>rand n\<close> is the result of the \<open>n\<close>-th call of \<^verbatim>\<open>rand()\<close> after \<^verbatim>\<open>srand\<close>: a non-negative
  \<^verbatim>\<open>int\<close>. The loop draws four numbers a round until the seeds differ.
\<close>

partial_function (option) generate_seeds :: "(nat \<Rightarrow> u64) \<Rightarrow> nat \<Rightarrow> (u64 \<times> u64) option" where
  "generate_seeds rand n =
     (let f = push_bit (unat (rand (n + 2) mod 63)) (rand n);
          s = push_bit (unat (rand (n + 3) mod 63)) (rand (n + 1))
      in if f = s then generate_seeds rand (n + 4) else Some (f, s))"

declare generate_seeds.simps [code]

text \<open>\<open>mem\<close> says whether the allocation of the \<^verbatim>\<open>level_hash\<close> structure itself succeeds.\<close>

definition level_init :: "bool \<Rightarrow> level_alloc \<Rightarrow> (nat \<Rightarrow> u64) \<Rightarrow> u64 \<Rightarrow> (level_exit + level_hash) option" where
  "level_init mem alloc rand n =
     (if \<not> mem then Some (Inl (Init_fails 1))
      else case generate_seeds rand 0 of
        None \<Rightarrow> None
      | Some (f, s) \<Rightarrow>
          (case (alloc (pow2 n), alloc (pow2 (n - 1))) of
             (Some tl_buckets, Some bl_buckets) \<Rightarrow>
               Some (Inr \<lparr>buckets = [tl_buckets, bl_buckets], level_item_num = [0, 0], addr_capacity = pow2 n,
                 total_capacity = pow2 n + pow2 (n - 1), level_size = n, level_expand_time = 0,
                 resize_state = 0, f_seed = f, s_seed = s\<rparr>)
           | _ \<Rightarrow> Some (Inl (Init_fails 2))))"

text \<open>Both bucket arrays are freed; the table has no buckets any more.\<close>

definition level_destroy :: "level_hash \<Rightarrow> level_hash" where
  "level_destroy level = level\<lparr>buckets := []\<rparr>"

end
