(* ===== verification/LevelInv.thy ===== *)
theory LevelInv
  imports LevelTable
begin

text \<open>
  Invariant and contents of the level hash table. The contents are the multiset of the pairs
  (key as a C string, value) held in occupied slots; the invariant says that both levels have the
  right number of buckets, that tokens are 0 or 1, that an item sits in one of the two buckets its
  key hashes to at its level, and that the item counters count. The lemmas of this theory describe
  the effect of filling, clearing and overwriting one slot; the operations are compositions of
  these.
\<close>

section \<open>Contents\<close>

type_synonym item = "u8 list \<times> u8 list"

definition slot_items :: "u8 \<times> entry \<Rightarrow> item multiset" where
  "slot_items p = (if fst p = 1 then {#(c_str (entry_key (snd p)), entry_value (snd p))#} else {#})"

definition bucket_items :: "level_bucket \<Rightarrow> item multiset" where
  "bucket_items b = sum_list (map slot_items (zip (token b) (slot b)))"

definition array_items :: "level_bucket list \<Rightarrow> item multiset" where
  "array_items bs = sum_list (map bucket_items bs)"

definition lvl_items :: "level_hash \<Rightarrow> nat \<Rightarrow> item multiset" where
  "lvl_items level i = array_items (buckets level ! i)"

definition items :: "level_hash \<Rightarrow> item multiset" where
  "items level = lvl_items level 0 + lvl_items level 1"

text \<open>The item an insertion of the key and value buffers adds.\<close>

definition item_of :: "u8 list \<Rightarrow> u8 list \<Rightarrow> item" where
  "item_of key val = (c_str key, take VALUE_LEN val)"

section \<open>Invariant\<close>

text \<open>A key argument: 16 readable bytes with a terminator among them; a value argument: 15 readable
  bytes.\<close>

definition key_arg :: "u8 list \<Rightarrow> bool" where
  "key_arg key \<longleftrightarrow> KEY_LEN \<le> length key \<and> 0 \<in> set (take KEY_LEN key)"

definition val_arg :: "u8 list \<Rightarrow> bool" where
  "val_arg val \<longleftrightarrow> VALUE_LEN \<le> length val"

definition entry_ok :: "entry \<Rightarrow> bool" where
  "entry_ok e \<longleftrightarrow> length (entry_key e) = KEY_LEN \<and> length (entry_value e) = VALUE_LEN"

definition bucket_ok :: "level_bucket \<Rightarrow> bool" where
  "bucket_ok b \<longleftrightarrow> length (token b) = ASSOC_NUM \<and> length (slot b) = ASSOC_NUM \<and>
     (\<forall>t \<in> set (token b). t = 0 \<or> t = 1) \<and> (\<forall>e \<in> set (slot b). entry_ok e)"

text \<open>The two buckets of a key in an array of \<open>cap\<close> buckets, for the seeds \<open>fs\<close> and \<open>ss\<close>.\<close>

definition home_buckets :: "u64 \<Rightarrow> u64 \<Rightarrow> u64 \<Rightarrow> u8 list \<Rightarrow> u64 set" where
  "home_buckets fs ss cap key =
     {F_IDX (hash_key 0 key (of_nat (strlen key)) fs) cap, S_IDX (hash_key 0 key (of_nat (strlen key)) ss) cap}"

definition placed :: "u64 \<Rightarrow> u64 \<Rightarrow> u64 \<Rightarrow> nat \<Rightarrow> level_bucket \<Rightarrow> bool" where
  "placed fs ss cap idx b \<longleftrightarrow>
     (\<forall>j < ASSOC_NUM. token b ! j = 1 \<longrightarrow>
        0 \<in> set (entry_key (slot b ! j)) \<and> idx \<in> unat ` home_buckets fs ss cap (entry_key (slot b ! j)))"

definition array_ok :: "u64 \<Rightarrow> u64 \<Rightarrow> u64 \<Rightarrow> level_bucket list \<Rightarrow> bool" where
  "array_ok fs ss cap bs \<longleftrightarrow> length bs = unat cap \<and>
     (\<forall>idx < length bs. bucket_ok (bs ! idx) \<and> placed fs ss cap idx (bs ! idx))"

text \<open>The number of buckets of level \<open>i\<close>, as the code computes it.\<close>

definition cap_of :: "level_hash \<Rightarrow> nat \<Rightarrow> u64" where
  "cap_of level i = addr_capacity level div (1 + of_nat i)"

definition home :: "level_hash \<Rightarrow> nat \<Rightarrow> u8 list \<Rightarrow> u64 set" where
  "home level i key = home_buckets (f_seed level) (s_seed level) (cap_of level i) key"

text \<open>The invariant without the item counters, which are behind during a movement.\<close>

definition level_shape :: "level_hash \<Rightarrow> bool" where
  "level_shape level \<longleftrightarrow> length (buckets level) = 2 \<and> length (level_item_num level) = 2 \<and>
     2 \<le> unat (level_size level) \<and> unat (level_size level) \<le> 62 \<and>
     addr_capacity level = pow2 (level_size level) \<and>
     total_capacity level = pow2 (level_size level) + pow2 (level_size level - 1) \<and>
     (\<forall>i < 2. array_ok (f_seed level) (s_seed level) (cap_of level i) (buckets level ! i))"

definition counts_ok :: "level_hash \<Rightarrow> bool" where
  "counts_ok level \<longleftrightarrow> (\<forall>i < 2. level_item_num level ! i = of_nat (size (lvl_items level i)))"

definition level_ok :: "level_hash \<Rightarrow> bool" where
  "level_ok level \<longleftrightarrow> level_shape level \<and> counts_ok level"

section \<open>Capacities and bucket indices\<close>

lemma unat_pow2: "unat n < 64 \<Longrightarrow> unat (pow2 n) = 2 ^ unat n"
  by (simp add: pow2_def unat_2p)

lemma F_IDX_less: "unat cap = 2 ^ Suc m \<Longrightarrow> unat (F_IDX h cap) < 2 ^ m"
  by (simp add: F_IDX_def unat_mod_distrib unat_div_distrib)

lemma S_IDX_eq:
  assumes "unat cap = 2 ^ Suc m"
  shows "unat (S_IDX h cap) = unat (F_IDX h cap) + 2 ^ m"
proof -
  have h: "unat (cap div 2) = 2 ^ m" using assms by (simp add: unat_div_distrib)
  have "2 ^ Suc m < (2::nat) ^ 64" using assms unat_u64_less [of cap] by simp
  then have "unat (h mod (cap div 2)) + unat (cap div 2) < 2 ^ 64"
    using F_IDX_less [OF assms, of h] h by (simp add: F_IDX_def)
  then show ?thesis
    by (simp add: S_IDX_def F_IDX_def unat_add_lem [THEN iffD1] h)
qed

lemma S_IDX_bounds:
  assumes "unat cap = 2 ^ Suc m"
  shows "2 ^ m \<le> unat (S_IDX h cap)" "unat (S_IDX h cap) < 2 ^ Suc m"
  using S_IDX_eq [OF assms, of h] F_IDX_less [OF assms, of h] by simp_all

lemma F_IDX_neq_S_IDX: "unat cap = 2 ^ Suc m \<Longrightarrow> F_IDX h cap \<noteq> S_IDX h' cap"
  using F_IDX_less [of cap m h] S_IDX_bounds(1) [of cap m h'] by auto

lemma less_2_cases: "i < 2 \<Longrightarrow> i = 0 \<or> i = (1::nat)"
  by auto

lemma cap_of_simps [simp]: "cap_of level 0 = addr_capacity level" "cap_of level 1 = addr_capacity level div 2"
  "cap_of level (Suc 0) = addr_capacity level div 2"
  by (simp_all add: cap_of_def)

lemma cap_of_pow:
  assumes "level_shape level" and "i < 2"
  shows "unat (cap_of level i) = 2 ^ Suc (unat (level_size level) - i - 1)"
proof -
  from assms(1) have addr: "unat (addr_capacity level) = 2 ^ unat (level_size level)"
    and "2 \<le> unat (level_size level)"
    by (auto simp: level_shape_def unat_pow2)
  then obtain m where m: "unat (level_size level) = Suc (Suc m)"
    using that [of "unat (level_size level) - 2"] by simp
  from less_2_cases [OF assms(2)] show ?thesis
    by (elim disjE) (simp_all add: unat_div_distrib addr m)
qed

lemma home_less:
  assumes "level_shape level" and "i < 2" and "idx \<in> home level i key"
  shows "unat idx < length (buckets level ! i)"
proof -
  have len: "length (buckets level ! i) = unat (cap_of level i)"
    using assms(1,2) by (auto simp: level_shape_def array_ok_def)
  show ?thesis
    using assms(3) F_IDX_less [OF cap_of_pow [OF assms(1,2)]] S_IDX_bounds(2) [OF cap_of_pow [OF assms(1,2)]]
    unfolding len cap_of_pow [OF assms(1,2)] home_def home_buckets_def
    by (auto simp: trans_less_add1 mult_2)
qed

section \<open>Hash locations depend on the C string only\<close>

lemma hash_key_c_str:
  assumes "c_str k = c_str k'"
  shows "hash_key 0 k (of_nat (strlen k)) s = hash_key 0 k' (of_nat (strlen k')) s"
proof -
  have len: "strlen k' = strlen k" by (simp add: strlen_def assms)
  have m: "unat (of_nat (strlen k) :: u64) \<le> strlen k" by (simp add: unat_of_nat)
  have "take (strlen k) k = take (strlen k) k'"
    using c_str_prefix [of k] c_str_prefix [of k'] assms by (simp add: strlen_def)
  then have "take (unat (of_nat (strlen k) :: u64)) k = take (unat (of_nat (strlen k) :: u64)) k'"
    by (rule take_eq_le [OF _ m])
  then show ?thesis unfolding len by (rule hash_key_take)
qed

lemma home_buckets_c_str: "c_str k = c_str k' \<Longrightarrow> home_buckets fs ss cap k = home_buckets fs ss cap k'"
  using hash_key_c_str [of k k'] by (simp add: home_buckets_def)

lemma home_c_str: "c_str k = c_str k' \<Longrightarrow> home level i k = home level i k'"
  unfolding home_def by (rule home_buckets_c_str)

lemma home_F_S:
  "F_IDX (F_HASH level key) (cap_of level i) \<in> home level i key"
  "S_IDX (S_HASH level key) (cap_of level i) \<in> home level i key"
  by (simp_all add: home_def home_buckets_def F_HASH_def S_HASH_def)

lemma home_cases:
  "idx \<in> home level i key \<longleftrightarrow>
     idx = F_IDX (F_HASH level key) (cap_of level i) \<or> idx = S_IDX (S_HASH level key) (cap_of level i)"
  by (auto simp: home_def home_buckets_def F_HASH_def S_HASH_def)

section \<open>Changing one slot\<close>

lemma bucket_items_upd:
  assumes "bucket_ok b" and "j < ASSOC_NUM"
  shows "bucket_items (b\<lparr>slot := (slot b)[j := e], token := (token b)[j := t]\<rparr>) + slot_items (token b ! j, slot b ! j)
    = bucket_items b + slot_items (t, e)"
proof -
  have len: "j < length (zip (token b) (slot b))" and nth: "zip (token b) (slot b) ! j = (token b ! j, slot b ! j)"
    using assms by (simp_all add: bucket_ok_def)
  show ?thesis
    using sum_list_map_update [OF len, of slot_items "(t, e)"]
    unfolding bucket_items_def nth by (simp add: update_zip)
qed

lemma array_items_upd:
  "idx < length bs \<Longrightarrow> array_items (bs[idx := b]) + bucket_items (bs ! idx) = array_items bs + bucket_items b"
  unfolding array_items_def by (rule sum_list_map_update)

lemma mset_exchange:
  assumes "A' + b = A + (b' :: 'a multiset)" and "add_mset x b' = add_mset y b"
  shows "add_mset x A' = add_mset y A"
proof -
  have "add_mset x A' + (b + b') = (A' + b) + add_mset x b'" by simp
  also have "\<dots> = add_mset y A + (b + b')" unfolding assms by simp
  finally show ?thesis by (simp only: add_right_cancel)
qed

lemma mset_exchange_add:
  assumes "A' + b = A + (b' :: 'a multiset)" and "add_mset x b' = b"
  shows "add_mset x A' = A"
proof -
  have "add_mset x A' + b' = A' + b" using assms(2) by auto
  also have "\<dots> = A + b'" by (rule assms(1))
  finally show ?thesis by (simp only: add_right_cancel)
qed

lemma array_ok_upd:
  assumes "array_ok fs ss cap bs" and "idx < length bs" and "bucket_ok b" and "placed fs ss cap idx b"
  shows "array_ok fs ss cap (bs[idx := b])"
  using assms by (auto simp: array_ok_def nth_list_update)

lemma array_okD:
  "array_ok fs ss cap bs \<Longrightarrow> idx < length bs \<Longrightarrow> bucket_ok (bs ! idx)"
  "array_ok fs ss cap bs \<Longrightarrow> idx < length bs \<Longrightarrow> placed fs ss cap idx (bs ! idx)"
  by (auto simp: array_ok_def)

lemma bucket_ok_nth:
  assumes "bucket_ok b" and "j < ASSOC_NUM"
  shows "entry_ok (slot b ! j)" and "token b ! j = 0 \<or> token b ! j = 1"
  using assms by (auto simp: bucket_ok_def)

text \<open>Filling a free slot.\<close>

lemma bucket_ok_store:
  assumes "bucket_ok b" and "key_arg k" and "val_arg v"
  shows "bucket_ok (store_slot k v j b)"
  using assms set_update_subset_insert [of "token b" j 1] set_update_subset_insert [of "slot b" j]
  by (fastforce simp: bucket_ok_def store_slot_def entry_ok_def key_arg_def val_arg_def memcpy_n_def)

lemma home_buckets_take:
  "key_arg k \<Longrightarrow> home_buckets fs ss cap (take KEY_LEN k) = home_buckets fs ss cap k"
  by (rule home_buckets_c_str, rule c_str_take) (simp add: key_arg_def)

lemma placed_store:
  assumes "bucket_ok b" and "placed fs ss cap idx b" and "key_arg k" and "j < ASSOC_NUM"
    and "idx \<in> unat ` home_buckets fs ss cap k"
  shows "placed fs ss cap idx (store_slot k v j b)"
  using assms home_buckets_take [OF assms(3), of fs ss cap]
  by (auto simp: placed_def store_slot_def nth_list_update bucket_ok_def memcpy_n_def key_arg_def)

lemma bucket_items_store:
  assumes "bucket_ok b" and "j < ASSOC_NUM" and "token b ! j = 0" and "key_arg k"
  shows "bucket_items (store_slot k v j b) = add_mset (item_of k v) (bucket_items b)"
  using bucket_items_upd [OF assms(1,2), where t = 1 and e = "\<lparr>entry_key = take KEY_LEN k, entry_value = take VALUE_LEN v\<rparr>"]
    assms(3) c_str_take [of KEY_LEN k] assms(4)
  by (simp add: slot_items_def store_slot_def item_of_def memcpy_n_def key_arg_def)

lemma array_store:
  assumes "array_ok fs ss cap bs" and "idx < length bs" and "j < ASSOC_NUM" and "token (bs ! idx) ! j = 0"
    and "key_arg k" and "val_arg v" and "idx \<in> unat ` home_buckets fs ss cap k"
  shows "array_ok fs ss cap (bs[idx := store_slot k v j (bs ! idx)])"
    and "array_items (bs[idx := store_slot k v j (bs ! idx)]) = add_mset (item_of k v) (array_items bs)"
proof -
  note ok = array_okD [OF assms(1,2)]
  show "array_ok fs ss cap (bs[idx := store_slot k v j (bs ! idx)])"
    by (rule array_ok_upd [OF assms(1,2) bucket_ok_store [OF ok(1) assms(5,6)] placed_store [OF ok assms(5,3,7)]])
  show "array_items (bs[idx := store_slot k v j (bs ! idx)]) = add_mset (item_of k v) (array_items bs)"
    using array_items_upd [OF assms(2), of "store_slot k v j (bs ! idx)"]
    by (simp add: bucket_items_store [OF ok(1) assms(3,4,5)])
qed

text \<open>Clearing an occupied slot.\<close>

lemma array_clear:
  assumes "array_ok fs ss cap bs" and "idx < length bs" and "j < ASSOC_NUM" and "token (bs ! idx) ! j = 1"
  shows "array_ok fs ss cap (bs[idx := clear_slot j (bs ! idx)])"
    and "add_mset (c_str (entry_key (slot (bs ! idx) ! j)), entry_value (slot (bs ! idx) ! j))
           (array_items (bs[idx := clear_slot j (bs ! idx)])) = array_items bs"
proof -
  note ok = array_okD [OF assms(1,2)]
  have "bucket_ok (clear_slot j (bs ! idx))"
    using ok(1) set_update_subset_insert [of "token (bs ! idx)" j 0]
    by (fastforce simp: bucket_ok_def clear_slot_def)
  moreover have "placed fs ss cap idx (clear_slot j (bs ! idx))"
    using ok assms(3) by (auto simp: placed_def clear_slot_def bucket_ok_def nth_list_update)
  ultimately show "array_ok fs ss cap (bs[idx := clear_slot j (bs ! idx)])"
    by (rule array_ok_upd [OF assms(1,2)])
  have "add_mset (c_str (entry_key (slot (bs ! idx) ! j)), entry_value (slot (bs ! idx) ! j))
      (bucket_items (clear_slot j (bs ! idx))) = bucket_items (bs ! idx)"
    using bucket_items_upd [OF ok(1) assms(3), where e = "slot (bs ! idx) ! j" and t = 0] assms(4)
    by (simp add: slot_items_def clear_slot_def)
  then show "add_mset (c_str (entry_key (slot (bs ! idx) ! j)), entry_value (slot (bs ! idx) ! j))
      (array_items (bs[idx := clear_slot j (bs ! idx)])) = array_items bs"
    by (rule mset_exchange_add [OF array_items_upd [OF assms(2)]])
qed

text \<open>Overwriting the value of an occupied slot.\<close>

lemma array_set_value:
  assumes "array_ok fs ss cap bs" and "idx < length bs" and "j < ASSOC_NUM" and "token (bs ! idx) ! j = 1"
    and "val_arg v"
  shows "array_ok fs ss cap (bs[idx := set_value v j (bs ! idx)])"
    and "add_mset (c_str (entry_key (slot (bs ! idx) ! j)), entry_value (slot (bs ! idx) ! j))
           (array_items (bs[idx := set_value v j (bs ! idx)]))
         = add_mset (c_str (entry_key (slot (bs ! idx) ! j)), take VALUE_LEN v) (array_items bs)"
proof -
  note ok = array_okD [OF assms(1,2)]
  let ?b = "bs ! idx"
  have upd: "set_value v j ?b = ?b\<lparr>slot := (slot ?b)[j := (slot ?b ! j)\<lparr>entry_value := take VALUE_LEN v\<rparr>],
       token := (token ?b)[j := token ?b ! j]\<rparr>"
    by (simp add: set_value_def memcpy_n_def)
  have "entry_ok ((slot ?b ! j)\<lparr>entry_value := take VALUE_LEN v\<rparr>)"
    using bucket_ok_nth(1) [OF ok(1) assms(3)] assms(5) by (simp add: entry_ok_def val_arg_def)
  then have "bucket_ok (set_value v j ?b)"
    using ok(1) set_update_subset_insert [of "slot ?b" j]
    unfolding upd by (fastforce simp: bucket_ok_def)
  moreover have "placed fs ss cap idx (set_value v j ?b)"
    using ok assms(3) by (auto simp: placed_def set_value_def bucket_ok_def nth_list_update)
  ultimately show "array_ok fs ss cap (bs[idx := set_value v j ?b])"
    by (rule array_ok_upd [OF assms(1,2)])
  have "add_mset (c_str (entry_key (slot ?b ! j)), entry_value (slot ?b ! j)) (bucket_items (set_value v j ?b))
      = add_mset (c_str (entry_key (slot ?b ! j)), take VALUE_LEN v) (bucket_items ?b)"
    using bucket_items_upd [OF ok(1) assms(3), where e = "(slot ?b ! j)\<lparr>entry_value := take VALUE_LEN v\<rparr>" and t = "token ?b ! j"] assms(4)
    unfolding upd by (simp add: slot_items_def)
  then show "add_mset (c_str (entry_key (slot ?b ! j)), entry_value (slot ?b ! j))
           (array_items (bs[idx := set_value v j ?b]))
         = add_mset (c_str (entry_key (slot ?b ! j)), take VALUE_LEN v) (array_items bs)"
    by (rule mset_exchange [OF array_items_upd [OF assms(2)]])
qed

section \<open>Changing one slot of the table\<close>

lemma level_shape_array:
  assumes "level_shape level" and "i < 2"
  shows "array_ok (f_seed level) (s_seed level) (cap_of level i) (buckets level ! i)"
    and "length (buckets level ! i) = unat (cap_of level i)"
  using assms by (auto simp: level_shape_def array_ok_def)

lemma upd_bucket_sel [simp]:
  "level_item_num (upd_bucket level i idx f) = level_item_num level"
  "addr_capacity (upd_bucket level i idx f) = addr_capacity level"
  "total_capacity (upd_bucket level i idx f) = total_capacity level"
  "level_size (upd_bucket level i idx f) = level_size level"
  "level_expand_time (upd_bucket level i idx f) = level_expand_time level"
  "resize_state (upd_bucket level i idx f) = resize_state level"
  "f_seed (upd_bucket level i idx f) = f_seed level"
  "s_seed (upd_bucket level i idx f) = s_seed level"
  "cap_of (upd_bucket level i idx f) = cap_of level"
  "home (upd_bucket level i idx f) = home level"
  by (simp_all add: upd_bucket_def cap_of_def home_def fun_eq_iff)

lemma add_item_num_sel [simp]:
  "buckets (add_item_num level i d) = buckets level"
  "addr_capacity (add_item_num level i d) = addr_capacity level"
  "total_capacity (add_item_num level i d) = total_capacity level"
  "level_size (add_item_num level i d) = level_size level"
  "level_expand_time (add_item_num level i d) = level_expand_time level"
  "resize_state (add_item_num level i d) = resize_state level"
  "f_seed (add_item_num level i d) = f_seed level"
  "s_seed (add_item_num level i d) = s_seed level"
  "cap_of (add_item_num level i d) = cap_of level"
  "home (add_item_num level i d) = home level"
  "lvl_items (add_item_num level i d) = lvl_items level"
  "items (add_item_num level i d) = items level"
  "level_shape (add_item_num level i d) = level_shape level"
  by (simp_all add: add_item_num_def cap_of_def home_def lvl_items_def items_def level_shape_def fun_eq_iff)

lemma level_shape_upd:
  assumes "level_shape level" and "i < 2"
    and "array_ok (f_seed level) (s_seed level) (cap_of level i)
           ((buckets level ! i)[unat idx := f (bucket_at level i idx)])"
  shows "level_shape (upd_bucket level i idx f)"
proof -
  have "cap_of (level\<lparr>buckets := x\<rparr>) = cap_of level" for x by (simp add: cap_of_def fun_eq_iff)
  then show ?thesis
    using assms by (auto simp: level_shape_def upd_bucket_def nth_list_update)
qed

lemma lvl_items_upd:
  assumes "level_shape level" and "i < 2"
  shows "lvl_items (upd_bucket level i idx f) =
    (lvl_items level)(i := array_items ((buckets level ! i)[unat idx := f (bucket_at level i idx)]))"
  using assms by (auto simp: level_shape_def lvl_items_def upd_bucket_def nth_list_update fun_eq_iff)

lemma home_in:
  assumes "level_shape level" and "i < 2" and "idx \<in> home level i key"
  shows "unat idx < length (buckets level ! i)"
    and "unat idx \<in> unat ` home_buckets (f_seed level) (s_seed level) (cap_of level i) key"
  using home_less [OF assms] level_shape_array(2) [OF assms(1,2)] assms(3) by (auto simp: home_def)

text \<open>The item in slot \<open>j\<close> of a bucket.\<close>

definition stored_item :: "level_hash \<Rightarrow> nat \<Rightarrow> u64 \<Rightarrow> nat \<Rightarrow> item" where
  "stored_item level i idx j =
     (c_str (entry_key (slot (bucket_at level i idx) ! j)), entry_value (slot (bucket_at level i idx) ! j))"

lemma level_store:
  assumes "level_shape level" and "i < 2" and "j < ASSOC_NUM" and "token (bucket_at level i idx) ! j = 0"
    and "key_arg k" and "val_arg v" and "idx \<in> home level i k"
  shows "level_shape (upd_bucket level i idx (store_slot k v j))"
    and "lvl_items (upd_bucket level i idx (store_slot k v j)) =
      (lvl_items level)(i := add_mset (item_of k v) (lvl_items level i))"
proof -
  note ok = level_shape_array [OF assms(1,2)] and h = home_in [OF assms(1,2,7)]
  note st = array_store [OF ok(1) h(1) assms(3) _ assms(5,6) h(2), folded bucket_at_def, OF assms(4)]
  show "level_shape (upd_bucket level i idx (store_slot k v j))"
    using st(1) by (rule level_shape_upd [OF assms(1,2)])
  show "lvl_items (upd_bucket level i idx (store_slot k v j)) =
      (lvl_items level)(i := add_mset (item_of k v) (lvl_items level i))"
    unfolding lvl_items_upd [OF assms(1,2)] st(2) by (simp add: lvl_items_def)
qed

lemma level_clear:
  assumes "level_shape level" and "i < 2" and "j < ASSOC_NUM" and "token (bucket_at level i idx) ! j = 1"
    and "unat idx < length (buckets level ! i)"
  shows "level_shape (upd_bucket level i idx (clear_slot j))"
    and "add_mset (stored_item level i idx j) (lvl_items (upd_bucket level i idx (clear_slot j)) i) = lvl_items level i"
    and "i' \<noteq> i \<Longrightarrow> lvl_items (upd_bucket level i idx (clear_slot j)) i' = lvl_items level i'"
proof -
  note ok = level_shape_array [OF assms(1,2)]
  note st = array_clear [OF ok(1) assms(5,3), folded bucket_at_def, OF assms(4)]
  show "level_shape (upd_bucket level i idx (clear_slot j))"
    using st(1) by (rule level_shape_upd [OF assms(1,2)])
  show "add_mset (stored_item level i idx j) (lvl_items (upd_bucket level i idx (clear_slot j)) i) = lvl_items level i"
    and "i' \<noteq> i \<Longrightarrow> lvl_items (upd_bucket level i idx (clear_slot j)) i' = lvl_items level i'"
    using st(2) by (simp_all add: lvl_items_upd [OF assms(1,2)] stored_item_def) (simp add: lvl_items_def)
qed

lemma level_set_value:
  assumes "level_shape level" and "i < 2" and "j < ASSOC_NUM" and "token (bucket_at level i idx) ! j = 1"
    and "unat idx < length (buckets level ! i)" and "val_arg v"
  shows "level_shape (upd_bucket level i idx (set_value v j))"
    and "add_mset (stored_item level i idx j) (lvl_items (upd_bucket level i idx (set_value v j)) i)
      = add_mset (fst (stored_item level i idx j), take VALUE_LEN v) (lvl_items level i)"
    and "i' \<noteq> i \<Longrightarrow> lvl_items (upd_bucket level i idx (set_value v j)) i' = lvl_items level i'"
proof -
  note ok = level_shape_array [OF assms(1,2)]
  note st = array_set_value [OF ok(1) assms(5,3) _ assms(6), folded bucket_at_def, OF assms(4)]
  show "level_shape (upd_bucket level i idx (set_value v j))"
    using st(1) by (rule level_shape_upd [OF assms(1,2)])
  show "add_mset (stored_item level i idx j) (lvl_items (upd_bucket level i idx (set_value v j)) i)
      = add_mset (fst (stored_item level i idx j), take VALUE_LEN v) (lvl_items level i)"
    and "i' \<noteq> i \<Longrightarrow> lvl_items (upd_bucket level i idx (set_value v j)) i' = lvl_items level i'"
    using st(2) by (simp_all add: lvl_items_upd [OF assms(1,2)] stored_item_def) (simp add: lvl_items_def)
qed

end
