(* ===== verification/LevelOps.thy ===== *)
theory LevelOps
  imports LevelInv
begin

text \<open>
  Correctness of the operations of the level hash table that do not allocate: the queries, deletion,
  update, the two kinds of movement, and everything \<^verbatim>\<open>level_insert\<close> does before it expands the table.
\<close>

section \<open>Membership\<close>

lemma in_bucket_items:
  assumes "bucket_ok b"
  shows "x \<in># bucket_items b \<longleftrightarrow>
    (\<exists>j < ASSOC_NUM. token b ! j = 1 \<and> x = (c_str (entry_key (slot b ! j)), entry_value (slot b ! j)))"
  using assms unfolding bucket_items_def in_sum_list_map
  by (auto simp: slot_items_def bucket_ok_def)

lemma in_lvl_items:
  assumes "level_shape level" and "i < 2"
  shows "x \<in># lvl_items level i \<longleftrightarrow>
    (\<exists>idx. unat idx < length (buckets level ! i) \<and>
      (\<exists>j < ASSOC_NUM. token (bucket_at level i idx) ! j = 1 \<and> x = stored_item level i idx j))"
proof -
  note ok = level_shape_array [OF assms]
  have "x \<in># lvl_items level i \<longleftrightarrow> (\<exists>n < length (buckets level ! i). x \<in># bucket_items (buckets level ! i ! n))"
    unfolding lvl_items_def array_items_def in_sum_list_map ..
  also have "\<dots> \<longleftrightarrow> (\<exists>idx. unat (idx :: u64) < length (buckets level ! i) \<and> x \<in># bucket_items (buckets level ! i ! unat idx))"
  proof -
    have "unat (of_nat n :: u64) = n" if "n < length (buckets level ! i)" for n
      using that ok(2) unat_u64_less [of "cap_of level i"] by (intro unat_of_nat_id) simp
    then show ?thesis by metis
  qed
  also have "\<dots> \<longleftrightarrow> (\<exists>idx. unat idx < length (buckets level ! i) \<and>
      (\<exists>j < ASSOC_NUM. token (bucket_at level i idx) ! j = 1 \<and> x = stored_item level i idx j))"
    using in_bucket_items [OF array_okD(1) [OF ok(1)]]
    by (metis (no_types, lifting) bucket_at_def stored_item_def)
  finally show ?thesis .
qed

text \<open>An occupied slot whose key is \<open>key\<close>.\<close>

definition holds_key :: "level_hash \<Rightarrow> u8 list \<Rightarrow> nat \<Rightarrow> u64 \<Rightarrow> nat \<Rightarrow> bool" where
  "holds_key level key i idx j \<longleftrightarrow> i < 2 \<and> unat idx < length (buckets level ! i) \<and> j < ASSOC_NUM \<and>
     token (bucket_at level i idx) ! j = 1 \<and> strcmp_eq (entry_key (slot (bucket_at level i idx) ! j)) key"

lemma in_items_iff:
  assumes "level_shape level"
  shows "(c_str key, v) \<in># items level \<longleftrightarrow>
    (\<exists>i idx j. holds_key level key i idx j \<and> v = slot_value level (i, idx, j))"
proof -
  have "(c_str key, v) \<in># items level \<longleftrightarrow> (\<exists>i<2. (c_str key, v) \<in># lvl_items level i)"
    by (simp add: items_def numeral_2_eq_2 less_Suc_eq ex_disj_distrib conj_disj_distribR)
  also have "\<dots> \<longleftrightarrow> (\<exists>i idx j. holds_key level key i idx j \<and> v = slot_value level (i, idx, j))"
    using in_lvl_items [OF assms]
    by (auto simp: holds_key_def strcmp_eq_def slot_value_def stored_item_def) metis+
  finally show ?thesis .
qed

text \<open>An occupied slot with the key lies in one of the two buckets the key hashes to.\<close>

lemma holds_key_home:
  assumes "level_shape level" and "holds_key level key i idx j"
  shows "idx \<in> home level i key"
proof -
  have i: "i < 2" and idx: "unat idx < length (buckets level ! i)" and "j < ASSOC_NUM"
    and "token (bucket_at level i idx) ! j = 1"
    and key: "c_str (entry_key (slot (bucket_at level i idx) ! j)) = c_str key"
    using assms(2) by (auto simp: holds_key_def strcmp_eq_def)
  then have "unat idx \<in> unat ` home level i (entry_key (slot (bucket_at level i idx) ! j))"
    using array_okD(2) [OF level_shape_array(1) [OF assms(1) i] idx]
    by (auto simp: placed_def home_def bucket_at_def)
  then show ?thesis
    unfolding home_c_str [OF key] by (auto dest: unat_inj)
qed

section \<open>Probing\<close>

lemma key_slot_Some:
  "key_slot b key = Some j \<Longrightarrow> j < ASSOC_NUM \<and> token b ! j = 1 \<and> strcmp_eq (entry_key (slot b ! j)) key"
  by (auto simp: key_slot_def find_Some_iff)

lemma key_slot_None:
  "key_slot b key = None \<longleftrightarrow> (\<forall>j < ASSOC_NUM. token b ! j = 1 \<longrightarrow> \<not> strcmp_eq (entry_key (slot b ! j)) key)"
  by (auto simp: key_slot_def find_None_iff)

lemma key_slot_holds:
  assumes "level_shape level" and "i < 2" and "idx \<in> home level i key" and "key_slot (bucket_at level i idx) key = Some j"
  shows "holds_key level key i idx j"
  using key_slot_Some [OF assms(4)] home_in(1) [OF assms(1-3)] assms(2) by (simp add: holds_key_def)

lemma two_probes:
  "probe_down level key =
     (let f_hash = F_HASH level key; s_hash = S_HASH level key;
          q = (\<lambda>i idx. map_option (\<lambda>j. (i, idx, j)) (key_slot (bucket_at level i idx) key))
      in case q 0 (F_IDX f_hash (cap_of level 0)) of Some p \<Rightarrow> Some p | None \<Rightarrow>
        (case q 0 (S_IDX s_hash (cap_of level 0)) of Some p \<Rightarrow> Some p | None \<Rightarrow>
        (case q 1 (F_IDX f_hash (cap_of level 1)) of Some p \<Rightarrow> Some p | None \<Rightarrow>
           q 1 (S_IDX s_hash (cap_of level 1)))))"
  "probe_up level key =
     (let f_hash = F_HASH level key; s_hash = S_HASH level key;
          q = (\<lambda>i idx. map_option (\<lambda>j. (i, idx, j)) (key_slot (bucket_at level i idx) key))
      in case q 1 (F_IDX f_hash (cap_of level 1)) of Some p \<Rightarrow> Some p | None \<Rightarrow>
        (case q 1 (S_IDX s_hash (cap_of level 1)) of Some p \<Rightarrow> Some p | None \<Rightarrow>
        (case q 0 (F_IDX f_hash (cap_of level 0)) of Some p \<Rightarrow> Some p | None \<Rightarrow>
           q 0 (S_IDX s_hash (cap_of level 0)))))"
  by (simp_all add: probe_down_def probe_up_def Let_def split: option.split)

lemma probe_Some:
  assumes "level_shape level" and "probe_down level key = Some (i, idx, j) \<or> probe_up level key = Some (i, idx, j)"
  shows "holds_key level key i idx j"
  using assms(2) key_slot_holds [OF assms(1)] home_F_S [of level key 0] home_F_S [of level key 1]
  by (fastforce simp: two_probes Let_def split: option.splits)

lemma probe_None:
  assumes "level_shape level" and "probe_down level key = None \<or> probe_up level key = None"
  shows "\<not> holds_key level key i idx j"
proof
  assume h: "holds_key level key i idx j"
  then have "key_slot (bucket_at level i idx) key \<noteq> None"
    unfolding key_slot_None by (auto simp: holds_key_def)
  moreover have "i = 0 \<or> i = 1" and "idx = F_IDX (F_HASH level key) (cap_of level i) \<or> idx = S_IDX (S_HASH level key) (cap_of level i)"
    using h holds_key_home [OF assms(1) h] less_2_cases by (auto simp: holds_key_def home_cases)
  ultimately show False
    using assms(2) by (auto simp: two_probes Let_def split: option.splits)
qed

lemma probe_iff:
  assumes "level_shape level"
  shows "probe_down level key = None \<longleftrightarrow> (\<forall>v. (c_str key, v) \<notin># items level)"
    and "probe_up level key = None \<longleftrightarrow> (\<forall>v. (c_str key, v) \<notin># items level)"
  using probe_None [OF assms, of key] probe_Some [OF assms, of key] in_items_iff [OF assms]
  by (metis option.exhaust prod.exhaust)+

section \<open>Queries\<close>

lemma static_query_iff:
  assumes "level_shape level"
  shows "level_static_query level key = None \<longleftrightarrow> (\<forall>v. (c_str key, v) \<notin># items level)"
    and "level_dynamic_query level key = None \<longleftrightarrow> (\<forall>v. (c_str key, v) \<notin># items level)"
  using probe_iff [OF assms, of key] by (simp_all add: level_static_query_def level_dynamic_query_def)

lemma query_Some:
  assumes "level_shape level"
    and "level_static_query level key = Some v \<or> level_dynamic_query level key = Some v"
  shows "(c_str key, v) \<in># items level"
proof -
  have "\<exists>i idx j. holds_key level key i idx j \<and> v = slot_value level (i, idx, j)"
    using assms(2) probe_Some [OF assms(1), of key]
    by (fastforce simp: level_static_query_def level_dynamic_query_def split: if_splits)
  then show ?thesis unfolding in_items_iff [OF assms(1)] .
qed

section \<open>Deletion and update\<close>

lemma counts_ok_add:
  assumes "level_ok level" and "level_shape level'" and "level_item_num level' = level_item_num level" and "i < 2"
    and "of_nat (size (lvl_items level' i)) = of_nat (size (lvl_items level i)) + d"
    and "\<And>i'. i' \<noteq> i \<Longrightarrow> lvl_items level' i' = lvl_items level i'"
  shows "level_ok (add_item_num level' i d)"
proof -
  have "length (level_item_num level) = 2" using assms(1) by (simp add: level_ok_def level_shape_def)
  then have "counts_ok (add_item_num level' i d)"
    using assms by (auto simp: level_ok_def counts_ok_def add_item_num_def nth_list_update) (auto simp: lvl_items_def)
  then show ?thesis using assms(2) by (simp add: level_ok_def)
qed

lemma items_split: "i < 2 \<Longrightarrow> items level = lvl_items level i + lvl_items level (1 - i)"
  by (auto simp: items_def dest: less_2_cases)

text \<open>Filling and clearing a slot, with the item counter.\<close>

lemma store_ok:
  assumes "level_ok level" and "i < 2" and "j < ASSOC_NUM" and "token (bucket_at level i idx) ! j = 0"
    and "key_arg k" and "val_arg v" and "idx \<in> home level i k"
  shows "level_ok (add_item_num (upd_bucket level i idx (store_slot k v j)) i 1)"
    and "items (upd_bucket level i idx (store_slot k v j)) = add_mset (item_of k v) (items level)"
proof -
  have sh: "level_shape level" using assms(1) by (simp add: level_ok_def)
  note st = level_store [OF sh assms(2-7)]
  show "level_ok (add_item_num (upd_bucket level i idx (store_slot k v j)) i 1)"
    by (rule counts_ok_add [OF assms(1) st(1) _ assms(2)]) (simp_all add: st(2))
  show "items (upd_bucket level i idx (store_slot k v j)) = add_mset (item_of k v) (items level)"
    using assms(2) by (auto simp: items_def st(2) dest: less_2_cases)
qed

lemma clear_ok:
  assumes "level_ok level" and "i < 2" and "j < ASSOC_NUM" and "token (bucket_at level i idx) ! j = 1"
    and "unat idx < length (buckets level ! i)"
  shows "level_ok (add_item_num (upd_bucket level i idx (clear_slot j)) i (- 1))"
    and "add_mset (stored_item level i idx j) (items (upd_bucket level i idx (clear_slot j))) = items level"
proof -
  have sh: "level_shape level" using assms(1) by (simp add: level_ok_def)
  let ?l = "upd_bucket level i idx (clear_slot j)"
  note cl = level_clear [OF sh assms(2-5)]
  have sz: "of_nat (size (lvl_items ?l i)) = of_nat (size (lvl_items level i)) + (- 1 :: u64)"
    using arg_cong [OF cl(2), of size] by simp (metis add_diff_cancel_left' diff_conv_add_uminus of_nat_Suc)
  show "level_ok (add_item_num ?l i (- 1))"
    by (rule counts_ok_add [OF assms(1) cl(1) _ assms(2) sz cl(3)]) simp_all
  show "add_mset (stored_item level i idx j) (items ?l) = items level"
    using cl(2) cl(3) [of "1 - i"] assms(2)
    unfolding items_split [OF assms(2), of ?l] items_split [OF assms(2), of level]
    by (auto dest: less_2_cases)
qed

lemma stored_item_holds:
  "holds_key level key i idx j \<Longrightarrow> stored_item level i idx j = (c_str key, slot_value level (i, idx, j))"
  by (simp add: holds_key_def strcmp_eq_def stored_item_def slot_value_def)

lemma level_delete_found:
  assumes "level_ok level" and "level_static_query level key = Some v"
  shows "\<exists>level'. level_delete level key = (0, level') \<and> level_ok level' \<and>
    add_mset (c_str key, v) (items level') = items level"
proof -
  have sh: "level_shape level" using assms(1) by (simp add: level_ok_def)
  obtain i idx j where p: "probe_down level key = Some (i, idx, j)" and v: "v = slot_value level (i, idx, j)"
    using assms(2) by (auto simp: level_static_query_def)
  have h: "holds_key level key i idx j" using probe_Some [OF sh] p by blast
  then show ?thesis
    using clear_ok [OF assms(1), of i j idx] stored_item_holds [OF h] v
    by (simp add: level_delete_def p holds_key_def)
qed

lemma level_update_found:
  assumes "level_ok level" and "level_static_query level key = Some v" and "val_arg new"
  shows "\<exists>level'. level_update level key new = (0, level') \<and> level_ok level' \<and>
    add_mset (c_str key, v) (items level') = add_mset (c_str key, take VALUE_LEN new) (items level)"
proof -
  have sh: "level_shape level" using assms(1) by (simp add: level_ok_def)
  obtain i idx j where p: "probe_down level key = Some (i, idx, j)" and v: "v = slot_value level (i, idx, j)"
    using assms(2) by (auto simp: level_static_query_def)
  have h: "holds_key level key i idx j" using probe_Some [OF sh] p by blast
  then have i: "i < 2" and j: "j < ASSOC_NUM" "token (bucket_at level i idx) ! j = 1"
    and idx: "unat idx < length (buckets level ! i)" by (auto simp: holds_key_def)
  let ?l = "upd_bucket level i idx (set_value new j)"
  note sv = level_set_value [OF sh i j idx assms(3)]
  have "size (lvl_items ?l i') = size (lvl_items level i')" for i'
    using arg_cong [OF sv(2), of size] sv(3) by (cases "i' = i") simp_all
  then have "level_ok ?l"
    using assms(1) sv(1) by (simp add: level_ok_def counts_ok_def)
  moreover have "add_mset (c_str key, v) (items ?l) = add_mset (c_str key, take VALUE_LEN new) (items level)"
    using sv(2) sv(3) [of "1 - i"] i
    unfolding items_split [OF i, of ?l] items_split [OF i, of level] stored_item_holds [OF h] v
    by (auto dest: less_2_cases)
  ultimately show ?thesis by (simp add: level_update_def p)
qed

lemma absent_unchanged:
  assumes "level_static_query level key = None"
  shows "level_delete level key = (1, level)" and "level_update level key new = (1, level)"
  using assms by (simp_all add: level_static_query_def level_delete_def level_update_def)

section \<open>Free slots\<close>

lemma free_slot_Some: "free_slot b = Some j \<Longrightarrow> j < ASSOC_NUM \<and> token b ! j = 0"
  by (auto simp: free_slot_def find_Some_iff)

lemma free_slot_pair_Some:
  "free_slot_pair bf bs js = Some (second, j) \<Longrightarrow> j \<in> set js \<and> token (if second then bs else bf) ! j = 0"
  by (induction bf bs js rule: free_slot_pair.induct) (auto split: if_splits)

lemma free_slot_pair_None:
  "free_slot_pair bf bs js = None \<longleftrightarrow> (\<forall>j \<in> set js. token bf ! j \<noteq> 0 \<and> token bs ! j \<noteq> 0)"
  by (induction bf bs js rule: free_slot_pair.induct) auto

definition full_bucket :: "level_bucket \<Rightarrow> bool" where
  "full_bucket b \<longleftrightarrow> (\<forall>j < ASSOC_NUM. token b ! j = 1)"

lemma full_if_no_free_slot:
  assumes "level_shape level" and "i < 2" and "idx \<in> home level i key"
    and "\<forall>j < ASSOC_NUM. token (bucket_at level i idx) ! j \<noteq> 0"
  shows "full_bucket (bucket_at level i idx)"
  using assms(4) bucket_ok_nth(2) [OF array_okD(1) [OF level_shape_array(1) [OF assms(1,2)] home_in(1) [OF assms(1-3)]]]
  by (auto simp: full_bucket_def bucket_at_def)

lemma bucket_at_upd:
  assumes "level_shape level" and "i < 2" and "unat idx < length (buckets level ! i)"
  shows "bucket_at (upd_bucket level i idx f) i' idx' =
    (if i' = i \<and> idx' = idx then f (bucket_at level i idx) else bucket_at level i' idx')"
proof -
  have "length (buckets level) = 2" using assms(1) by (simp add: level_shape_def)
  then show ?thesis
    using assms(2,3) by (auto simp: bucket_at_def upd_bucket_def nth_list_update dest: unat_inj)
qed

lemma bucket_at_add_item_num [simp]: "bucket_at (add_item_num level i d) = bucket_at level"
  by (simp add: bucket_at_def add_item_num_def fun_eq_iff)

text \<open>What an occupied slot holds is a valid key and value argument for an insertion of its item.\<close>

lemma occupied_args:
  assumes "level_shape level" and "i < 2" and "unat idx < length (buckets level ! i)" and "j < ASSOC_NUM"
    and "token (bucket_at level i idx) ! j = 1"
  defines "m \<equiv> slot (bucket_at level i idx) ! j"
  shows "key_arg (entry_key m)" and "val_arg (entry_value m)"
    and "item_of (entry_key m) (entry_value m) = stored_item level i idx j"
    and "idx \<in> home level i (entry_key m)"
proof -
  note arr = level_shape_array(1) [OF assms(1,2)]
  have "entry_ok m" unfolding m_def bucket_at_def
    by (rule bucket_ok_nth(1) [OF array_okD(1) [OF arr assms(3)] assms(4)])
  moreover have pl: "0 \<in> set (entry_key m)" "unat idx \<in> unat ` home level i (entry_key m)"
    using array_okD(2) [OF arr assms(3)] assms(4,5) by (auto simp: placed_def m_def bucket_at_def home_def)
  ultimately show "key_arg (entry_key m)" "val_arg (entry_value m)"
    "item_of (entry_key m) (entry_value m) = stored_item level i idx j"
    by (auto simp: entry_ok_def key_arg_def val_arg_def item_of_def stored_item_def m_def)
  show "idx \<in> home level i (entry_key m)" using pl(2) by (auto dest: unat_inj)
qed

section \<open>Movements\<close>

lemma alt_index_home:
  assumes "level_shape level" and "i < 2" and "idx \<in> home level i k"
  shows "alt_index level idx i k \<in> home level i k" and "alt_index level idx i k \<noteq> idx"
proof -
  show "alt_index level idx i k \<in> home level i k"
    by (auto simp: alt_index_def Let_def home_cases cap_of_def)
  show "alt_index level idx i k \<noteq> idx"
    using assms(3) F_IDX_neq_S_IDX [OF cap_of_pow [OF assms(1,2)]]
    unfolding home_cases alt_index_def Let_def cap_of_def by (metis (no_types, lifting))
qed

lemma movement_step:
  assumes ok: "level_ok level" and i: "i < 2" and ka: "key_arg k" and va: "val_arg v" and idx: "idx \<in> home level i k"
    and s: "s < ASSOC_NUM" and occ: "token (bucket_at level i idx) ! s = 1"
  defines "m \<equiv> slot (bucket_at level i idx) ! s"
  assumes jdx: "jdx = alt_index level idx i (entry_key m)" and j: "free_slot (bucket_at level i jdx) = Some j"
  defines "l1 \<equiv> upd_bucket level i jdx (store_slot (entry_key m) (entry_value m) j)"
  defines "l2 \<equiv> upd_bucket l1 i idx (clear_slot s)"
  defines "l3 \<equiv> upd_bucket l2 i idx (store_slot k v s)"
  shows "level_ok (add_item_num l3 i 1)" and "items l3 = add_mset (item_of k v) (items level)"
proof -
  have sh: "level_shape level" using ok by (simp add: level_ok_def)
  note lidx = home_in(1) [OF sh i idx]
  note m = occupied_args [OF sh i lidx s occ, folded m_def]
  have alt: "jdx \<in> home level i (entry_key m)" "jdx \<noteq> idx"
    using alt_index_home [OF sh i m(4)] jdx by simp_all
  note fj = free_slot_Some [OF j]
  have st1: "level_shape l1" "lvl_items l1 = (lvl_items level)(i := add_mset (stored_item level i idx s) (lvl_items level i))"
    using level_store [OF sh i _ _ m(1,2) alt(1)] fj by (simp_all add: l1_def m(3))
  have b1: "bucket_at l1 i idx = bucket_at level i idx"
    using alt(2) by (simp add: l1_def bucket_at_upd [OF sh i home_in(1) [OF sh i alt(1)]])
  have lidx1: "unat idx < length (buckets l1 ! i)"
    using home_in(1) [OF st1(1) i, of idx k] idx by (simp add: l1_def)
  note cl = level_clear [OF st1(1) i s _ lidx1, folded l2_def, unfolded b1, OF occ]
  have "lvl_items l2 x = lvl_items level x" for x
    using cl(2) cl(3) [of x] by (cases "x = i") (simp_all add: st1(2) stored_item_def b1)
  then have st2: "lvl_items l2 = lvl_items level" ..
  have t2: "token (bucket_at l2 i idx) ! s = 0"
    using s array_okD(1) [OF level_shape_array(1) [OF sh i] lidx, folded bucket_at_def]
    by (simp add: l2_def bucket_at_upd [OF st1(1) i lidx1] b1 clear_slot_def bucket_ok_def)
  have st3: "level_shape l3" "lvl_items l3 = (lvl_items level)(i := add_mset (item_of k v) (lvl_items level i))"
    using level_store [OF cl(1) i s t2 ka va, folded l3_def] idx by (simp_all add: l1_def l2_def st2 [unfolded l1_def l2_def])
  show "level_ok (add_item_num l3 i 1)"
    by (rule counts_ok_add [OF ok st3(1) _ i]) (simp_all add: st3(2), simp add: l3_def l2_def l1_def)
  show "items l3 = add_mset (item_of k v) (items level)"
    using i by (auto simp: items_def st3(2) dest: less_2_cases)
qed

lemma movement_loop_ok:
  assumes "level_ok level" and "i < 2" and "key_arg k" and "val_arg v" and "idx \<in> home level i k"
    and "full_bucket (bucket_at level i idx)" and "movement_loop level idx i k v js = (r, level')"
    and "set js \<subseteq> {..<ASSOC_NUM}"
  shows "r = 0 \<and> level_ok level' \<and> items level' = add_mset (item_of k v) (items level) \<or> r = 1 \<and> level' = level"
  using assms(7,8)
proof (induction js)
  case (Cons s js)
  let ?m = "slot (bucket_at level i idx) ! s"
  let ?jdx = "alt_index level idx i (entry_key ?m)"
  show ?case
  proof (cases "free_slot (bucket_at level i ?jdx)")
    case None
    then show ?thesis using Cons by (simp add: Let_def)
  next
    case (Some j)
    have "s < ASSOC_NUM" and "token (bucket_at level i idx) ! s = 1"
      using Cons.prems(2) assms(6) by (simp_all add: full_bucket_def)
    then show ?thesis
      using movement_step [OF assms(1-5) _ _ refl Some] Some Cons.prems(1) by (auto simp: Let_def)
  qed
qed simp

lemma try_movement_ok:
  assumes "level_ok level" and "i < 2" and "key_arg k" and "val_arg v" and "idx \<in> home level i k"
    and "full_bucket (bucket_at level i idx)" and "try_movement level idx i k v = (r, level')"
  shows "r = 0 \<and> level_ok level' \<and> items level' = add_mset (item_of k v) (items level) \<or> r = 1 \<and> level' = level"
  using movement_loop_ok [OF assms(1-6)] assms(7) by (fastforce simp: try_movement_def)

lemma upd_bucket_add_item_num:
  "upd_bucket (add_item_num level i d) i' idx f = add_item_num (upd_bucket level i' idx f) i d"
  by (simp add: upd_bucket_def add_item_num_def bucket_at_def)

lemma bucket_length:
  "level_shape level \<Longrightarrow> i < 2 \<Longrightarrow> unat idx < length (buckets level ! i) \<Longrightarrow> length (token (bucket_at level i idx)) = ASSOC_NUM"
  using array_okD(1) [OF level_shape_array(1)] by (simp add: bucket_ok_def bucket_at_def)

lemma b2t_step:
  assumes ok: "level_ok level" and idx: "unat idx < length (buckets level ! 1)"
    and s: "s < ASSOC_NUM" and occ: "token (bucket_at level 1 idx) ! s = 1"
  defines "m \<equiv> slot (bucket_at level 1 idx) ! s"
  assumes t: "t \<in> home level 0 (entry_key m)" and j: "j < ASSOC_NUM" "token (bucket_at level 0 t) ! j = 0"
  defines "l1 \<equiv> upd_bucket level 0 t (store_slot (entry_key m) (entry_value m) j)"
  defines "l2 \<equiv> upd_bucket l1 1 idx (clear_slot s)"
  defines "l3 \<equiv> add_item_num (add_item_num l2 0 1) 1 (- 1)"
  shows "level_ok l3 \<and> items l3 = items level \<and> token (bucket_at l3 1 idx) ! s = 0 \<and> home l3 = home level"
proof -
  have sh: "level_shape level" using ok by (simp add: level_ok_def)
  note m = occupied_args [OF sh _ idx s occ, folded m_def, simplified]
  note st1 = store_ok [OF ok _ j m(1,2) t, folded l1_def, simplified]
  have sh1: "level_shape l1" using st1(1) by (simp add: level_ok_def)
  have b1: "bucket_at l1 1 idx = bucket_at level 1 idx"
    using home_in(1) [OF sh _ t] by (simp add: l1_def bucket_at_upd [OF sh])
  have len1: "unat idx < length (buckets l1 ! 1)"
    using idx by (simp add: l1_def upd_bucket_def)
  note cl = clear_ok [OF st1(1), of 1 s idx, unfolded upd_bucket_add_item_num, folded l2_def l3_def]
  have "level_ok l3" using cl(1) s occ b1 len1 by (simp add: l3_def)
  moreover have "stored_item l1 1 idx s = stored_item level 1 idx s" unfolding stored_item_def b1 ..
  then have "items l3 = items level"
    using cl(2) s occ b1 len1 st1(2) m(3) by (simp add: l3_def stored_item_def)
  moreover have "token (bucket_at l3 1 idx) ! s = 0"
    using bucket_length [OF sh _ idx] s
    by (simp add: l3_def l2_def bucket_at_upd [OF sh1 _ len1, simplified] clear_slot_def b1 [simplified])
  ultimately show ?thesis by (simp add: l3_def l2_def l1_def)
qed

lemma b2t_loop_ok:
  assumes "level_ok level" and "unat idx < length (buckets level ! 1)"
    and "full_bucket (bucket_at level 1 idx)" and "b2t_loop level idx js = (r, level')"
    and "set js \<subseteq> {..<ASSOC_NUM}"
  shows "(\<exists>s < ASSOC_NUM. r = int s \<and> level_ok level' \<and> items level' = items level \<and>
      token (bucket_at level' 1 idx) ! s = 0 \<and> home level' = home level) \<or> r = - 1 \<and> level' = level"
  using assms(4,5)
proof (induction js)
  case (Cons s js)
  let ?m = "slot (bucket_at level 1 idx) ! s"
  let ?f = "F_IDX (F_HASH level (entry_key ?m)) (addr_capacity level)"
  let ?s = "S_IDX (S_HASH level (entry_key ?m)) (addr_capacity level)"
  show ?case
  proof (cases "free_slot_pair (bucket_at level 0 ?f) (bucket_at level 0 ?s) [0..<ASSOC_NUM]")
    case None
    then show ?thesis using Cons by (simp add: Let_def)
  next
    case (Some p)
    obtain second j where p: "p = (second, j)" by (cases p)
    have s: "s < ASSOC_NUM" "token (bucket_at level 1 idx) ! s = 1"
      using Cons.prems(2) assms(3) by (simp_all add: full_bucket_def)
    have h: "(if second then ?s else ?f) \<in> home level 0 (entry_key ?m)"
      by (simp add: home_cases)
    have j: "j < ASSOC_NUM" "token (bucket_at level 0 (if second then ?s else ?f)) ! j = 0"
      using free_slot_pair_Some [OF Some [unfolded p]] by (auto split: if_splits)
    show ?thesis
      using b2t_step [OF assms(1,2) s h j] Some p s(1) Cons.prems(1) by (auto simp: Let_def)
  qed
qed simp

lemma b2t_insert_ok:
  assumes "level_ok level" and "key_arg k" and "val_arg v" and "idx \<in> home level 1 k"
    and "full_bucket (bucket_at level 1 idx)" and "b2t_insert level k v idx = (d, level')"
  shows "d \<and> level_ok level' \<and> items level' = add_mset (item_of k v) (items level) \<or> \<not> d \<and> level' = level"
proof -
  have sh: "level_shape level" using assms(1) by (simp add: level_ok_def)
  obtain r l1 where b: "b2t_loop level idx [0..<ASSOC_NUM] = (r, l1)" by fastforce
  have "set [0..<ASSOC_NUM] \<subseteq> {..<ASSOC_NUM}" by auto
  from b2t_loop_ok [OF assms(1) home_in(1) [OF sh _ assms(4)] assms(5) b this]
  consider s where "s < ASSOC_NUM" "r = int s" "level_ok l1" "items l1 = items level"
      "token (bucket_at l1 1 idx) ! s = 0" "home l1 = home level"
    | "r = - 1" "l1 = level"
    by auto
  then show ?thesis
  proof cases
    case 1
    then show ?thesis
      using store_ok [OF 1(3) _ 1(1,5) assms(2,3)] assms(4,6) b
      by (auto simp: b2t_insert_def b2t_movement_def)
  next
    case 2
    then show ?thesis using assms(6) b by (simp add: b2t_insert_def b2t_movement_def)
  qed
qed

section \<open>Insertion without expansion\<close>

lemma insert_levels_ok:
  assumes "level_ok level" and "key_arg k" and "val_arg v"
    and "insert_levels level k v (F_HASH level k) (S_HASH level k) is f_idx s_idx = Some level'"
    and "is = [0, 1] \<and> i = 0 \<or> is = [1] \<and> i = 1"
    and "f_idx = F_IDX (F_HASH level k) (cap_of level i)" and "s_idx = S_IDX (S_HASH level k) (cap_of level i)"
  shows "level_ok level' \<and> items level' = add_mset (item_of k v) (items level)"
  using assms(4-7)
proof (induction "is" arbitrary: f_idx s_idx i)
  case (Cons i0 "is")
  from Cons.prems(2) have i0: "i0 = i" and i: "i < 2" by auto
  show ?case
  proof (cases "free_slot_pair (bucket_at level i f_idx) (bucket_at level i s_idx) [0..<ASSOC_NUM]")
    case None
    then show ?thesis
      using Cons.prems(1,2) Cons.IH [of _ _ 1, OF _ _ refl refl] by (auto simp: i0 Cons.prems(3,4) [symmetric])
  next
    case (Some p)
    obtain second j where p: "p = (second, j)" by (cases p)
    have h: "(if second then s_idx else f_idx) \<in> home level i k"
      using Cons.prems by (simp add: home_cases)
    have j: "j < ASSOC_NUM" "token (bucket_at level i (if second then s_idx else f_idx)) ! j = 0"
      using free_slot_pair_Some [OF Some [unfolded p]] by (auto split: if_splits)
    show ?thesis
      using store_ok [OF assms(1) i j assms(2,3) h] Some p Cons.prems(1) by (auto simp: i0)
  qed
qed simp

text \<open>The first loop fails only if the four buckets of the key are full.\<close>

lemma insert_levels_None:
  assumes "level_shape level"
    and "insert_levels level k v (F_HASH level k) (S_HASH level k) [0, 1]
      (F_IDX (F_HASH level k) (addr_capacity level)) (S_IDX (S_HASH level k) (addr_capacity level)) = None"
    and "i < 2" and "idx \<in> home level i k"
  shows "full_bucket (bucket_at level i idx)"
proof (rule full_if_no_free_slot [OF assms(1,3,4)])
  show "\<forall>j<ASSOC_NUM. token (bucket_at level i idx) ! j \<noteq> 0"
    using assms(2,4) less_2_cases [OF assms(3)]
    by (auto simp: home_cases free_slot_pair_None split: option.splits)
qed

lemma move_levels_ok:
  assumes "level_ok level" and "key_arg k" and "val_arg v"
    and full: "\<And>i idx. i < 2 \<Longrightarrow> idx \<in> home level i k \<Longrightarrow> full_bucket (bucket_at level i idx)"
    and "move_levels level k v (F_HASH level k) (S_HASH level k) is f_idx s_idx = (d, level', f', s')"
    and "is = [0, 1] \<and> i = 0 \<or> is = [1] \<and> i = 1 \<or> is = [] \<and> i = 1"
    and "f_idx = F_IDX (F_HASH level k) (cap_of level i)" and "s_idx = S_IDX (S_HASH level k) (cap_of level i)"
  shows "d \<and> level_ok level' \<and> items level' = add_mset (item_of k v) (items level) \<or>
    \<not> d \<and> level' = level \<and> f' \<in> home level 1 k \<and> s' \<in> home level 1 k"
  using assms(5-8)
proof (induction "is" arbitrary: f_idx s_idx i)
  case Nil
  then show ?case by (auto simp: home_cases)
next
  case (Cons i0 "is")
  from Cons.prems(2) have i0: "i0 = i" and i: "i < 2" by auto
  have h: "f_idx \<in> home level i k" "s_idx \<in> home level i k"
    using Cons.prems by (simp_all add: home_cases)
  obtain r1 l1 where t1: "try_movement level f_idx i k v = (r1, l1)" by fastforce
  obtain r2 l2 where t2: "try_movement level s_idx i k v = (r2, l2)" by fastforce
  note ok1 = try_movement_ok [OF assms(1) i assms(2,3) h(1) full [OF i h(1)] t1]
  note ok2 = try_movement_ok [OF assms(1) i assms(2,3) h(2) full [OF i h(2)] t2]
  consider "r1 = 0" | "r1 = 1" "r2 = 0" "l1 = level" | "r1 = 1" "r2 = 1" "l1 = level" "l2 = level"
    using ok1 ok2 by auto
  then show ?case
  proof cases
    case 3
    then show ?thesis
      using Cons.prems(1,2) Cons.IH [of _ _ 1, OF _ _ refl refl] by (simp add: i0 t1 t2) blast
  qed (use Cons.prems(1) ok1 ok2 in \<open>auto simp: i0 t1 t2\<close>)
qed

lemma insert_attempt_ok:
  assumes "level_ok level" and "key_arg k" and "val_arg v" and "insert_attempt level k v = (d, level')"
  shows "d \<and> level_ok level' \<and> items level' = add_mset (item_of k v) (items level) \<or> \<not> d \<and> level' = level"
proof -
  have sh: "level_shape level" using assms(1) by (simp add: level_ok_def)
  let ?f = "F_HASH level k" and ?s = "S_HASH level k"
  let ?fi = "F_IDX ?f (addr_capacity level)" and ?si = "S_IDX ?s (addr_capacity level)"
  show ?thesis
  proof (cases "insert_levels level k v ?f ?s [0, 1] ?fi ?si")
    case (Some l1)
    then show ?thesis
      using insert_levels_ok [OF assms(1-3) Some, of 0] assms(4) by (simp add: insert_attempt_def Let_def)
  next
    case None
    note full = insert_levels_None [OF sh None]
    obtain m l1 f' s' where mv: "move_levels level k v ?f ?s [0, 1] ?fi ?si = (m, l1, f', s')"
      by (metis prod_cases4)
    have mok: "m \<and> level_ok l1 \<and> items l1 = add_mset (item_of k v) (items level) \<or>
        \<not> m \<and> l1 = level \<and> f' \<in> home level 1 k \<and> s' \<in> home level 1 k"
      using move_levels_ok [OF assms(1-3) full mv, of 0] by simp
    show ?thesis
    proof (cases "\<not> m \<and> level_expand_time level > 0")
      case False
      then show ?thesis using mok assms(4) None mv by (auto simp: insert_attempt_def Let_def)
    next
      case True
      obtain d1 l2 where b1: "b2t_insert level k v f' = (d1, l2)" by fastforce
      obtain d3 l3 where b2: "b2t_insert level k v s' = (d3, l3)" by fastforce
      from True mok have h: "l1 = level" "f' \<in> home level 1 k" "s' \<in> home level 1 k" by auto
      note ok1 = b2t_insert_ok [OF assms(1-3) h(2) full [OF _ h(2), simplified, folded One_nat_def] b1]
      note ok2 = b2t_insert_ok [OF assms(1-3) h(3) full [OF _ h(3), simplified, folded One_nat_def] b2]
      show ?thesis
        using True h(1) ok1 ok2 assms(4) None mv b1 b2
        by (cases d1; cases d3) (auto simp: insert_attempt_def Let_def)
    qed
  qed
qed

end
