(* ===== verification/LevelResize.thy ===== *)
theory LevelResize
  imports LevelOps
begin

text \<open>
  Correctness of the operations of the level hash table that allocate a level: creation, expansion,
  insertion with its expansions, and shrinking.
\<close>

section \<open>The allocator\<close>

text \<open>What the code relies on of \<^verbatim>\<open>alignedmalloc\<close>: it returns as many buckets as asked for, never more
  than \<open>2 ^ 62\<close>, and the memory is zeroed, at least the tokens.\<close>

definition zeroed :: "level_bucket list \<Rightarrow> bool" where
  "zeroed bs \<longleftrightarrow> (\<forall>b \<in> set bs. bucket_ok b \<and> (\<forall>j < ASSOC_NUM. token b ! j = 0))"

definition alloc_ok :: "level_alloc \<Rightarrow> bool" where
  "alloc_ok alloc \<longleftrightarrow> (\<forall>n bs. alloc n = Some bs \<longrightarrow> unat n \<le> 2 ^ 62 \<and> length bs = unat n \<and> zeroed bs)"

lemma alloc_okD:
  "alloc_ok alloc \<Longrightarrow> alloc n = Some bs \<Longrightarrow> unat n \<le> 2 ^ 62 \<and> length bs = unat n \<and> zeroed bs"
  by (simp add: alloc_ok_def)

lemma zeroed_items: "zeroed bs \<Longrightarrow> array_items bs = {#}"
  unfolding array_items_def
  by (induction bs) (auto simp: zeroed_def in_bucket_items intro!: multiset_eqI simp: count_eq_zero_iff)

lemma zeroed_array_ok: "zeroed bs \<Longrightarrow> length bs = unat cap \<Longrightarrow> array_ok fs ss cap bs"
  by (auto simp: zeroed_def array_ok_def placed_def)

lemma home_buckets_less:
  assumes "unat cap = 2 ^ Suc m" and "x \<in> home_buckets fs ss cap key"
  shows "unat x < unat cap"
proof -
  have "(2::nat) ^ m < 2 ^ Suc m" by simp
  then have "unat (F_IDX h cap) < 2 ^ Suc m" for h
    using F_IDX_less [OF assms(1), of h] by (rule less_trans [rotated])
  then show ?thesis
    using assms(2) S_IDX_bounds(2) [OF assms(1)] unfolding assms(1) home_buckets_def by blast
qed

section \<open>Expansion\<close>

text \<open>The table while \<^verbatim>\<open>level_expand\<close> moves the items of the bottom level.\<close>

definition expanding :: "level_hash \<Rightarrow> level_bucket list \<Rightarrow> level_hash" where
  "expanding level lower =
     level\<lparr>resize_state := 1, addr_capacity := pow2 (level_size level + 1), buckets := [buckets level ! 0, lower]\<rparr>"

definition expand_inv :: "level_hash \<Rightarrow> level_hash \<times> level_bucket list \<times> u64 \<Rightarrow> bool" where
  "expand_inv level st \<longleftrightarrow>
     (\<exists>lower new n. st = (expanding level lower, new, n) \<and>
        array_ok (f_seed level) (s_seed level) (cap_of level 1) lower \<and>
        array_ok (f_seed level) (s_seed level) (pow2 (level_size level + 1)) new \<and>
        array_items new + array_items lower = lvl_items level 1 \<and> n = of_nat (size (array_items new)))"

lemma expand_invI:
  "array_ok (f_seed level) (s_seed level) (cap_of level 1) lower \<Longrightarrow>
   array_ok (f_seed level) (s_seed level) (pow2 (level_size level + 1)) new \<Longrightarrow>
   array_items new + array_items lower = lvl_items level 1 \<Longrightarrow> n = of_nat (size (array_items new)) \<Longrightarrow>
   expand_inv level (expanding level lower, new, n)"
  unfolding expand_inv_def by blast

definition slot_cleared :: "level_hash \<times> level_bucket list \<times> u64 \<Rightarrow> nat \<times> nat \<Rightarrow> bool" where
  "slot_cleared st p \<longleftrightarrow> token (buckets (fst st) ! 1 ! fst p) ! snd p \<noteq> 1"

lemma expand_slot_step:
  assumes sh: "level_shape level" and room: "unat (level_size level) < 62"
    and inv: "expand_inv level st" and p: "fst p < unat (cap_of level 1)" "snd p < ASSOC_NUM"
    and st': "expand_slot st p = Inr st'"
  shows "expand_inv level st'" and "slot_cleared st' p" and "slot_cleared st q \<Longrightarrow> slot_cleared st' q"
proof -
  obtain lower new n where st: "st = (expanding level lower, new, n)"
    and lower: "array_ok (f_seed level) (s_seed level) (cap_of level 1) lower"
    and new: "array_ok (f_seed level) (s_seed level) (pow2 (level_size level + 1)) new"
    and sum: "array_items new + array_items lower = lvl_items level 1" and n: "n = of_nat (size (array_items new))"
    using inv by (auto simp: expand_inv_def)
  obtain old i where pi: "p = (old, i)" by (cases p)
  have lb: "length lower = unat (cap_of level 1)" using lower by (simp add: array_ok_def)
  have old: "old < length lower" "i < ASSOC_NUM" using p pi lb by auto
  have "expand_inv level st' \<and> slot_cleared st' p \<and> (slot_cleared st q \<longrightarrow> slot_cleared st' q)"
  proof (cases "token (lower ! old) ! i = 1")
    case False
    then have "st' = st" using st' by (simp add: expand_slot_def st pi expanding_def)
    then show ?thesis using inv False by (simp add: slot_cleared_def st pi expanding_def)
  next
    case True
    let ?e = "slot (lower ! old) ! i"
    let ?cap = "pow2 (level_size level + 1)"
    let ?f = "F_IDX (F_HASH level (entry_key ?e)) ?cap" and ?s = "S_IDX (S_HASH level (entry_key ?e)) ?cap"
    have H: "F_HASH (expanding level lower) k = F_HASH level k" "S_HASH (expanding level lower) k = S_HASH level k" for k
      by (simp_all add: F_HASH_def S_HASH_def expanding_def)
    have B: "buckets (expanding level lower) ! Suc 0 = lower" "addr_capacity (expanding level lower) = ?cap"
      by (simp_all add: expanding_def)
    obtain second j where fs: "free_slot_pair (new ! unat ?f) (new ! unat ?s) [0..<ASSOC_NUM] = Some (second, j)"
      using st' True by (auto simp: expand_slot_def st pi H B Let_def split: option.splits)
    define idx where "idx = (if second then ?s else ?f)"
    have st'_eq: "st' = (upd_bucket (expanding level lower) 1 (of_nat old) (clear_slot i),
        new[unat idx := store_slot (entry_key ?e) (entry_value ?e) j (new ! unat idx)], n + 1)"
      using st' True fs by (simp add: expand_slot_def st pi H B Let_def idx_def)
    have len: "length (token (lower ! old)) = ASSOC_NUM"
      using array_okD(1) [OF lower old(1)] by (simp add: bucket_ok_def)
    have unat_old: "unat (of_nat old :: u64) = old"
      using old(1) lb unat_u64_less [of "cap_of level 1"] by (intro unat_of_nat_id) simp
    have upd: "upd_bucket (expanding level lower) 1 (of_nat old) (clear_slot i) = expanding level (lower[old := clear_slot i (lower ! old)])"
      by (simp add: upd_bucket_def expanding_def bucket_at_def unat_old)
    note cl = array_clear [OF lower old True]
    have "unat (level_size level + 1) = Suc (unat (level_size level))"
      using room by (intro unat_add1) simp
    then have cap: "unat ?cap = 2 ^ Suc (unat (level_size level))" using room by (simp add: unat_pow2)
    have hb: "idx \<in> home_buckets (f_seed level) (s_seed level) ?cap (entry_key ?e)"
      by (simp add: idx_def home_buckets_def F_HASH_def S_HASH_def)
    have idx: "unat idx < length new"
      using home_buckets_less [OF cap hb] new by (simp add: array_ok_def)
    have j: "j < ASSOC_NUM" "token (new ! unat idx) ! j = 0"
      using free_slot_pair_Some [OF fs] by (auto simp: idx_def split: if_splits)
    have eok: "entry_ok ?e" and e0: "0 \<in> set (entry_key ?e)"
      using bucket_ok_nth(1) [OF array_okD(1) [OF lower old(1)] old(2)] array_okD(2) [OF lower old(1)] True old(2)
      by (auto simp: placed_def)
    have args: "key_arg (entry_key ?e)" "val_arg (entry_value ?e)"
      "item_of (entry_key ?e) (entry_value ?e) = (c_str (entry_key ?e), entry_value ?e)"
      using eok e0 by (auto simp: entry_ok_def key_arg_def val_arg_def item_of_def)
    have hb': "unat idx \<in> unat ` home_buckets (f_seed level) (s_seed level) ?cap (entry_key ?e)"
      using hb by (rule imageI)
    note sto = array_store [OF new idx j args(1,2) hb']
    have "expand_inv level st'"
      unfolding st'_eq upd
    proof (rule expand_invI [OF cl(1) sto(1)])
      show "n + 1 = of_nat (size (array_items
          (new[unat idx := store_slot (entry_key ?e) (entry_value ?e) j (new ! unat idx)])))"
        unfolding sto(2) n by simp
      show "array_items (new[unat idx := store_slot (entry_key ?e) (entry_value ?e) j (new ! unat idx)]) +
          array_items (lower[old := clear_slot i (lower ! old)]) = lvl_items level 1"
        unfolding sto(2) args(3) sum [symmetric] cl(2) [symmetric] by simp
    qed
    moreover have "buckets (fst st') ! 1 = lower[old := clear_slot i (lower ! old)]" "buckets (fst st) ! 1 = lower"
      unfolding st st'_eq upd by (simp_all add: expanding_def)
    then have "slot_cleared st' p" "slot_cleared st q \<longrightarrow> slot_cleared st' q"
      using old len unfolding slot_cleared_def
      by (auto simp: pi clear_slot_def nth_list_update split: if_splits)
    ultimately show ?thesis by simp
  qed
  then show "expand_inv level st'" and "slot_cleared st' p" and "slot_cleared st q \<Longrightarrow> slot_cleared st' q" by auto
qed

lemma expand_loop:
  assumes "level_shape level" and "unat (level_size level) < 62"
    and "fold_err expand_slot st ps = Inr st'" and "expand_inv level st"
    and "\<forall>p \<in> set ps. fst p < unat (cap_of level 1) \<and> snd p < ASSOC_NUM"
  shows "expand_inv level st' \<and> (\<forall>p. p \<in> set ps \<or> slot_cleared st p \<longrightarrow> slot_cleared st' p)"
  using assms(3-5)
proof (induction ps arbitrary: st)
  case (Cons p ps)
  obtain st1 where st1: "expand_slot st p = Inr st1" "fold_err expand_slot st1 ps = Inr st'"
    using Cons.prems(1) by (auto split: sum.splits)
  have "fst p < unat (cap_of level 1)" "snd p < ASSOC_NUM" using Cons.prems(3) by auto
  note step = expand_slot_step [OF assms(1,2) Cons.prems(2) this st1(1)]
  show ?case
    using Cons.IH [OF st1(2) step(1)] Cons.prems(3) step(2,3) by auto
qed simp

lemma array_items_empty:
  assumes "array_ok fs ss cap bs" and "\<forall>idx < length bs. \<forall>j < ASSOC_NUM. token (bs ! idx) ! j \<noteq> 1"
  shows "array_items bs = {#}"
proof -
  have "x \<notin># array_items bs" for x
    unfolding array_items_def in_sum_list_map
    using in_bucket_items [OF array_okD(1) [OF assms(1)]] assms(2) by blast
  then show ?thesis by (meson multiset_nonemptyE)
qed

lemma size_Suc_bounds:
  assumes "level_shape level" and "unat (pow2 (level_size level + 1)) \<le> 2 ^ 62"
  shows "unat (level_size level) < 62" and "unat (level_size level + 1) = Suc (unat (level_size level))"
proof -
  have "unat (level_size level) \<le> 62" using assms(1) by (simp add: level_shape_def)
  then show e: "unat (level_size level + 1) = Suc (unat (level_size level))"
    by (intro unat_add1) simp
  have "unat (pow2 (level_size level + 1)) = 2 ^ Suc (unat (level_size level))"
    using e \<open>unat (level_size level) \<le> 62\<close> by (simp add: unat_pow2)
  then have "2 ^ Suc (unat (level_size level)) \<le> (2::nat) ^ 62" using assms(2) by simp
  then show "unat (level_size level) < 62" by (subst (asm) power_increasing_iff) auto
qed

lemma pow2_Suc_div: "unat n < 63 \<Longrightarrow> pow2 (n + 1) div 2 = pow2 n"
  by (rule unat_inj) (simp add: unat_div_distrib unat_pow2 unat_add1)

text \<open>The table \<^verbatim>\<open>level_expand\<close> leaves, with the new top level \<open>new\<close>.\<close>

definition expanded :: "level_hash \<Rightarrow> level_bucket list \<Rightarrow> level_hash" where
  "expanded level new = level\<lparr>addr_capacity := pow2 (level_size level + 1), level_size := level_size level + 1,
     total_capacity := pow2 (level_size level + 1) + pow2 (level_size level), buckets := [new, buckets level ! 0],
     level_item_num := [of_nat (size (array_items new)), level_item_num level ! 0],
     level_expand_time := level_expand_time level + 1, resize_state := 0\<rparr>"

lemma expanding_start:
  assumes "level_shape level"
  shows "level\<lparr>resize_state := 1, addr_capacity := pow2 (level_size level + 1)\<rparr> = expanding level (buckets level ! 1)"
proof -
  have "length (buckets level) = 2" using assms by (simp add: level_shape_def)
  then have "[buckets level ! 0, buckets level ! 1] = buckets level"
    by (auto simp: list_eq_iff_nth_eq less_Suc_eq)
  then show ?thesis by (simp add: expanding_def)
qed

lemma level_expand_eq:
  assumes "level_shape level"
  shows "level_expand alloc level =
    (case alloc (pow2 (level_size level + 1)) of
       None \<Rightarrow> Inl (Expand_fails 2)
     | Some new \<Rightarrow>
         (case fold_err expand_slot (expanding level (buckets level ! 1), new, 0)
             (List.product [0..<unat (pow2 (level_size level - 1))] [0..<ASSOC_NUM]) of
            Inl e \<Rightarrow> Inl e
          | Inr (level1, new', n) \<Rightarrow>
              Inr (level1\<lparr>level_size := level_size level1 + 1,
                 total_capacity := pow2 (level_size level1 + 1) + pow2 (level_size level1),
                 buckets := [new', buckets level1 ! 0],
                 level_item_num := [n, level_item_num level1 ! 0],
                 level_expand_time := level_expand_time level1 + 1, resize_state := 0\<rparr>)))"
proof -
  have sel: "addr_capacity (expanding level b) = pow2 (level_size level + 1)" "level_size (expanding level b) = level_size level" for b
    by (simp_all add: expanding_def)
  show ?thesis unfolding level_expand_def Let_def expanding_start [OF assms] sel ..
qed

lemma cap_of_bottom:
  assumes "level_shape level"
  shows "cap_of level 1 = pow2 (level_size level - 1)"
proof -
  have "2 \<le> unat (level_size level)" "unat (level_size level) \<le> 62" "addr_capacity level = pow2 (level_size level)"
    using assms by (auto simp: level_shape_def)
  then show ?thesis using pow2_Suc_div [of "level_size level - 1"] by (simp add: unat_sub1)
qed

lemma level_expand_result:
  assumes sh: "level_shape level" and al: "alloc_ok alloc" and r: "level_expand alloc level = Inr level'"
  shows "unat (level_size level) < 62"
    and "\<exists>new. level' = expanded level new \<and> array_items new = lvl_items level 1 \<and>
      array_ok (f_seed level) (s_seed level) (pow2 (level_size level + 1)) new"
proof -
  let ?cap = "pow2 (level_size level + 1)"
  obtain new where new: "alloc ?cap = Some new"
    using r by (auto simp: level_expand_eq [OF sh] split: option.splits)
  note nw = alloc_okD [OF al new]
  show room: "unat (level_size level) < 62" using size_Suc_bounds(1) [OF sh] nw by blast
  let ?st = "(expanding level (buckets level ! 1), new, 0 :: u64)"
  let ?ps = "List.product [0..<unat (pow2 (level_size level - 1))] [0..<ASSOC_NUM]"
  obtain st' where fe: "fold_err expand_slot ?st ?ps = Inr st'"
    using r new by (auto simp: level_expand_eq [OF sh] split: sum.splits)
  have "expand_inv level ?st"
    by (rule expand_invI [OF level_shape_array(1) [OF sh] zeroed_array_ok])
       (use nw in \<open>simp_all add: zeroed_items lvl_items_def\<close>)
  from expand_loop [OF sh room fe this]
  have inv: "expand_inv level st'" "\<forall>p \<in> set ?ps. slot_cleared st' p"
    unfolding cap_of_bottom [OF sh] by auto
  from inv(1) obtain lower new' where st': "st' = (expanding level lower, new', of_nat (size (array_items new')))"
    and lower: "array_ok (f_seed level) (s_seed level) (cap_of level 1) lower"
    and new': "array_ok (f_seed level) (s_seed level) ?cap new'"
    and sum: "array_items new' + array_items lower = lvl_items level 1"
    unfolding expand_inv_def by blast
  have "array_items lower = {#}"
  proof (rule array_items_empty [OF lower], intro allI impI)
    fix idx j assume "idx < length lower" "j < ASSOC_NUM"
    then have "(idx, j) \<in> set ?ps" using lower unfolding array_ok_def cap_of_bottom [OF sh] by simp
    then show "token (lower ! idx) ! j \<noteq> 1" using inv(2) by (force simp: slot_cleared_def st' expanding_def)
  qed
  moreover have "level' = expanded level new'"
    using r new fe by (simp add: level_expand_eq [OF sh] st' expanding_def expanded_def)
  ultimately show "\<exists>new. level' = expanded level new \<and> array_items new = lvl_items level 1 \<and>
      array_ok (f_seed level) (s_seed level) ?cap new"
    using sum new' by auto
qed

lemma expanded_ok:
  assumes ok: "level_ok level" and room: "unat (level_size level) < 62" and new: "array_items new = lvl_items level 1"
    "array_ok (f_seed level) (s_seed level) (pow2 (level_size level + 1)) new"
  shows "level_ok (expanded level new)" and "items (expanded level new) = items level"
proof -
  have sh: "level_shape level" using ok by (simp add: level_ok_def)
  have addr: "addr_capacity level = pow2 (level_size level)" "2 \<le> unat (level_size level)"
    using sh by (auto simp: level_shape_def)
  have caps: "cap_of (expanded level new) 0 = pow2 (level_size level + 1)" "cap_of (expanded level new) 1 = cap_of level 0"
    using pow2_Suc_div [of "level_size level"] room by (simp_all add: expanded_def addr)
  have "array_ok (f_seed (expanded level new)) (s_seed (expanded level new)) (cap_of (expanded level new) i) (buckets (expanded level new) ! i)"
    if "i < 2" for i
    using less_2_cases [OF that] new(2) level_shape_array(1) [OF sh, of 0] caps by (auto simp: expanded_def)
  then have sh': "level_shape (expanded level new)"
    using room addr(2) unat_add1 [of "level_size level"] by (simp add: level_shape_def expanded_def)
  have lv: "lvl_items (expanded level new) 0 = lvl_items level 1" "lvl_items (expanded level new) 1 = lvl_items level 0"
    using new(1) by (simp_all add: lvl_items_def expanded_def)
  have "counts_ok (expanded level new)"
    using ok lv new(1) unfolding counts_ok_def level_ok_def by (auto simp: expanded_def dest!: less_2_cases)
  with sh' show "level_ok (expanded level new)" by (simp add: level_ok_def)
  show "items (expanded level new) = items level" unfolding items_def lv by (rule add.commute)
qed

lemma level_expand_ok:
  assumes "level_ok level" and "alloc_ok alloc" and "level_expand alloc level = Inr level'"
  shows "level_ok level' \<and> items level' = items level \<and> unat (level_size level) < 62 \<and>
    level_size level' = level_size level + 1 \<and> level_expand_time level' = level_expand_time level + 1"
proof -
  have sh: "level_shape level" using assms(1) by (simp add: level_ok_def)
  note res = level_expand_result [OF sh assms(2,3)]
  from res(2) obtain new where "level' = expanded level new" "array_items new = lvl_items level 1"
    "array_ok (f_seed level) (s_seed level) (pow2 (level_size level + 1)) new" by blast
  then show ?thesis using expanded_ok [OF assms(1) res(1)] res(1) by (simp add: expanded_def)
qed

lemma level_expand_error:
  assumes "level_shape level" and "level_expand alloc level = Inl e"
  shows "e = Expand_fails 2 \<and> alloc (pow2 (level_size level + 1)) = None \<or> e = Expand_fails 3"
proof -
  have "fold_err expand_slot st ps = Inl e \<Longrightarrow> e = Expand_fails 3" for st ps
    by (induction ps arbitrary: st) (auto simp: expand_slot_def Let_def split: sum.splits if_splits option.splits)
  then show ?thesis
    using assms(2) by (auto simp: level_expand_eq [OF assms(1)] split: option.splits sum.splits)
qed

end
