(* ===== verification/LevelAlloc.thy ===== *)
theory LevelAlloc
  imports LevelResize
begin

text \<open>
  The allocating operations of the level hash table as their callers see them: \<^verbatim>\<open>level_insert\<close> with
  all its expansions, \<^verbatim>\<open>level_shrink\<close> and \<^verbatim>\<open>level_init\<close>.
\<close>

section \<open>Insertion\<close>

text \<open>What an insertion leaves: the table with one more item, or the exit of a failed expansion.\<close>

definition inserted :: "level_hash \<Rightarrow> item \<Rightarrow> level_exit + u8 \<times> level_hash \<Rightarrow> bool" where
  "inserted level x r \<longleftrightarrow>
     (case r of
        Inl e \<Rightarrow> e = Expand_fails 2 \<or> e = Expand_fails 3
      | Inr (c, level') \<Rightarrow> c = 0 \<and> level_ok level' \<and> items level' = add_mset x (items level) \<and>
          unat (level_size level) \<le> unat (level_size level'))"

text \<open>Only the expansion changes the level size.\<close>

named_theorems size_frame

lemma movement_loop_size: "level_size (snd (movement_loop level idx i k v js)) = level_size level"
  by (induction level idx i k v js rule: movement_loop.induct) (auto simp: Let_def split: option.splits)

lemma try_movement_size [size_frame]: "try_movement level idx i k v = (r, level') \<Longrightarrow> level_size level' = level_size level"
  using movement_loop_size [of level idx i k v "[0..<ASSOC_NUM]"] by (simp add: try_movement_def)

lemma insert_levels_size [size_frame]:
  "insert_levels level k v fh sh is fi si = Some level' \<Longrightarrow> level_size level' = level_size level"
  by (induction level k v fh sh "is" fi si rule: insert_levels.induct) (auto split: option.splits)

lemma move_levels_size [size_frame]:
  "move_levels level k v fh sh is fi si = (r, level', fi', si') \<Longrightarrow> level_size level' = level_size level"
  by (induction level k v fh sh "is" fi si rule: move_levels.induct)
     (auto simp: Let_def dest!: try_movement_size split: prod.splits if_splits)

lemma b2t_loop_size: "level_size (snd (b2t_loop level idx js)) = level_size level"
  by (induction level idx js rule: b2t_loop.induct) (auto simp: Let_def split: option.splits)

lemma b2t_insert_size [size_frame]: "b2t_insert level k v idx = (r, level') \<Longrightarrow> level_size level' = level_size level"
  using b2t_loop_size [of level idx "[0..<ASSOC_NUM]"]
  by (auto simp: b2t_insert_def b2t_movement_def Let_def split: prod.splits if_splits)

lemma insert_attempt_size:
  "insert_attempt level k v = (d, level') \<Longrightarrow> level_size level' = level_size level"
  by (auto simp: insert_attempt_def Let_def dest!: size_frame split: option.splits prod.splits if_splits)

lemma level_insert_ok:
  assumes "alloc_ok alloc" and "key_arg k" and "val_arg v" and "level_ok level"
  shows "\<exists>r. level_insert alloc level k v = Some r \<and> inserted level (item_of k v) r"
  using assms(4)
proof (induction "62 - unat (level_size level)" arbitrary: level rule: less_induct)
  case less
  obtain d l1 where at: "insert_attempt level k v = (d, l1)" by fastforce
  note ok = insert_attempt_ok [OF less.prems assms(2,3) at]
  show ?case
  proof (cases d)
    case True
    then show ?thesis
      using ok at insert_attempt_size [OF at] by (simp add: level_insert.simps inserted_def)
  next
    case False
    then have l1: "l1 = level" using ok by simp
    show ?thesis
    proof (cases "level_expand alloc level")
      case (Inl e)
      have "level_shape level" using less.prems by (simp add: level_ok_def)
      from level_expand_error [OF this Inl] show ?thesis
        using at False Inl l1 by (auto simp: level_insert.simps inserted_def)
    next
      case (Inr l2)
      note ex = level_expand_ok [OF less.prems assms(1) Inr]
      have s2: "unat (level_size l2) = Suc (unat (level_size level))" using ex unat_add1 [of "level_size level"] by simp
      then obtain r where r: "level_insert alloc l2 k v = Some r" "inserted l2 (item_of k v) r"
        using less.hyps [of l2] ex by fastforce
      then have "inserted level (item_of k v) r"
        using ex s2 by (auto simp: inserted_def split: sum.splits)
      then show ?thesis using at False Inr l1 r(1) by (simp add: level_insert.simps)
    qed
  qed
qed

lemma level_insert_free_slot:
  assumes "level_ok level" and "key_arg k" and "val_arg v" and "i < 2" and "idx \<in> home level i k"
    and "j < ASSOC_NUM" and "token (bucket_at level i idx) ! j = 0"
  shows "\<exists>level'. level_insert alloc level k v = Some (Inr (0, level')) \<and> level_ok level' \<and>
    items level' = add_mset (item_of k v) (items level) \<and> level_size level' = level_size level"
proof -
  have sh: "level_shape level" using assms(1) by (simp add: level_ok_def)
  have "\<not> full_bucket (bucket_at level i idx)" using assms(6,7) by (auto simp: full_bucket_def)
  with insert_levels_None [OF sh _ assms(4,5)]
  obtain l1 where "insert_levels level k v (F_HASH level k) (S_HASH level k) [0, 1]
      (F_IDX (F_HASH level k) (addr_capacity level)) (S_IDX (S_HASH level k) (addr_capacity level)) = Some l1"
    by fastforce
  then have at: "insert_attempt level k v = (True, l1)" by (simp add: insert_attempt_def Let_def)
  then show ?thesis
    using insert_attempt_ok [OF assms(1-3) at] insert_attempt_size [OF at]
    by (subst level_insert.simps) simp
qed

section \<open>Shrinking\<close>

text \<open>The state of \<^verbatim>\<open>level_shrink\<close> while it empties the old top level: the items of the table and of the
  old top level together are \<open>all\<close>, and the table never gets smaller than \<open>n\<close>.\<close>

definition shrink_inv ::
  "u64 \<Rightarrow> u64 \<Rightarrow> u64 \<Rightarrow> item multiset \<Rightarrow> nat \<Rightarrow> level_hash \<times> level_bucket list \<Rightarrow> bool" where
  "shrink_inv fs ss cap all n st \<longleftrightarrow> level_ok (fst st) \<and> array_ok fs ss cap (snd st) \<and>
     items (fst st) + array_items (snd st) = all \<and> n \<le> unat (level_size (fst st))"

definition interim_cleared :: "level_hash \<times> level_bucket list \<Rightarrow> nat \<times> nat \<Rightarrow> bool" where
  "interim_cleared st p \<longleftrightarrow> token (snd st ! fst p) ! snd p \<noteq> 1"

definition expand_exit :: "level_exit \<Rightarrow> bool" where
  "expand_exit e \<longleftrightarrow> e = Expand_fails 2 \<or> e = Expand_fails 3"

lemma shrink_slot_ok:
  assumes "alloc_ok alloc" and inv: "shrink_inv fs ss cap all n st" and old: "old < unat cap" and i: "i < ASSOC_NUM"
  shows "(\<exists>e. shrink_slot alloc st (old, i) = Some (Inl e) \<and> expand_exit e) \<or>
    (\<exists>st'. shrink_slot alloc st (old, i) = Some (Inr st') \<and> shrink_inv fs ss cap all n st' \<and>
       interim_cleared st' (old, i) \<and> (\<forall>q. interim_cleared st q \<longrightarrow> interim_cleared st' q))"
proof -
  obtain l interim where st: "st = (l, interim)" by (cases st)
  have l: "level_ok l" and arr: "array_ok fs ss cap interim" and sum: "items l + array_items interim = all"
    and n: "n \<le> unat (level_size l)" using inv by (auto simp: shrink_inv_def st)
  have oldl: "old < length interim" using arr old by (simp add: array_ok_def)
  show ?thesis
  proof (cases "token (interim ! old) ! i = 1")
    case False
    then show ?thesis using inv by (simp add: shrink_slot_def st interim_cleared_def)
  next
    case True
    let ?e = "slot (interim ! old) ! i"
    have "entry_ok ?e" and "0 \<in> set (entry_key ?e)"
      using bucket_ok_nth(1) [OF array_okD(1) [OF arr oldl] i] array_okD(2) [OF arr oldl] True i
      by (auto simp: placed_def)
    then have args: "key_arg (entry_key ?e)" "val_arg (entry_value ?e)"
      "item_of (entry_key ?e) (entry_value ?e) = (c_str (entry_key ?e), entry_value ?e)"
      by (auto simp: entry_ok_def key_arg_def val_arg_def item_of_def)
    obtain r where r: "level_insert alloc l (entry_key ?e) (entry_value ?e) = Some r"
      and ins: "inserted l (item_of (entry_key ?e) (entry_value ?e)) r"
      using level_insert_ok [OF assms(1) args(1,2) l] by blast
    show ?thesis
    proof (cases r)
      case (Inl e)
      then show ?thesis using r ins True by (auto simp: shrink_slot_def st Let_def inserted_def expand_exit_def)
    next
      case (Inr q)
      then obtain l' where q: "q = (0, l')" and l': "level_ok l'" "unat (level_size l) \<le> unat (level_size l')"
        "items l' = add_mset (item_of (entry_key ?e) (entry_value ?e)) (items l)"
        using ins by (cases q) (auto simp: inserted_def)
      let ?interim = "interim[old := clear_slot i (interim ! old)]"
      note cl = array_clear [OF arr oldl i True]
      have "items l' + array_items ?interim = all"
        using sum by (simp add: l'(3) args(3) flip: cl(2))
      then have "shrink_inv fs ss cap all n (l', ?interim)"
        using cl(1) l'(1,2) n by (simp add: shrink_inv_def)
      moreover have "length (token (interim ! old)) = ASSOC_NUM"
        using array_okD(1) [OF arr oldl] by (simp add: bucket_ok_def)
      then have "interim_cleared (l', ?interim) (old, i)"
        "\<forall>q. interim_cleared st q \<longrightarrow> interim_cleared (l', ?interim) q"
        using oldl i by (auto simp: interim_cleared_def st clear_slot_def nth_list_update split: if_splits)
      moreover have "shrink_slot alloc st (old, i) = Some (Inr (l', ?interim))"
        using r True Inr q by (simp add: shrink_slot_def st Let_def)
      ultimately show ?thesis by blast
    qed
  qed
qed

lemma shrink_bucket_ok:
  assumes "alloc_ok alloc" and "shrink_inv fs ss cap all n st" and "old < unat cap" and "set is \<subseteq> {..<ASSOC_NUM}"
  shows "(\<exists>e. shrink_bucket alloc st old is = Some (Inl e) \<and> expand_exit e) \<or>
    (\<exists>st'. shrink_bucket alloc st old is = Some (Inr st') \<and> shrink_inv fs ss cap all n st' \<and>
       (\<forall>i \<in> set is. interim_cleared st' (old, i)) \<and> (\<forall>q. interim_cleared st q \<longrightarrow> interim_cleared st' q))"
  using assms(2,4)
proof (induction "is" arbitrary: st)
  case (Cons i "is")
  then have "i < ASSOC_NUM" by simp
  from shrink_slot_ok [OF assms(1) Cons.prems(1) assms(3) this]
  consider e where "shrink_slot alloc st (old, i) = Some (Inl e)" "expand_exit e"
    | st1 where "shrink_slot alloc st (old, i) = Some (Inr st1)" "shrink_inv fs ss cap all n st1"
        "interim_cleared st1 (old, i)" "\<forall>q. interim_cleared st q \<longrightarrow> interim_cleared st1 q"
    by blast
  then show ?case
  proof cases
    case 2
    then show ?thesis using Cons.IH [OF 2(2)] Cons.prems(2) by auto
  qed simp
qed simp

lemma shrink_loop_ok:
  assumes "alloc_ok alloc" and "unat cap = 2 ^ Suc n" and "n \<le> 61"
    and "shrink_inv fs ss cap all n st" and "old \<le> unat cap"
    and "\<forall>idx < old. \<forall>i < ASSOC_NUM. interim_cleared st (idx, i)"
  shows "(\<exists>e. shrink_loop alloc st old = Some (Inl e) \<and> (expand_exit e \<or> e = Interim_overrun)) \<or>
    (\<exists>level' interim'. shrink_loop alloc st old = Some (Inr (level', interim')) \<and> level_ok level' \<and>
       items level' = all \<and> unat (level_size level') = n)"
  using assms(4-6)
proof (induction "unat cap - old" arbitrary: st old rule: less_induct)
  case less
  obtain l interim where st: "st = (l, interim)" by (cases st)
  have l: "level_ok l" and arr: "array_ok fs ss cap interim" and sum: "items l + array_items interim = all"
    and n: "n \<le> unat (level_size l)" using less.prems(1) by (auto simp: shrink_inv_def st)
  have len: "length interim = unat cap" using arr by (simp add: array_ok_def)
  have "unat (level_size l) \<le> 62" using l by (simp add: level_ok_def level_shape_def)
  then have bound: "unat (pow2 (level_size l + 1)) = 2 ^ Suc (unat (level_size l))"
    using unat_add1 [of "level_size l"] by (simp add: unat_pow2)
  show ?case
  proof (cases "old < unat cap")
    case True
    moreover have "(2::nat) ^ Suc n \<le> 2 ^ Suc (unat (level_size l))" using n by (intro power_increasing) simp_all
    ultimately have "old < unat (pow2 (level_size l + 1))" unfolding bound assms(2) by (rule less_le_trans)
    then have step: "shrink_loop alloc st old = (case shrink_bucket alloc st old [0..<ASSOC_NUM] of
        None \<Rightarrow> None | Some (Inl e) \<Rightarrow> Some (Inl e) | Some (Inr st') \<Rightarrow> shrink_loop alloc st' (old + 1))"
      using True len by (subst shrink_loop.simps) (simp add: st)
    have "set [0..<ASSOC_NUM] \<subseteq> {..<ASSOC_NUM}" by auto
    from shrink_bucket_ok [OF assms(1) less.prems(1) True this]
    consider e where "shrink_bucket alloc st old [0..<ASSOC_NUM] = Some (Inl e)" "expand_exit e"
      | st1 where "shrink_bucket alloc st old [0..<ASSOC_NUM] = Some (Inr st1)" "shrink_inv fs ss cap all n st1"
          "\<forall>i < ASSOC_NUM. interim_cleared st1 (old, i)" "\<forall>q. interim_cleared st q \<longrightarrow> interim_cleared st1 q"
      by (auto simp: atLeast0LessThan)
    then show ?thesis
    proof cases
      case 2
      have "\<forall>idx < old + 1. \<forall>i < ASSOC_NUM. interim_cleared st1 (idx, i)"
        using 2(3,4) less.prems(3) by (auto simp: less_Suc_eq)
      then show ?thesis using less.hyps [of "old + 1" st1] True 2(1,2) unfolding step by simp
    qed (simp add: step)
  next
    case False
    with less.prems(2) have old: "old = unat cap" by simp
    show ?thesis
    proof (cases "unat (level_size l) = n")
      case True
      have "array_items interim = {#}"
        using array_items_empty [OF arr] less.prems(3) by (simp add: interim_cleared_def st old len)
      then show ?thesis
        using l sum True by (subst shrink_loop.simps) (simp add: st bound old assms(2))
    next
      case False
      then have "(2::nat) ^ Suc n < 2 ^ Suc (unat (level_size l))"
        using n by (intro power_strict_increasing) auto
      then show ?thesis
        by (subst shrink_loop.simps) (simp add: st bound old len assms(2))
    qed
  qed
qed

text \<open>What a call of \<^verbatim>\<open>level_shrink\<close> leaves.\<close>

definition shrunk :: "level_alloc \<Rightarrow> level_hash \<Rightarrow> level_exit + level_hash \<Rightarrow> bool" where
  "shrunk alloc level r \<longleftrightarrow>
     (case r of
        Inl e \<Rightarrow> e = Shrink_fails 2 \<and> too_many_to_shrink level \<or>
          e = Null_buckets \<and> alloc (pow2 (level_size level - 2)) = None \<or> expand_exit e \<or> e = Interim_overrun
      | Inr level' \<Rightarrow> level_ok level' \<and> items level' = items level \<and> level_size level' = level_size level - 1 \<and>
          level_expand_time level' = 0 \<and> \<not> too_many_to_shrink level)"

lemma level_shrink_start:
  assumes ok: "level_ok level" and ge: "3 \<le> unat (level_size level)" and new: "length new = unat (pow2 (level_size level - 2))" "zeroed new"
  defines "n \<equiv> level_size level - 1"
  defines "l1 \<equiv> level\<lparr>resize_state := 2, level_size := n, buckets := [buckets level ! 1, new],
      level_item_num := [level_item_num level ! 1, 0], addr_capacity := pow2 n, total_capacity := pow2 n + pow2 (n - 1)\<rparr>"
  shows "shrink_inv (f_seed level) (s_seed level) (cap_of level 0) (items level) (unat n) (l1, buckets level ! 0)"
proof -
  have sh: "level_shape level" using ok by (simp add: level_ok_def)
  have "unat n = unat (level_size level) - 1" using ge by (simp add: n_def unat_sub1)
  then have un: "unat n = unat (level_size level) - 1" "unat (n - 1) = unat (level_size level) - 2"
    using ge unat_sub1 [of n] by simp_all
  have le: "unat (level_size level) \<le> 62" using sh by (simp add: level_shape_def)
  have n2: "level_size level - 2 = n - 1" by (simp add: n_def)
  have c0: "cap_of l1 0 = cap_of level 1" unfolding cap_of_bottom [OF sh] by (simp add: l1_def n_def)
  have c1: "cap_of l1 1 = pow2 (n - 1)"
    using pow2_Suc_div [of "n - 1"] un le by (simp add: l1_def)
  have "array_ok (f_seed l1) (s_seed l1) (cap_of l1 i) (buckets l1 ! i)" if "i < 2" for i
    using less_2_cases [OF that] level_shape_array(1) [OF sh, of 1] zeroed_array_ok [OF new(2)] new(1) c0 c1 n2
    by (auto simp: l1_def)
  moreover have "2 \<le> unat n" "unat n \<le> 62" using un(1) ge le by linarith+
  ultimately have "level_shape l1" by (simp add: level_shape_def l1_def)
  moreover have lv: "lvl_items l1 0 = lvl_items level 1" "lvl_items l1 1 = {#}"
    by (simp_all add: lvl_items_def l1_def zeroed_items [OF new(2)])
  then have "counts_ok l1"
    using ok by (auto simp: counts_ok_def level_ok_def l1_def dest!: less_2_cases)
  ultimately have "level_ok l1" by (simp add: level_ok_def)
  moreover have "items l1 + array_items (buckets level ! 0) = items level"
    unfolding items_def lv by (simp add: lvl_items_def)
  ultimately show ?thesis
    using level_shape_array(1) [OF sh, of 0] by (simp add: shrink_inv_def) (simp add: l1_def)
qed

lemma level_shrink_ok:
  assumes ok: "level_ok level" and ge: "3 \<le> unat (level_size level)" and al: "alloc_ok alloc"
  shows "\<exists>r. level_shrink alloc level = Some r \<and> shrunk alloc level r"
proof -
  have sh: "level_shape level" using ok by (simp add: level_ok_def)
  let ?n = "level_size level - 1"
  have n: "unat ?n = unat (level_size level) - 1" using ge by (simp add: unat_sub1)
  have le: "unat (level_size level) \<le> 62" using sh by (simp add: level_shape_def)
  consider "too_many_to_shrink level" | "\<not> too_many_to_shrink level" "alloc (pow2 (level_size level - 2)) = None"
    | new where "\<not> too_many_to_shrink level" "alloc (pow2 (level_size level - 2)) = Some new" by fastforce
  then show ?thesis
  proof cases
    case 3
    let ?l1 = "level\<lparr>resize_state := 2, level_size := ?n, buckets := [buckets level ! 1, new],
      level_item_num := [level_item_num level ! 1, 0], addr_capacity := pow2 ?n, total_capacity := pow2 ?n + pow2 (?n - 1)\<rparr>"
    have new: "length new = unat (pow2 (level_size level - 2))" "zeroed new" using alloc_okD [OF al 3(2)] by auto
    have cap: "unat (cap_of level 0) = 2 ^ Suc (unat ?n)" "unat ?n \<le> 61"
      using cap_of_pow [OF sh, of 0] ge le by (simp_all add: n)
    from shrink_loop_ok [OF al cap level_shrink_start [OF ok ge new], of 0]
    consider e where "shrink_loop alloc (?l1, buckets level ! 0) 0 = Some (Inl e)" "expand_exit e \<or> e = Interim_overrun"
      | level' interim' where "shrink_loop alloc (?l1, buckets level ! 0) 0 = Some (Inr (level', interim'))"
          "level_ok level'" "items level' = items level" "unat (level_size level') = unat ?n"
      by auto
    then show ?thesis
    proof cases
      case a: 2
      have lvl: "lvl_items (level'\<lparr>level_expand_time := 0, resize_state := 0\<rparr>) = lvl_items level'"
        and cap: "cap_of (level'\<lparr>level_expand_time := 0, resize_state := 0\<rparr>) = cap_of level'"
        by (simp_all add: lvl_items_def cap_of_def fun_eq_iff)
      have "level_ok (level'\<lparr>level_expand_time := 0, resize_state := 0\<rparr>)"
        using a(2) lvl cap by (simp add: level_ok_def level_shape_def counts_ok_def)
      moreover have "items (level'\<lparr>level_expand_time := 0, resize_state := 0\<rparr>) = items level"
        using a(3) by (simp add: items_def lvl)
      ultimately show ?thesis
        using 3 a(1) unat_inj [OF a(4)] by (auto simp: level_shrink_def shrunk_def Let_def)
    qed (use 3 in \<open>auto simp: level_shrink_def shrunk_def Let_def\<close>)
  qed (auto simp: level_shrink_def shrunk_def Let_def)
qed

section \<open>Creation\<close>

lemma generate_seeds_distinct: "generate_seeds rand n = Some p \<Longrightarrow> fst p \<noteq> snd p"
  by (induction rule: generate_seeds.raw_induct [rotated, consumes 1]) (auto simp: Let_def split: if_splits)

text \<open>The loop ends at the first round whose two shifted numbers differ.\<close>

definition seeds_of_round :: "(nat \<Rightarrow> u64) \<Rightarrow> nat \<Rightarrow> u64 \<times> u64" where
  "seeds_of_round rand m =
     (push_bit (unat (rand (4 * m + 2) mod 63)) (rand (4 * m)), push_bit (unat (rand (4 * m + 3) mod 63)) (rand (4 * m + 1)))"

lemma generate_seeds_returns:
  assumes "\<And>m'. m' < d \<Longrightarrow> fst (seeds_of_round rand (m + m')) = snd (seeds_of_round rand (m + m'))"
    and "fst (seeds_of_round rand (m + d)) \<noteq> snd (seeds_of_round rand (m + d))"
  shows "generate_seeds rand (4 * m) = Some (seeds_of_round rand (m + d))"
  using assms
proof (induction d arbitrary: m)
  case 0
  then show ?case by (subst generate_seeds.simps) (simp add: seeds_of_round_def Let_def)
next
  case (Suc d)
  have "generate_seeds rand (4 * m) = generate_seeds rand (4 * Suc m)"
    using Suc.prems(1) [of 0] by (subst generate_seeds.simps) (simp add: seeds_of_round_def Let_def add.commute)
  also have "\<dots> = Some (seeds_of_round rand (Suc m + d))"
    by (rule Suc.IH) (use Suc.prems(1) [of "Suc m'" for m'] Suc.prems(2) in auto)
  finally show ?case by simp
qed

lemma level_init_returns:
  assumes "fst (seeds_of_round rand m) \<noteq> snd (seeds_of_round rand m)"
  shows "\<exists>r. level_init mem alloc rand n = Some r"
proof -
  define d where "d = (LEAST m. fst (seeds_of_round rand m) \<noteq> snd (seeds_of_round rand m))"
  have "generate_seeds rand (4 * 0) = Some (seeds_of_round rand (0 + d))"
  proof (rule generate_seeds_returns)
    show "fst (seeds_of_round rand (0 + m')) = snd (seeds_of_round rand (0 + m'))" if "m' < d" for m'
      using not_less_Least [of m'] that by (auto simp: d_def)
    show "fst (seeds_of_round rand (0 + d)) \<noteq> snd (seeds_of_round rand (0 + d))"
      using LeastI [of "\<lambda>m. fst (seeds_of_round rand m) \<noteq> snd (seeds_of_round rand m)", OF assms] by (simp add: d_def)
  qed
  then show ?thesis
    by (cases "seeds_of_round rand d") (auto simp: level_init_def split: option.splits if_splits)
qed

lemma level_init_ok:
  assumes al: "alloc_ok alloc" and n: "2 \<le> unat n" "unat n \<le> 62" and r: "level_init mem alloc rand n = Some (Inr level)"
  shows "level_ok level \<and> items level = {#} \<and> level_size level = n \<and> f_seed level \<noteq> s_seed level"
proof -
  obtain f s tl bl where gs: "generate_seeds rand 0 = Some (f, s)" and tl: "alloc (pow2 n) = Some tl"
    and bl: "alloc (pow2 (n - 1)) = Some bl"
    and level: "level = \<lparr>buckets = [tl, bl], level_item_num = [0, 0], addr_capacity = pow2 n,
      total_capacity = pow2 n + pow2 (n - 1), level_size = n, level_expand_time = 0,
      resize_state = 0, f_seed = f, s_seed = s\<rparr>"
    using r by (auto simp: level_init_def split: option.splits if_splits)
  have caps: "cap_of level 0 = pow2 n" "cap_of level 1 = pow2 (n - 1)"
    using pow2_Suc_div [of "n - 1"] n by (simp_all add: level unat_sub1)
  have z: "zeroed tl" "zeroed bl" "length tl = unat (pow2 n)" "length bl = unat (pow2 (n - 1))"
    using alloc_okD [OF al tl] alloc_okD [OF al bl] by auto
  have "array_ok f s (cap_of level i) (buckets level ! i)" if "i < 2" for i
    using less_2_cases [OF that] z zeroed_array_ok caps by (auto simp: level)
  then have "level_shape level" using n by (simp add: level_shape_def level)
  moreover have lv: "lvl_items level 0 = {#}" "lvl_items level 1 = {#}"
    using z zeroed_items by (simp_all add: lvl_items_def level)
  then have "counts_ok level" by (auto simp: counts_ok_def level dest!: less_2_cases)
  ultimately show ?thesis
    using generate_seeds_distinct [OF gs] lv by (simp add: level_ok_def items_def level)
qed

end
