(* ===== verification/LevelSpec.thy ===== *)
theory LevelSpec
  imports LevelAlloc
begin

text \<open>
  The level hash table as a component: the contract it offers its callers, proved once for the model,
  and the properties of the single operations.

  The contract \<open>item_store\<close> speaks of a multiset of (key, value) items, because \<^verbatim>\<open>level_insert\<close> does
  not look for the key it inserts: inserting a key twice stores two items. What callers want, a map,
  follows for stores in which no key occurs twice.
\<close>

section \<open>The contract of an item store\<close>

definition single_keys :: "('k \<times> 'v) multiset \<Rightarrow> bool" where
  "single_keys M \<longleftrightarrow> (\<forall>k. size (filter_mset (\<lambda>x. fst x = k) M) \<le> 1)"

lemma single_keysD:
  assumes "single_keys M" and "(k, v) \<in># M" and "(k, v') \<in># M"
  shows "v = v'"
proof (rule ccontr)
  assume "v \<noteq> v'"
  then have "{#(k, v), (k, v')#} \<subseteq># filter_mset (\<lambda>x. fst x = k) M"
    using assms(2,3) by (auto simp: insert_subset_eq_iff in_diff_count)
  from size_mset_mono [OF this] have "2 \<le> size (filter_mset (\<lambda>x. fst x = k) M)" by simp
  moreover have "size (filter_mset (\<lambda>x. fst x = k) M) \<le> 1" using assms(1) by (auto simp: single_keys_def)
  ultimately show False by simp
qed

lemma single_keys_add:
  "single_keys (add_mset (k, v) M) \<longleftrightarrow> single_keys M \<and> (\<forall>v'. (k, v') \<notin># M)"
proof -
  have absent: "(\<forall>v'. (k, v') \<notin># M) \<longleftrightarrow> filter_mset (\<lambda>x. fst x = k) M = {#}"
    by (auto simp: filter_mset_eq_conv)
  have "single_keys (add_mset (k, v) M) \<longleftrightarrow>
      (\<forall>k'. size (filter_mset (\<lambda>x. fst x = k') M) \<le> (if k' = k then 0 else 1))"
    by (auto simp: single_keys_def)
  also have "\<dots> \<longleftrightarrow> single_keys M \<and> size (filter_mset (\<lambda>x. fst x = k) M) = 0"
    (is "(\<forall>k'. ?c k' \<le> _) \<longleftrightarrow> _")
  proof (intro iffI conjI)
    assume H: "\<forall>k'. ?c k' \<le> (if k' = k then 0 else 1)"
    show "single_keys M"
      unfolding single_keys_def
    proof
      fix k'
      show "?c k' \<le> 1" by (rule order_trans [OF spec [OF H, of k']]) simp
    qed
    show "?c k = 0" using spec [OF H, of k] by simp
  qed (simp add: single_keys_def)
  finally show ?thesis unfolding absent by simp
qed

locale item_store =
  fixes inv :: "'s \<Rightarrow> bool"
    and contents :: "'s \<Rightarrow> ('k \<times> 'v) multiset"
    and key_of :: "'a \<Rightarrow> 'k"
    and val_of :: "'b \<Rightarrow> 'v"
    and arg_ok :: "'a \<Rightarrow> 'b \<Rightarrow> bool"
    and query :: "'s \<Rightarrow> 'a \<Rightarrow> 'v option"
    and remove :: "'s \<Rightarrow> 'a \<Rightarrow> bool \<times> 's"
    and change :: "'s \<Rightarrow> 'a \<Rightarrow> 'b \<Rightarrow> bool \<times> 's"
    and put :: "'s \<Rightarrow> 'a \<Rightarrow> 'b \<Rightarrow> 's option"
  assumes query_None: "inv s \<Longrightarrow> query s a = None \<longleftrightarrow> (\<forall>v. (key_of a, v) \<notin># contents s)"
    and query_Some: "inv s \<Longrightarrow> query s a = Some v \<Longrightarrow> (key_of a, v) \<in># contents s"
    and remove_found: "inv s \<Longrightarrow> query s a = Some v \<Longrightarrow>
      \<exists>s'. remove s a = (True, s') \<and> inv s' \<and> add_mset (key_of a, v) (contents s') = contents s"
    and remove_absent: "inv s \<Longrightarrow> query s a = None \<Longrightarrow> remove s a = (False, s)"
    and change_found: "inv s \<Longrightarrow> query s a = Some v \<Longrightarrow> arg_ok a b \<Longrightarrow>
      \<exists>s'. change s a b = (True, s') \<and> inv s' \<and>
        add_mset (key_of a, v) (contents s') = add_mset (key_of a, val_of b) (contents s)"
    and change_absent: "inv s \<Longrightarrow> query s a = None \<Longrightarrow> change s a b = (False, s)"
    and put_ok: "inv s \<Longrightarrow> arg_ok a b \<Longrightarrow> put s a b = Some s' \<Longrightarrow>
      inv s' \<and> contents s' = add_mset (key_of a, val_of b) (contents s)"
begin

text \<open>The map a store with single keys represents.\<close>

definition represents :: "'s \<Rightarrow> ('k \<Rightarrow> 'v option) \<Rightarrow> bool" where
  "represents s m \<longleftrightarrow> inv s \<and> single_keys (contents s) \<and> (\<forall>k v. m k = Some v \<longleftrightarrow> (k, v) \<in># contents s)"

lemma represents_query:
  assumes "represents s m"
  shows "query s a = m (key_of a)"
proof -
  have s: "inv s" "\<And>k v. m k = Some v \<longleftrightarrow> (k, v) \<in># contents s" using assms by (auto simp: represents_def)
  then show ?thesis
    using query_None [OF s(1), of a] query_Some [OF s(1), of a] by (metis not_None_eq)
qed

lemma represents_put:
  assumes "represents s m" and "arg_ok a b" and "m (key_of a) = None" and "put s a b = Some s'"
  shows "represents s' (m(key_of a \<mapsto> val_of b))"
proof -
  have s: "inv s" "single_keys (contents s)" "\<And>k v. m k = Some v \<longleftrightarrow> (k, v) \<in># contents s"
    using assms(1) by (auto simp: represents_def)
  have "\<forall>v. (key_of a, v) \<notin># contents s" using assms(3) s(3) by (metis option.distinct(1))
  then show ?thesis
    using put_ok [OF s(1) assms(2,4)] s by (auto simp: represents_def single_keys_add)
qed

lemma represents_remove:
  assumes "represents s m"
  shows "fst (remove s a) = (m (key_of a) \<noteq> None)" and "represents (snd (remove s a)) (m(key_of a := None))"
proof -
  have s: "inv s" "single_keys (contents s)" "\<And>k v. m k = Some v \<longleftrightarrow> (k, v) \<in># contents s"
    using assms by (auto simp: represents_def)
  have "fst (remove s a) = (m (key_of a) \<noteq> None) \<and> represents (snd (remove s a)) (m(key_of a := None))"
  proof (cases "query s a")
    case None
    moreover have "m (key_of a) = None" using None represents_query [OF assms, of a] by simp
    then have "m(key_of a := None) = m" by (simp add: fun_upd_idem)
    ultimately show ?thesis using remove_absent [OF s(1), of a] assms \<open>m (key_of a) = None\<close> by simp
  next
    case (Some v)
    then obtain s' where s': "remove s a = (True, s')" "inv s'" "add_mset (key_of a, v) (contents s') = contents s"
      using remove_found [OF s(1) Some] by blast
    have "single_keys (contents s')" "\<forall>v'. (key_of a, v') \<notin># contents s'"
      using s(2) unfolding s'(3) [symmetric] single_keys_add by blast+
    moreover have "m k = Some w \<longleftrightarrow> (k, w) = (key_of a, v) \<or> (k, w) \<in># contents s'" for k w
      using s(3) unfolding s'(3) [symmetric] by auto
    ultimately show ?thesis
      using s'(1,2) represents_query [OF assms, of a] Some by (auto simp: represents_def)
  qed
  then show "fst (remove s a) = (m (key_of a) \<noteq> None)" and "represents (snd (remove s a)) (m(key_of a := None))"
    by auto
qed

lemma represents_change:
  assumes "represents s m" and "arg_ok a b"
  shows "fst (change s a b) = (m (key_of a) \<noteq> None)"
    and "represents (snd (change s a b)) (if m (key_of a) = None then m else m(key_of a \<mapsto> val_of b))"
proof -
  have s: "inv s" "single_keys (contents s)" "\<And>k v. m k = Some v \<longleftrightarrow> (k, v) \<in># contents s"
    using assms by (auto simp: represents_def)
  have "fst (change s a b) = (m (key_of a) \<noteq> None) \<and>
    represents (snd (change s a b)) (if m (key_of a) = None then m else m(key_of a \<mapsto> val_of b))"
  proof (cases "query s a")
    case None
    then show ?thesis using change_absent [OF s(1), of a b] assms represents_query [OF assms(1), of a] by simp
  next
    case (Some v)
    then obtain s' where s': "change s a b = (True, s')" "inv s'"
      "add_mset (key_of a, v) (contents s') = add_mset (key_of a, val_of b) (contents s)"
      using change_found [OF s(1) Some assms(2)] by blast
    obtain R where R: "contents s = add_mset (key_of a, v) R"
      using query_Some [OF s(1) Some] by (metis insert_DiffM)
    have c': "contents s' = add_mset (key_of a, val_of b) R"
      using s'(3) unfolding R by (simp add: add_mset_commute)
    have "single_keys R" "\<forall>v'. (key_of a, v') \<notin># R" using s(2) unfolding R single_keys_add by blast+
    moreover have "m k = Some w \<longleftrightarrow> (k, w) = (key_of a, v) \<or> (k, w) \<in># R" for k w
      using s(3) unfolding R by auto
    ultimately show ?thesis
      using s'(1,2) represents_query [OF assms(1), of a] Some by (auto simp: represents_def c' single_keys_add)
  qed
  then show "fst (change s a b) = (m (key_of a) \<noteq> None)"
    and "represents (snd (change s a b)) (if m (key_of a) = None then m else m(key_of a \<mapsto> val_of b))" by auto
qed

end

section \<open>The level hash table is an item store\<close>

text \<open>\<^verbatim>\<open>level_insert\<close> as its caller sees it: \<open>None\<close> stands for a process that has exited.\<close>

definition level_put :: "level_alloc \<Rightarrow> level_hash \<Rightarrow> u8 list \<Rightarrow> u8 list \<Rightarrow> level_hash option" where
  "level_put alloc level key val =
     (case level_insert alloc level key val of Some (Inr (c, level')) \<Rightarrow> if c = 0 then Some level' else None | _ \<Rightarrow> None)"

lemma level_put_ok:
  assumes "level_ok level" and "alloc_ok alloc" and "key_arg k" and "val_arg v" and "level_put alloc level k v = Some level'"
  shows "level_ok level' \<and> items level' = add_mset (item_of k v) (items level)"
proof -
  obtain r where "level_insert alloc level k v = Some r" and "inserted level (item_of k v) r"
    using level_insert_ok [OF assms(2-4,1)] by blast
  then show ?thesis
    using assms(5) by (cases r) (auto simp: level_put_def inserted_def)
qed

interpretation lvl: item_store "\<lambda>level. level_ok level \<and> alloc_ok alloc" items c_str "take VALUE_LEN"
    "\<lambda>k v. key_arg k \<and> val_arg v" level_static_query
    "\<lambda>level k. map_prod (\<lambda>r. r = 0) id (level_delete level k)"
    "\<lambda>level k v. map_prod (\<lambda>r. r = 0) id (level_update level k v)" "level_put alloc" for alloc
proof (unfold_locales, goal_cases)
  case (1 s a)
  then show ?case using static_query_iff(1) by (simp add: level_ok_def)
next
  case (2 s a v)
  then show ?case using query_Some by (simp add: level_ok_def)
next
  case (3 s a v)
  then show ?case using level_delete_found [of s a v] by auto
next
  case (4 s a)
  then show ?case by (simp add: absent_unchanged)
next
  case (5 s a v b)
  then show ?case using level_update_found [of s a v b] by auto
next
  case (6 s a b)
  then show ?case by (simp add: absent_unchanged)
next
  case (7 s a b s')
  then show ?case using level_put_ok [of s alloc a b s'] by (simp add: item_of_def)
qed

section \<open>Refinement of a map by sequences of operations\<close>

text \<open>A client that inserts a key only when a query has not found it.\<close>

datatype level_op = Op_insert "u8 list" "u8 list" | Op_delete "u8 list" | Op_update "u8 list" "u8 list" | Op_query "u8 list"

datatype level_res = Res_bool bool | Res_value "u8 list option"

fun level_step :: "level_alloc \<Rightarrow> level_hash \<Rightarrow> level_op \<Rightarrow> (level_res \<times> level_hash) option" where
  "level_step alloc level (Op_insert k v) =
     (case level_static_query level k of
        Some _ \<Rightarrow> Some (Res_bool False, level)
      | None \<Rightarrow> map_option (\<lambda>l. (Res_bool True, l)) (level_put alloc level k v))"
| "level_step alloc level (Op_delete k) = (case level_delete level k of (r, l) \<Rightarrow> Some (Res_bool (r = 0), l))"
| "level_step alloc level (Op_update k v) = (case level_update level k v of (r, l) \<Rightarrow> Some (Res_bool (r = 0), l))"
| "level_step alloc level (Op_query k) = Some (Res_value (level_static_query level k), level)"

fun level_run :: "level_alloc \<Rightarrow> level_hash \<Rightarrow> level_op list \<Rightarrow> (level_res list \<times> level_hash) option" where
  "level_run alloc level [] = Some ([], level)"
| "level_run alloc level (x # xs) =
     (case level_step alloc level x of
        None \<Rightarrow> None
      | Some (r, l) \<Rightarrow> map_option (map_prod ((#) r) id) (level_run alloc l xs))"

text \<open>The same operations on a map from keys to values.\<close>

fun map_step :: "(u8 list \<Rightarrow> u8 list option) \<Rightarrow> level_op \<Rightarrow> level_res \<times> (u8 list \<Rightarrow> u8 list option)" where
  "map_step m (Op_insert k v) =
     (if m (c_str k) = None then (Res_bool True, m(c_str k \<mapsto> take VALUE_LEN v)) else (Res_bool False, m))"
| "map_step m (Op_delete k) = (Res_bool (m (c_str k) \<noteq> None), m(c_str k := None))"
| "map_step m (Op_update k v) =
     (if m (c_str k) = None then (Res_bool False, m) else (Res_bool True, m(c_str k \<mapsto> take VALUE_LEN v)))"
| "map_step m (Op_query k) = (Res_value (m (c_str k)), m)"

fun map_run :: "(u8 list \<Rightarrow> u8 list option) \<Rightarrow> level_op list \<Rightarrow> level_res list" where
  "map_run m [] = []"
| "map_run m (x # xs) = (case map_step m x of (r, m') \<Rightarrow> r # map_run m' xs)"

fun op_args_ok :: "level_op \<Rightarrow> bool" where
  "op_args_ok (Op_insert k v) \<longleftrightarrow> key_arg k \<and> val_arg v"
| "op_args_ok (Op_delete k) \<longleftrightarrow> key_arg k"
| "op_args_ok (Op_update k v) \<longleftrightarrow> key_arg k \<and> val_arg v"
| "op_args_ok (Op_query k) \<longleftrightarrow> key_arg k"

lemma level_step_refines:
  assumes "lvl.represents alloc level m" and "op_args_ok x" and "level_step alloc level x = Some (r, level')"
  shows "map_step m x = (r, snd (map_step m x)) \<and> lvl.represents alloc level' (snd (map_step m x))"
proof (cases x)
  case (Op_insert k v)
  show ?thesis
  proof (cases "m (c_str k)")
    case None
    then show ?thesis
      using assms Op_insert lvl.represents_query [OF assms(1), of k] lvl.represents_put [OF assms(1), of k v level']
      by auto
  next
    case (Some w)
    then show ?thesis
      using assms Op_insert lvl.represents_query [OF assms(1), of k] by auto
  qed
next
  case (Op_delete k)
  then show ?thesis
    using assms lvl.represents_remove [OF assms(1), of k] by (auto split: prod.splits)
next
  case (Op_update k v)
  then show ?thesis
    using assms lvl.represents_change [OF assms(1), of k v] by (auto split: prod.splits if_splits)
next
  case (Op_query k)
  then show ?thesis using assms lvl.represents_query [OF assms(1), of k] by auto
qed

lemma level_run_refines:
  assumes "lvl.represents alloc level m" and "\<forall>x \<in> set xs. op_args_ok x" and "level_run alloc level xs = Some (rs, level')"
  shows "rs = map_run m xs"
  using assms
proof (induction xs arbitrary: level m rs)
  case (Cons x xs)
  obtain r l1 where st: "level_step alloc level x = Some (r, l1)"
    using Cons.prems(3) by (auto split: option.splits)
  moreover obtain rs1 where "level_run alloc l1 xs = Some (rs1, level')" and "rs = r # rs1"
    using Cons.prems(3) st by auto
  moreover note level_step_refines [OF Cons.prems(1) _ st]
  ultimately show ?case
    using Cons.IH [of l1 "snd (map_step m x)" rs1] Cons.prems(2) by (auto split: prod.splits)
qed simp

lemma represents_empty:
  "level_ok level \<Longrightarrow> alloc_ok alloc \<Longrightarrow> items level = {#} \<Longrightarrow> lvl.represents alloc level (\<lambda>_. None)"
  unfolding lvl.represents_def by (simp add: single_keys_def)

end
