(* ===== verification/LevelProps.thy ===== *)
theory LevelProps
  imports LevelSpec
begin

text \<open>
  The properties of the level hash table and of its hash function, with witnesses on a small empty
  table and an allocator that returns zeroed buckets.
\<close>

section \<open>A concrete allocator and table\<close>

definition zero_bucket :: level_bucket where
  "zero_bucket = \<lparr>token = replicate ASSOC_NUM 0,
     slot = replicate ASSOC_NUM \<lparr>entry_key = replicate KEY_LEN 0, entry_value = replicate VALUE_LEN 0\<rparr>\<rparr>"

definition calloc_buckets :: level_alloc where
  "calloc_buckets n = (if unat n \<le> 2 ^ 62 then Some (replicate (unat n) zero_bucket) else None)"

definition small_table :: level_hash where
  "small_table = \<lparr>buckets = [replicate 8 zero_bucket, replicate 4 zero_bucket], level_item_num = [0, 0],
     addr_capacity = 8, total_capacity = 12, level_size = 3, level_expand_time = 0, resize_state = 0,
     f_seed = 1, s_seed = 2\<rparr>"

definition key_a :: "u8 list" where
  "key_a = 97 # replicate 15 0"

definition val_a :: "u8 list" where
  "val_a = replicate VALUE_LEN 7"

lemma zeroed_zero: "zeroed (replicate n zero_bucket)"
  by (auto simp: zeroed_def zero_bucket_def bucket_ok_def entry_ok_def)

lemma alloc_ok_calloc: "alloc_ok calloc_buckets"
  by (auto simp: alloc_ok_def calloc_buckets_def zeroed_zero split: if_splits)

lemma small_table_ok: "level_ok small_table" and small_table_items: "items small_table = {#}"
proof -
  have l: "lvl_items small_table i = {#}" if "i < 2" for i
    using less_2_cases [OF that] zeroed_items [OF zeroed_zero] by (auto simp: lvl_items_def small_table_def)
  have "array_ok (f_seed small_table) (s_seed small_table) (cap_of small_table i) (buckets small_table ! i)" if "i < 2" for i
    using less_2_cases [OF that]
    by (elim disjE) (simp_all add: zeroed_array_ok [OF zeroed_zero] small_table_def unat_div_distrib)
  then have "level_shape small_table" by (simp add: level_shape_def small_table_def pow2_def)
  moreover have "counts_ok small_table" using l by (auto simp: counts_ok_def small_table_def dest!: less_2_cases)
  ultimately show "level_ok small_table" by (simp add: level_ok_def)
  show "items small_table = {#}" using l by (simp add: items_def)
qed

lemma args_a: "key_arg key_a" "val_arg val_a"
  by (simp_all add: key_arg_def val_arg_def key_a_def val_a_def)

section \<open>Operations\<close>



text \<open>C22: the static query is sound and complete: it returns a value exactly if the table holds an item
  with the key, and the value it returns is the value of such an item.\<close>

theorem level_static_query_correct:
  assumes "level_ok level"
  shows "case level_static_query level key of
      None \<Rightarrow> (\<forall>v. (c_str key, v) \<notin># items level)
    | Some v \<Rightarrow> (c_str key, v) \<in># items level"
  using assms static_query_iff(1) [of level key] query_Some [of level key]
  by (simp add: level_ok_def split: option.splits)

theorem level_static_query_correct_witness:
  "case level_static_query small_table key_a of
      None \<Rightarrow> (\<forall>v. (c_str key_a, v) \<notin># items small_table)
    | Some v \<Rightarrow> (c_str key_a, v) \<in># items small_table"
  by (rule level_static_query_correct [OF small_table_ok])

text \<open>C28: the dynamic query, which starts with the level that holds more items, agrees with the static
  query on every table in which no key occurs twice.\<close>

theorem level_dynamic_query_agrees:
  assumes "level_ok level" and "single_keys (items level)"
  shows "level_dynamic_query level key = level_static_query level key"
proof -
  have sh: "level_shape level" using assms(1) by (simp add: level_ok_def)
  show ?thesis
    using static_query_iff [OF sh, of key] query_Some [OF sh, of key] single_keysD [OF assms(2)]
    by (metis not_None_eq)
qed

theorem level_dynamic_query_agrees_witness:
  "level_dynamic_query small_table key_a = level_static_query small_table key_a"
  by (rule level_dynamic_query_agrees [OF small_table_ok]) (simp add: small_table_items single_keys_def)

text \<open>C23: deletion removes exactly the item the static query finds, keeps the invariant and returns 0;
  if the key is absent it returns 1 and leaves the table as it is.\<close>

theorem level_delete_correct:
  assumes "level_ok level"
  shows "case level_static_query level key of
      None \<Rightarrow> level_delete level key = (1, level)
    | Some v \<Rightarrow> \<exists>level'. level_delete level key = (0, level') \<and> level_ok level' \<and>
        items level = add_mset (c_str key, v) (items level')"
  using level_delete_found [OF assms, of key] absent_unchanged(1) [of level key]
  by (force split: option.splits)

theorem level_delete_correct_witness:
  "case level_static_query small_table key_a of
      None \<Rightarrow> level_delete small_table key_a = (1, small_table)
    | Some v \<Rightarrow> \<exists>level'. level_delete small_table key_a = (0, level') \<and> level_ok level' \<and>
        items small_table = add_mset (c_str key_a, v) (items level')"
  by (rule level_delete_correct [OF small_table_ok])

text \<open>C24: update replaces the value of exactly the item the static query finds, keeps the invariant and
  returns 0; if the key is absent it returns 1 and leaves the table as it is.\<close>

theorem level_update_correct:
  assumes "level_ok level" and "val_arg val"
  shows "case level_static_query level key of
      None \<Rightarrow> level_update level key val = (1, level)
    | Some v \<Rightarrow> \<exists>level'. level_update level key val = (0, level') \<and> level_ok level' \<and>
        add_mset (c_str key, v) (items level') = add_mset (c_str key, take VALUE_LEN val) (items level)"
  using level_update_found [OF assms(1) _ assms(2), of key] absent_unchanged(2) [of level key]
  by (force split: option.splits)

theorem level_update_correct_witness:
  "case level_static_query small_table key_a of
      None \<Rightarrow> level_update small_table key_a val_a = (1, small_table)
    | Some v \<Rightarrow> \<exists>level'. level_update small_table key_a val_a = (0, level') \<and> level_ok level' \<and>
        add_mset (c_str key_a, v) (items level') = add_mset (c_str key_a, take VALUE_LEN val_a) (items small_table)"
  by (rule level_update_correct [OF small_table_ok args_a(2)])







text \<open>C27: if one of the (at most four) buckets of the key has a free slot, insertion succeeds without
  allocating and without changing the size of the table, whatever the allocator would do.\<close>

theorem level_insert_in_place:
  assumes "level_ok level" and "key_arg key" and "val_arg val" and "i < 2" and "idx \<in> home level i key"
    and "j < ASSOC_NUM" and "token (bucket_at level i idx) ! j = 0"
  shows "\<exists>level'. level_insert alloc level key val = Some (Inr (0, level')) \<and> level_ok level' \<and>
    items level' = add_mset (c_str key, take VALUE_LEN val) (items level) \<and> level_size level' = level_size level"
  using level_insert_free_slot [OF assms] by (simp add: item_of_def)

theorem level_insert_in_place_witness:
  "\<exists>level'. level_insert calloc_buckets small_table key_a val_a = Some (Inr (0, level')) \<and> level_ok level' \<and>
    items level' = add_mset (c_str key_a, take VALUE_LEN val_a) (items small_table) \<and>
    level_size level' = level_size small_table"
proof -
  define idx where "idx = F_IDX (F_HASH small_table key_a) (cap_of small_table 0)"
  have h: "idx \<in> home small_table 0 key_a" unfolding idx_def by (rule home_F_S)
  have "level_shape small_table" using small_table_ok by (simp add: level_ok_def)
  then have "bucket_at small_table 0 idx = zero_bucket"
    using home_in(1) [OF _ _ h] by (simp add: bucket_at_def small_table_def)
  then have "token (bucket_at small_table 0 idx) ! 0 = 0" by (simp add: zero_bucket_def)
  then show ?thesis
    by (intro level_insert_in_place [OF small_table_ok args_a _ h, where j = 0]) simp_all
qed



text \<open>C30: the two hash locations of a key are in range and never coincide: at either level the first
  lies in the lower half of the buckets and the second in the upper half.\<close>

theorem hash_locations_in_range:
  assumes "level_ok level" and "i < 2"
  shows "unat (F_IDX (F_HASH level key) (cap_of level i)) < unat (cap_of level i) div 2 \<and>
    unat (cap_of level i) div 2 \<le> unat (S_IDX (S_HASH level key) (cap_of level i)) \<and>
    unat (S_IDX (S_HASH level key) (cap_of level i)) < length (buckets level ! i)"
proof -
  have sh: "level_shape level" using assms(1) by (simp add: level_ok_def)
  note c = cap_of_pow [OF sh assms(2)]
  show ?thesis
    using F_IDX_less [OF c] S_IDX_bounds [OF c] unfolding level_shape_array(2) [OF sh assms(2)] c by simp
qed

theorem hash_locations_in_range_witness:
  "unat (F_IDX (F_HASH small_table key_a) (cap_of small_table 0)) < unat (cap_of small_table 0) div 2 \<and>
   unat (cap_of small_table 0) div 2 \<le> unat (S_IDX (S_HASH small_table key_a) (cap_of small_table 0)) \<and>
   unat (S_IDX (S_HASH small_table key_a) (cap_of small_table 0)) < length (buckets small_table ! 0)"
  using hash_locations_in_range [OF small_table_ok, of 0 key_a] by simp

section \<open>The hash function\<close>

text \<open>The hash of a key depends on nothing but its \<open>len\<close> bytes, its length and the seed: neither on
  the alignment of the buffer, which selects between two ways of reading words, nor on the bytes that
  follow the key.\<close>

lemma hash_depends_on_key_bytes:
  assumes "take (unat len) data = take (unat len) data'"
  shows "hash_key addr data len seed = hash_key addr' data' len seed"
  using assms by (rule hash_key_take)

lemma hash_depends_on_key_bytes_witness: "hash_key 64 key_a 1 7 = hash_key 3 [97] 1 7"
  by (rule hash_depends_on_key_bytes) (simp add: key_a_def)

text \<open>The final mixing of the hash is a bijection on 64-bit words: it merges no two states.\<close>

lemma hash_avalanche_bij: "bij hash_avalanche"
proof -
  have "inj hash_avalanche" by (rule injI) (rule hash_avalanche_injD)
  moreover have "finite (UNIV :: u64 set)" by simp
  ultimately show ?thesis by (simp add: bij_def finite_UNIV_inj_surj)
qed

section \<open>Memory that is not zeroed\<close>

text \<open>
  \<^verbatim>\<open>alignedmalloc\<close> is \<^verbatim>\<open>posix_memalign\<close>, which does not clear what it returns, and \<^verbatim>\<open>level_init\<close> does
  not clear the tokens. With an allocator that returns memory in which tokens happen to be 1, a table
  that was just created answers a query.
\<close>

definition stale_bucket :: level_bucket where
  "stale_bucket = zero_bucket\<lparr>token := replicate ASSOC_NUM 1\<rparr>"

definition stale_alloc :: level_alloc where
  "stale_alloc n = (if unat n \<le> 2 ^ 62 then Some (replicate (unat n) stale_bucket) else None)"

text \<open>C31: a freshly created table whose memory was not zeroed answers a query for a key that was never
  inserted, whatever the seeds.\<close>

theorem stale_memory_answers_query:
  assumes "2 \<le> unat n" and "unat n \<le> 62" and "level_init True stale_alloc rand n = Some (Inr level)"
  shows "level_static_query level [0] = Some (replicate VALUE_LEN 0)"
proof -
  obtain f s where level: "level = \<lparr>buckets = [replicate (unat (pow2 n)) stale_bucket, replicate (unat (pow2 (n - 1))) stale_bucket],
      level_item_num = [0, 0], addr_capacity = pow2 n, total_capacity = pow2 n + pow2 (n - 1), level_size = n,
      level_expand_time = 0, resize_state = 0, f_seed = f, s_seed = s\<rparr>"
    using assms(3) by (auto simp: level_init_def stale_alloc_def split: option.splits if_splits)
  have "Suc (unat n - 1) = unat n" using assms(1) by simp
  then have c: "unat (pow2 n) = 2 ^ Suc (unat n - 1)" using assms(2) by (simp only: unat_pow2)
  have "F_IDX (F_HASH level [0]) (pow2 n) \<in> home_buckets f s (pow2 n) [0]"
    by (simp add: home_buckets_def F_HASH_def level)
  from home_buckets_less [OF c this] have "unat (F_IDX (F_HASH level [0]) (pow2 n)) < unat (pow2 n)" .
  then have b: "bucket_at level 0 (F_IDX (F_HASH level [0]) (pow2 n)) = stale_bucket"
    by (simp add: bucket_at_def level)
  have "key_slot stale_bucket [0] = Some 0"
    by (simp add: key_slot_def stale_bucket_def zero_bucket_def strcmp_eq_def c_str_def upt_rec)
  then have "probe_down level [0] = Some (0, F_IDX (F_HASH level [0]) (pow2 n), 0)"
    using b by (simp add: probe_down_def Let_def level)
  then show ?thesis
    using b by (simp add: level_static_query_def slot_value_def stale_bucket_def zero_bucket_def)
qed

theorem stale_memory_answers_query_witness:
  "\<exists>level. level_init True stale_alloc of_nat 5 = Some (Inr level) \<and>
     level_static_query level [0] = Some (replicate VALUE_LEN 0)"
proof -
  have "fst (seeds_of_round of_nat 0) \<noteq> snd (seeds_of_round of_nat 0)" by (simp add: seeds_of_round_def)
  from level_init_returns [OF this] obtain r where "level_init True stale_alloc of_nat 5 = Some r" by blast
  then obtain level where i: "level_init True stale_alloc of_nat 5 = Some (Inr level)"
    by (auto simp: level_init_def stale_alloc_def pow2_def split: option.splits)
  with stale_memory_answers_query [OF _ _ i] show ?thesis by simp
qed

end
