(* ===== verification/HostService.thy ===== *)
theory HostService
  imports LevelProps
begin

text \<open>
  The key-value service over the level hash table: the messages of
  \<^verbatim>\<open>levelkv/src/common/comch_common.hpp\<close>, the host side \<^verbatim>\<open>host/levelhashing_host.cpp\<close>, which owns the
  table and answers requests, and the DPU side \<^verbatim>\<open>dpu/levelhashing_dpu.cpp\<close>, which sends a request and
  spins until the answer has arrived.

  The DOCA channel between the two is a parameter: \<open>exchange\<close> takes the world behind the channel and
  the message sent and gives the messages that arrive in return, or \<open>None\<close> when the other side is gone.
  Bytes that the code leaves uninitialised are parameters too.
\<close>

section \<open>Messages\<close>

datatype ControlSignal = EXPAND | EXPAND_FINISH | EXIT

datatype OprationType = OP_SEARCH | OP_INSERT

record ComchMsgExportMmap =
  host_addr :: u64
  exported_desc_len :: u64
  exported_mmap :: "u8 list"

record ComchMsgOperation =
  op_type :: OprationType
  op_key :: "u8 list"
  op_value :: "u8 list"

record ComchMsgOperationResult =
  res_success :: bool
  search_result :: "u8 list"

datatype ComchMsg =
    EXPORT_DESCRIPTOR ComchMsgExportMmap
  | EXPORT_SEEDS u64 u64
  | CONTROL ControlSignal
  | OPERATION ComchMsgOperation
  | OPERATION_RESULT ComchMsgOperationResult

section \<open>The host\<close>

definition LEVEL_START :: u64 where
  "LEVEL_START = 5"

record LevelHashingHost =
  level_hashtable :: level_hash
  host_stop :: bool

text \<open>The pointer passed as the key addresses the key field and what follows it, the value field.\<close>

definition comch_host_recv_callback ::
  "level_alloc \<Rightarrow> u8 list \<Rightarrow> LevelHashingHost \<Rightarrow> ComchMsg \<Rightarrow> (level_exit + LevelHashingHost \<times> ComchMsg list) option" where
  "comch_host_recv_callback alloc uninit host msg =
     (case msg of
        OPERATION m \<Rightarrow>
          (case op_type m of
             OP_INSERT \<Rightarrow>
               (case level_insert alloc (level_hashtable host) (op_key m @ op_value m) (op_value m) of
                  None \<Rightarrow> None
                | Some (Inl e) \<Rightarrow> Some (Inl e)
                | Some (Inr (res, level)) \<Rightarrow>
                    Some (Inr (host\<lparr>level_hashtable := level\<rparr>,
                      [OPERATION_RESULT \<lparr>res_success = (res \<noteq> 0), search_result = uninit\<rparr>])))
           | OP_SEARCH \<Rightarrow>
               (case level_static_query (level_hashtable host) (op_key m @ op_value m) of
                  Some res \<Rightarrow>
                    Some (Inr (host, [OPERATION_RESULT \<lparr>res_success = True, search_result = memcpy_n VALUE_LEN res\<rparr>]))
                | None \<Rightarrow>
                    Some (Inr (host, [OPERATION_RESULT \<lparr>res_success = False, search_result = uninit\<rparr>]))))
      | CONTROL sig \<Rightarrow> Some (Inr (if sig = EXIT then host\<lparr>host_stop := True\<rparr> else host, []))
      | _ \<Rightarrow> Some (Inr (host, [])))"

definition LevelHashingHost_new :: "bool \<Rightarrow> level_alloc \<Rightarrow> (nat \<Rightarrow> u64) \<Rightarrow> (level_exit + LevelHashingHost) option" where
  "LevelHashingHost_new mem alloc rand =
     map_option (map_sum id (\<lambda>level. \<lparr>level_hashtable = level, host_stop = False\<rparr>)) (level_init mem alloc rand LEVEL_START)"

text \<open>\<^verbatim>\<open>Run\<close>: messages are handled one by one until the stop flag is set. The result is the host and the
  messages it has sent.\<close>

fun LevelHashingHost_Run ::
  "level_alloc \<Rightarrow> u8 list \<Rightarrow> LevelHashingHost \<Rightarrow> ComchMsg list \<Rightarrow> (level_exit + LevelHashingHost \<times> ComchMsg list) option" where
  "LevelHashingHost_Run alloc uninit host [] = Some (Inr (host, []))"
| "LevelHashingHost_Run alloc uninit host (m # ms) =
     (if host_stop host then Some (Inr (host, []))
      else (case comch_host_recv_callback alloc uninit host m of
              None \<Rightarrow> None
            | Some (Inl e) \<Rightarrow> Some (Inl e)
            | Some (Inr (host', out)) \<Rightarrow>
                map_option (map_sum id (map_prod id ((@) out))) (LevelHashingHost_Run alloc uninit host' ms)))"

section \<open>The DPU\<close>

record LevelHashingDpu =
  waiting :: bool
  searched_value :: "u8 list"
  dpu_success :: bool

definition LevelHashingDpu_new :: LevelHashingDpu where
  "LevelHashingDpu_new = \<lparr>waiting = False, searched_value = replicate VALUE_LEN 0, dpu_success = False\<rparr>"

definition comch_dpu_recv_callback :: "LevelHashingDpu \<Rightarrow> ComchMsg \<Rightarrow> LevelHashingDpu" where
  "comch_dpu_recv_callback dpu msg =
     (case msg of
        OPERATION_RESULT r \<Rightarrow>
          (if res_success r
           then dpu\<lparr>searched_value := memcpy_n VALUE_LEN (search_result r), dpu_success := True, waiting := False\<rparr>
           else dpu\<lparr>dpu_success := False, waiting := False\<rparr>)
      | _ \<Rightarrow> dpu)"

text \<open>The loop that spins while \<^verbatim>\<open>waiting_\<close> is set; \<open>None\<close> is a loop that never ends, because nothing arrives
  any more.\<close>

fun await :: "LevelHashingDpu \<Rightarrow> ComchMsg list \<Rightarrow> LevelHashingDpu option" where
  "await dpu ms =
     (if waiting dpu then (case ms of [] \<Rightarrow> None | m # ms' \<Rightarrow> await (comch_dpu_recv_callback dpu m) ms') else Some dpu)"

type_synonym 'w exchange = "'w \<Rightarrow> ComchMsg \<Rightarrow> ('w \<times> ComchMsg list) option"

definition dpu_Search ::
  "'w exchange \<Rightarrow> u8 list \<Rightarrow> 'w \<Rightarrow> LevelHashingDpu \<Rightarrow> u8 list \<Rightarrow> (u8 list option \<times> LevelHashingDpu \<times> 'w) option" where
  "dpu_Search exchange uninit w dpu key =
     (let request = OPERATION \<lparr>op_type = OP_SEARCH, op_key = memcpy_n KEY_LEN key, op_value = uninit\<rparr>
      in case exchange w request of
           None \<Rightarrow> None
         | Some (w', ms) \<Rightarrow>
             (case await (dpu\<lparr>waiting := True\<rparr>) ms of
                None \<Rightarrow> None
              | Some dpu' \<Rightarrow>
                  Some (if dpu_success dpu' then Some (searched_value dpu') else None,
                        dpu'\<lparr>searched_value := replicate VALUE_LEN 0, dpu_success := False\<rparr>, w')))"

text \<open>\<^verbatim>\<open>Insert\<close> copies \<^verbatim>\<open>KEY_LEN\<close> bytes into the value field of \<^verbatim>\<open>VALUE_LEN\<close> bytes; the last one falls into
  the padding of the message. The value reported is the success flag it prints.\<close>

definition dpu_Insert ::
  "'w exchange \<Rightarrow> 'w \<Rightarrow> LevelHashingDpu \<Rightarrow> u8 list \<Rightarrow> u8 list \<Rightarrow> (bool \<times> LevelHashingDpu \<times> 'w) option" where
  "dpu_Insert exchange w dpu key val =
     (let request = OPERATION \<lparr>op_type = OP_INSERT, op_key = memcpy_n KEY_LEN key,
            op_value = memcpy_n VALUE_LEN (memcpy_n KEY_LEN val)\<rparr>
      in case exchange w request of
           None \<Rightarrow> None
         | Some (w', ms) \<Rightarrow>
             (case await (dpu\<lparr>waiting := True\<rparr>) ms of
                None \<Rightarrow> None
              | Some dpu' \<Rightarrow> Some (dpu_success dpu', dpu'\<lparr>dpu_success := False\<rparr>, w')))"

text \<open>The channel that connects the DPU to a host.\<close>

definition host_exchange :: "level_alloc \<Rightarrow> u8 list \<Rightarrow> LevelHashingHost exchange" where
  "host_exchange alloc uninit host msg =
     (case comch_host_recv_callback alloc uninit host msg of Some (Inr r) \<Rightarrow> Some r | _ \<Rightarrow> None)"

section \<open>Keys as C strings\<close>

lemma level_static_query_c_str:
  assumes "c_str k = c_str k'"
  shows "level_static_query level k = level_static_query level k'"
proof -
  have h: "F_HASH level k = F_HASH level k'" "S_HASH level k = S_HASH level k'"
    unfolding F_HASH_def S_HASH_def by (simp_all add: hash_key_c_str [OF assms])
  have "key_slot b k = key_slot b k'" for b by (simp add: key_slot_def strcmp_eq_def assms)
  then have "probe_levels level k fh sh nc is fi si = probe_levels level k' fh sh nc is fi si" for fh sh nc "is" fi si
    by (induction "is" arbitrary: fi si) (simp_all split: option.split)
  then show ?thesis unfolding level_static_query_def probe_down_def h Let_def by (simp only:)
qed

lemma c_str_key_field:
  "key_arg k \<Longrightarrow> c_str (take KEY_LEN k @ x) = c_str k"
  using c_str_take [of KEY_LEN k] c_str_take [of KEY_LEN "take KEY_LEN k @ x"] by (simp add: key_arg_def min_def)

lemma key_arg_key_field: "key_arg k \<Longrightarrow> key_arg (take KEY_LEN k @ x)"
  by (simp add: key_arg_def min_def)

section \<open>Properties of the service\<close>

definition host_a :: LevelHashingHost where
  "host_a = \<lparr>level_hashtable = small_table, host_stop = False\<rparr>"

lemma stored_value_length:
  assumes "level_shape level" and "(k, v) \<in># items level"
  shows "length v = VALUE_LEN"
proof -
  obtain i where i: "i < 2" "(k, v) \<in># lvl_items level i"
    using assms(2) that [of 0] that [of 1] by (auto simp: items_def)
  then obtain idx j where "unat idx < length (buckets level ! i)" "j < ASSOC_NUM" "(k, v) = stored_item level i idx j"
    using in_lvl_items [OF assms(1) i(1)] by blast
  moreover from this have "entry_ok (slot (bucket_at level i idx) ! j)"
    using bucket_ok_nth(1) [OF array_okD(1) [OF level_shape_array(1) [OF assms(1) i(1)]]] by (simp add: bucket_at_def)
  ultimately show ?thesis by (simp add: stored_item_def entry_ok_def)
qed

text \<open>C32: a search sent by the DPU over the channel returns, and its answer is what the static query
  finds in the host's table, all bytes of the value included; the table and the client are unchanged.\<close>

theorem remote_search_correct:
  assumes "level_ok (level_hashtable host)" and "key_arg key"
  shows "dpu_Search (host_exchange alloc uninit) junk host dpu key =
    Some (level_static_query (level_hashtable host) key,
      dpu\<lparr>waiting := False, searched_value := replicate VALUE_LEN 0, dpu_success := False\<rparr>, host)"
proof -
  have sh: "level_shape (level_hashtable host)" using assms(1) by (simp add: level_ok_def)
  have q: "level_static_query (level_hashtable host) (take 16 key @ junk) = level_static_query (level_hashtable host) key"
    by (rule level_static_query_c_str) (use c_str_key_field [OF assms(2)] in simp)
  have "length v = VALUE_LEN" if "level_static_query (level_hashtable host) key = Some v" for v
    using that stored_value_length [OF sh] query_Some [OF sh] by blast
  then show ?thesis
    by (simp add: dpu_Search_def host_exchange_def comch_host_recv_callback_def comch_dpu_recv_callback_def
        memcpy_n_def q Let_def split: option.splits)
qed

theorem remote_search_correct_witness:
  "dpu_Search (host_exchange calloc_buckets []) [] host_a LevelHashingDpu_new key_a =
    Some (level_static_query (level_hashtable host_a) key_a,
      LevelHashingDpu_new\<lparr>waiting := False, searched_value := replicate VALUE_LEN 0, dpu_success := False\<rparr>, host_a)"
  by (rule remote_search_correct) (simp_all add: host_a_def small_table_ok args_a)



end
