(* ===== verification/SlotBucket.thy ===== *)
theory SlotBucket
  imports KeyHash
begin

text \<open>
  Keys, values and buckets of the DPU hash table: \<^verbatim>\<open>levelkv/src/common/type.hpp\<close> (\<^verbatim>\<open>GenericType\<close>, a byte
  array of fixed size built from a string) and the class \<^verbatim>\<open>LevelBucket\<close> of
  \<^verbatim>\<open>levelkv/src/common/level_hashing.hpp\<close> with its slot operations. An operation that takes the dirty
  flag of the frame by reference returns it.
\<close>

section \<open>Fixed-size keys and values\<close>

datatype generic_error = overflow_error

definition GenericType_new :: "nat \<Rightarrow> u8 list \<Rightarrow> generic_error + u8 list" where
  "GenericType_new N str =
     (if length str > N then Inl overflow_error
      else Inr (memcpy_n (length str) str @ drop (length str) (replicate N 0)))"

definition strnlen :: "u8 list \<Rightarrow> nat \<Rightarrow> nat" where
  "strnlen s n = length (takeWhile (\<lambda>c. c \<noteq> 0) (take n s))"

definition ToString :: "nat \<Rightarrow> u8 list \<Rightarrow> u8 list" where
  "ToString N data = take (strnlen data N) data"

definition GenericType_Hash :: "u64 \<Rightarrow> u8 list \<Rightarrow> u64" where
  "GenericType_Hash seed data = hash_key 0 data (of_nat (length data)) seed"

section \<open>Buckets\<close>

definition FIXED_ASSOC :: nat where [simp]: "FIXED_ASSOC = 4"

record fixed_entry =
  fx_key :: "u8 list"
  fx_value :: "u8 list"

record fixed_bucket =
  fx_token :: "u8 list"
  fx_slots :: "fixed_entry list"

text \<open>A bucket of zero bytes, as \<^verbatim>\<open>memset\<close> leaves it.\<close>

definition fixed_zero :: fixed_bucket where
  "fixed_zero = \<lparr>fx_token = replicate FIXED_ASSOC 0,
     fx_slots = replicate FIXED_ASSOC \<lparr>fx_key = replicate 16 0, fx_value = replicate 15 0\<rparr>\<rparr>"

definition set_fields :: "nat \<Rightarrow> u8 list \<Rightarrow> u8 list \<Rightarrow> fixed_bucket \<Rightarrow> fixed_bucket" where
  "set_fields i key val b =
     b\<lparr>fx_slots := (fx_slots b)[i := \<lparr>fx_key = key, fx_value = val\<rparr>], fx_token := (fx_token b)[i := 1]\<rparr>"

text \<open>\<^verbatim>\<open>assert(slot_number < AssocNum)\<close> aborts: \<open>None\<close>.\<close>

definition SetSlot :: "fixed_bucket \<Rightarrow> nat \<Rightarrow> u8 list \<Rightarrow> u8 list \<Rightarrow> fixed_bucket option" where
  "SetSlot b slot_number key val =
     (if slot_number < FIXED_ASSOC then Some (set_fields slot_number key val b) else None)"

definition match_slot :: "fixed_bucket \<Rightarrow> u8 list \<Rightarrow> nat option" where
  "match_slot b key = find (\<lambda>i. fx_token b ! i = 1 \<and> fx_key (fx_slots b ! i) = key) [0..<FIXED_ASSOC]"

definition empty_slot :: "fixed_bucket \<Rightarrow> nat option" where
  "empty_slot b = find (\<lambda>i. fx_token b ! i = 0) [0..<FIXED_ASSOC]"

definition SearchSlot :: "fixed_bucket \<Rightarrow> u8 list \<Rightarrow> u8 list option" where
  "SearchSlot b key = map_option (\<lambda>i. fx_value (fx_slots b ! i)) (match_slot b key)"

definition DeleteSlot :: "fixed_bucket \<Rightarrow> u8 list \<Rightarrow> bool \<Rightarrow> bool \<times> fixed_bucket \<times> bool" where
  "DeleteSlot b key dirty_flag =
     (case match_slot b key of
        Some i \<Rightarrow> (True, b\<lparr>fx_token := (fx_token b)[i := 0]\<rparr>, True)
      | None \<Rightarrow> (False, b, dirty_flag))"

definition InsertSlot :: "fixed_bucket \<Rightarrow> u8 list \<Rightarrow> u8 list \<Rightarrow> bool \<Rightarrow> bool \<times> fixed_bucket \<times> bool" where
  "InsertSlot b key val dirty_flag =
     (case empty_slot b of
        Some i \<Rightarrow> (True, set_fields i key val b, True)
      | None \<Rightarrow> (False, b, dirty_flag))"

definition UpdateSlot :: "fixed_bucket \<Rightarrow> u8 list \<Rightarrow> u8 list \<Rightarrow> bool \<Rightarrow> bool \<times> fixed_bucket \<times> bool" where
  "UpdateSlot b key val dirty_flag =
     (case match_slot b key of
        Some i \<Rightarrow>
          (if fx_value (fx_slots b ! i) \<noteq> val
           then (True, b\<lparr>fx_slots := (fx_slots b)[i := (fx_slots b ! i)\<lparr>fx_value := val\<rparr>]\<rparr>, True)
           else (True, b, dirty_flag))
      | None \<Rightarrow> (False, b, dirty_flag))"

definition Count :: "fixed_bucket \<Rightarrow> nat" where
  "Count b = length (filter (\<lambda>i. fx_token b ! i = 1) [0..<FIXED_ASSOC])"

section \<open>Contents of a bucket\<close>

definition fixed_ok :: "fixed_bucket \<Rightarrow> bool" where
  "fixed_ok b \<longleftrightarrow> length (fx_token b) = FIXED_ASSOC \<and> length (fx_slots b) = FIXED_ASSOC \<and>
     (\<forall>t \<in> set (fx_token b). t = 0 \<or> t = 1)"

definition slot_item :: "u8 \<times> fixed_entry \<Rightarrow> (u8 list \<times> u8 list) multiset" where
  "slot_item p = (if fst p = 1 then {#(fx_key (snd p), fx_value (snd p))#} else {#})"

definition fixed_items :: "fixed_bucket \<Rightarrow> (u8 list \<times> u8 list) multiset" where
  "fixed_items b = sum_list (map slot_item (zip (fx_token b) (fx_slots b)))"

lemma fixed_ok_zero: "fixed_ok fixed_zero" and fixed_items_zero: "fixed_items fixed_zero = {#}"
  by (simp_all add: fixed_ok_def fixed_items_def fixed_zero_def slot_item_def numeral_eq_Suc)

lemma fixed_tokens:
  "fixed_ok b \<Longrightarrow> i < FIXED_ASSOC \<Longrightarrow> fx_token b ! i = 0 \<or> fx_token b ! i = 1"
  by (auto simp: fixed_ok_def)

lemma length_4_conv: "length xs = 4 \<longleftrightarrow> (\<exists>a b c d. xs = [a, b, c, d])"
  by (auto simp: numeral_eq_Suc length_Suc_conv)

lemma Count_size:
  assumes "fixed_ok b"
  shows "Count b = size (fixed_items b)"
proof -
  obtain t0 t1 t2 t3 e0 e1 e2 e3 where "fx_token b = [t0, t1, t2, t3]" "fx_slots b = [e0, e1, e2, e3]"
    using assms by (auto simp: fixed_ok_def length_4_conv)
  then show ?thesis by (simp add: Count_def fixed_items_def slot_item_def upt_rec)
qed

lemma in_fixed_items:
  assumes "fixed_ok b"
  shows "x \<in># fixed_items b \<longleftrightarrow>
     (\<exists>i < FIXED_ASSOC. fx_token b ! i = 1 \<and> x = (fx_key (fx_slots b ! i), fx_value (fx_slots b ! i)))"
  using assms unfolding fixed_items_def in_sum_list_map
  by (auto simp: slot_item_def fixed_ok_def)

lemma match_slot_Some:
  "match_slot b key = Some i \<Longrightarrow> i < FIXED_ASSOC \<and> fx_token b ! i = 1 \<and> fx_key (fx_slots b ! i) = key"
  by (auto simp: match_slot_def find_Some_iff)

lemma match_slot_None:
  "fixed_ok b \<Longrightarrow> match_slot b key = None \<longleftrightarrow> (\<forall>v. (key, v) \<notin># fixed_items b)"
  by (auto simp: match_slot_def find_None_iff in_fixed_items)

lemma empty_slot_Some: "empty_slot b = Some i \<Longrightarrow> i < FIXED_ASSOC \<and> fx_token b ! i = 0"
  by (auto simp: empty_slot_def find_Some_iff)

lemma empty_slot_None:
  assumes "fixed_ok b"
  shows "empty_slot b = None \<longleftrightarrow> Count b = FIXED_ASSOC"
proof -
  obtain t0 t1 t2 t3 e0 e1 e2 e3 where "fx_token b = [t0, t1, t2, t3]" "fx_slots b = [e0, e1, e2, e3]"
    using assms by (auto simp: fixed_ok_def length_4_conv)
  then show ?thesis using assms by (auto simp: Count_def empty_slot_def fixed_ok_def upt_rec)
qed

section \<open>Effect of the slot operations\<close>

lemma fixed_items_upd:
  assumes "fixed_ok b" and "i < FIXED_ASSOC"
  shows "fixed_items (b\<lparr>fx_slots := (fx_slots b)[i := e], fx_token := (fx_token b)[i := t]\<rparr>) +
      slot_item (fx_token b ! i, fx_slots b ! i) = fixed_items b + slot_item (t, e)"
proof -
  have len: "i < length (zip (fx_token b) (fx_slots b))"
    and nth: "zip (fx_token b) (fx_slots b) ! i = (fx_token b ! i, fx_slots b ! i)"
    using assms by (simp_all add: fixed_ok_def)
  show ?thesis
    using sum_list_map_update [OF len, of slot_item "(t, e)"] unfolding fixed_items_def nth by (simp add: update_zip)
qed

lemma fixed_ok_upd:
  assumes "fixed_ok b" and "t = 0 \<or> t = 1"
  shows "fixed_ok (b\<lparr>fx_slots := (fx_slots b)[i := e], fx_token := (fx_token b)[i := t]\<rparr>)"
  using assms set_update_subset_insert [of "fx_token b" i t] by (auto simp: fixed_ok_def)

lemma InsertSlot_ok:
  assumes "fixed_ok b"
  shows "case InsertSlot b key val d of (r, b', d') \<Rightarrow>
    fixed_ok b' \<and> (if r then Count b < FIXED_ASSOC \<and> fixed_items b' = add_mset (key, val) (fixed_items b) \<and> d'
      else Count b = FIXED_ASSOC \<and> b' = b \<and> d' = d)"
proof (cases "empty_slot b")
  case None
  then show ?thesis using assms empty_slot_None [OF assms] by (simp add: InsertSlot_def)
next
  case (Some i)
  note i = empty_slot_Some [OF Some]
  have "Count b < FIXED_ASSOC"
    using Some empty_slot_None [OF assms] Count_size [OF assms]
    by (metis Count_def length_filter_le length_upt minus_nat.diff_0 option.distinct(1) le_neq_implies_less)
  then show ?thesis
    using Some i fixed_items_upd [OF assms, where i = i and e = "\<lparr>fx_key = key, fx_value = val\<rparr>" and t = 1]
      fixed_ok_upd [OF assms, of 1 i "\<lparr>fx_key = key, fx_value = val\<rparr>"]
    by (simp add: InsertSlot_def set_fields_def slot_item_def)
qed

lemma DeleteSlot_ok:
  assumes "fixed_ok b"
  shows "case DeleteSlot b key d of (r, b', d') \<Rightarrow> fixed_ok b' \<and>
    (case SearchSlot b key of
       Some v \<Rightarrow> r \<and> d' \<and> fixed_items b = add_mset (key, v) (fixed_items b')
     | None \<Rightarrow> \<not> r \<and> b' = b \<and> d' = d \<and> (\<forall>v. (key, v) \<notin># fixed_items b))"
proof (cases "match_slot b key")
  case None
  then have "\<forall>v. (key, v) \<notin># fixed_items b" using match_slot_None [OF assms] by blast
  then show ?thesis using None assms by (simp add: DeleteSlot_def SearchSlot_def del: not_None_eq)
next
  case (Some i)
  note i = match_slot_Some [OF Some]
  then show ?thesis
    using Some fixed_items_upd [OF assms, where i = i and e = "fx_slots b ! i" and t = 0] fixed_ok_upd [OF assms, of 0 i "fx_slots b ! i"]
    by (simp add: DeleteSlot_def SearchSlot_def slot_item_def)
qed

lemma UpdateSlot_ok:
  assumes "fixed_ok b"
  shows "case UpdateSlot b key val d of (r, b', d') \<Rightarrow> fixed_ok b' \<and> (\<not> d' \<longrightarrow> b' = b) \<and> (d \<longrightarrow> d') \<and>
    (case SearchSlot b key of
       Some v \<Rightarrow> r \<and> add_mset (key, v) (fixed_items b') = add_mset (key, val) (fixed_items b)
     | None \<Rightarrow> \<not> r \<and> b' = b \<and> d' = d \<and> (\<forall>v. (key, v) \<notin># fixed_items b))"
proof (cases "match_slot b key")
  case None
  then have "\<forall>v. (key, v) \<notin># fixed_items b" using match_slot_None [OF assms] by blast
  then show ?thesis using None assms by (simp add: UpdateSlot_def SearchSlot_def del: not_None_eq)
next
  case (Some i)
  note i = match_slot_Some [OF Some]
  let ?e = "(fx_slots b ! i)\<lparr>fx_value := val\<rparr>"
  have "b\<lparr>fx_slots := (fx_slots b)[i := ?e], fx_token := (fx_token b)[i := 1]\<rparr> = b\<lparr>fx_slots := (fx_slots b)[i := ?e]\<rparr>"
    using i list_update_id [of "fx_token b" i] by simp
  then show ?thesis
    using Some i assms fixed_items_upd [OF assms, where i = i and e = ?e and t = 1] fixed_ok_upd [OF assms, of 1 i ?e]
    by (simp add: UpdateSlot_def SearchSlot_def slot_item_def)
qed

lemma SearchSlot_None: "fixed_ok b \<Longrightarrow> SearchSlot b key = None \<longleftrightarrow> (\<forall>v. (key, v) \<notin># fixed_items b)"
  by (simp add: SearchSlot_def match_slot_None)

lemma SearchSlot_Some: "fixed_ok b \<Longrightarrow> SearchSlot b key = Some v \<Longrightarrow> (key, v) \<in># fixed_items b"
  using match_slot_Some by (fastforce simp: SearchSlot_def in_fixed_items)

section \<open>Properties\<close>

text \<open>Building a fixed-size value from a string either throws, exactly if the string is too long, or
  gives an array of the declared size from which the string, if it has no zero byte, is read back.\<close>

lemma GenericType_round_trip:
  "case GenericType_new N s of
     Inl e \<Rightarrow> N < length s
   | Inr data \<Rightarrow> length s \<le> N \<and> length data = N \<and> (0 \<in> set s \<or> ToString N data = s)"
proof -
  have "takeWhile (\<lambda>c. c \<noteq> 0) (s @ replicate (N - length s) 0) = s" if "0 \<notin> set s"
    using that by (cases "N - length s") (auto simp: takeWhile_append takeWhile_eq_all_conv)
  then show ?thesis
    by (cases "0 \<in> set s") (simp_all add: GenericType_new_def memcpy_n_def ToString_def strnlen_def)
qed



end
