(* ===== verification/Replacer.thy ===== *)
theory Replacer
  imports Prelude
begin

text \<open>
  The least-recently-used replacer of the DPU cache, \<^verbatim>\<open>levelkv/src/dpu/replacer.cpp\<close>: a doubly linked
  list of frames and a hash map from a frame to the iterator of its list node.

  A list node has an identity, because the map holds iterators: a node is a pair of an identifier and
  the frame, and an iterator is the identifier. The abstract view of the replacer is the list of
  frames, most recent first; \<open>Replacer\<close> refines it.
\<close>

type_synonym frame_id = int

record Replacer =
  lru :: "(nat \<times> frame_id) list"
  node_map :: "frame_id \<Rightarrow> nat option"
  next_node :: nat

definition Replacer_new :: Replacer where
  "Replacer_new = \<lparr>lru = [], node_map = (\<lambda>_. None), next_node = 0\<rparr>"

text \<open>\<^verbatim>\<open>std::list::erase\<close> of an iterator.\<close>

definition erase_node :: "nat \<Rightarrow> (nat \<times> frame_id) list \<Rightarrow> (nat \<times> frame_id) list" where
  "erase_node n xs = filter (\<lambda>x. fst x \<noteq> n) xs"

definition RecordAccess :: "Replacer \<Rightarrow> frame_id \<Rightarrow> Replacer" where
  "RecordAccess r frame =
     (let l = (case node_map r frame of Some it \<Rightarrow> erase_node it (lru r) | None \<Rightarrow> lru r)
      in \<lparr>lru = (next_node r, frame) # l, node_map = (node_map r)(frame \<mapsto> next_node r), next_node = Suc (next_node r)\<rparr>)"

definition Evict :: "Replacer \<Rightarrow> frame_id \<times> Replacer" where
  "Evict r =
     (if lru r = [] then (- 1, r)
      else (let evict = snd (last (lru r))
            in (evict, r\<lparr>lru := butlast (lru r), node_map := (node_map r)(evict := None)\<rparr>)))"

section \<open>Invariant and abstract view\<close>

definition replacer_ok :: "Replacer \<Rightarrow> bool" where
  "replacer_ok r \<longleftrightarrow> distinct (map fst (lru r)) \<and> distinct (map snd (lru r)) \<and>
     (\<forall>n f. node_map r f = Some n \<longleftrightarrow> (n, f) \<in> set (lru r)) \<and> (\<forall>x \<in> set (lru r). fst x < next_node r)"

definition recency :: "Replacer \<Rightarrow> frame_id list" where
  "recency r = map snd (lru r)"

lemma replacer_ok_new: "replacer_ok Replacer_new" and recency_new: "recency Replacer_new = []"
  by (simp_all add: replacer_ok_def Replacer_new_def recency_def)

lemma node_determines_frame:
  assumes "distinct (map fst xs)" and "distinct (map snd xs)" and "(n, f) \<in> set xs" and "(m, g) \<in> set xs"
  shows "m = n \<longleftrightarrow> g = f"
  using inj_onD [of fst "set xs" "(m, g)" "(n, f)"] inj_onD [of snd "set xs" "(m, g)" "(n, f)"] assms
  by (auto simp: distinct_map)

lemma erase_node_frames:
  assumes "distinct (map fst xs)" and "distinct (map snd xs)" and "(n, f) \<in> set xs"
  shows "map snd (erase_node n xs) = remove1 f (map snd xs)"
proof -
  have "erase_node n xs = filter (\<lambda>x. snd x \<noteq> f) xs"
    unfolding erase_node_def using node_determines_frame [OF assms] by (intro filter_cong) auto
  then have "map snd (erase_node n xs) = filter (\<lambda>g. g \<noteq> f) (map snd xs)"
    by (simp add: filter_map comp_def)
  then show ?thesis using assms(2) by (simp add: distinct_remove1_removeAll removeAll_filter_not_eq eq_commute)
qed

lemma RecordAccess_ok:
  assumes "replacer_ok r"
  shows "replacer_ok (RecordAccess r frame)" and "recency (RecordAccess r frame) = frame # remove1 frame (recency r)"
proof -
  have ok: "distinct (map fst (lru r))" "distinct (map snd (lru r))"
    "\<And>n f. node_map r f = Some n \<longleftrightarrow> (n, f) \<in> set (lru r)" "\<forall>x \<in> set (lru r). fst x < next_node r"
    using assms by (auto simp: replacer_ok_def)
  show rec: "recency (RecordAccess r frame) = frame # remove1 frame (recency r)"
  proof (cases "node_map r frame")
    case None
    then have "frame \<notin> snd ` set (lru r)" using ok(3) by force
    then show ?thesis using None by (simp add: RecordAccess_def recency_def remove1_idem)
  next
    case (Some n)
    then have "(n, frame) \<in> set (lru r)" using ok(3) by blast
    from erase_node_frames [OF ok(1,2) this] show ?thesis
      unfolding RecordAccess_def recency_def Let_def Some by simp
  qed
  let ?l = "case node_map r frame of Some it \<Rightarrow> erase_node it (lru r) | None \<Rightarrow> lru r"
  have sub: "set ?l = {x \<in> set (lru r). snd x \<noteq> frame}"
  proof (cases "node_map r frame")
    case None
    then show ?thesis using ok(3) by force
  next
    case (Some n)
    then have "(n, frame) \<in> set (lru r)" using ok(3) by blast
    note nd = node_determines_frame [OF ok(1,2) this]
    have "x \<in> set (lru r) \<Longrightarrow> fst x \<noteq> n \<longleftrightarrow> snd x \<noteq> frame" for x
      using nd [of "fst x" "snd x"] by simp
    then show ?thesis unfolding Some option.case erase_node_def by auto
  qed
  have l: "lru (RecordAccess r frame) = (next_node r, frame) # ?l" by (simp add: RecordAccess_def Let_def)
  have "distinct (map fst ?l)"
    using ok(1) by (cases "node_map r frame") (simp_all add: erase_node_def distinct_map_filter)
  then have "distinct (map fst (lru (RecordAccess r frame)))" unfolding l using sub ok(4) by fastforce
  moreover have "distinct (map snd (lru (RecordAccess r frame)))"
    using rec ok(2) unfolding recency_def [symmetric] by (simp add: recency_def)
  moreover have "node_map (RecordAccess r frame) f = Some n \<longleftrightarrow> (n, f) \<in> set (lru (RecordAccess r frame))" for n f
    unfolding l using sub ok(3) [of f n] by (auto simp: RecordAccess_def Let_def)
  moreover have "\<forall>x \<in> set (lru (RecordAccess r frame)). fst x < next_node (RecordAccess r frame)"
    unfolding l using sub ok(4) by (auto simp: RecordAccess_def Let_def less_Suc_eq)
  ultimately show "replacer_ok (RecordAccess r frame)" unfolding replacer_ok_def by blast
qed

lemma Evict_ok:
  assumes "replacer_ok r" and "recency r \<noteq> []"
  shows "replacer_ok (snd (Evict r))" and "fst (Evict r) = last (recency r)" and "recency (snd (Evict r)) = butlast (recency r)"
proof -
  have ok: "distinct (map fst (lru r))" "distinct (map snd (lru r))"
    "\<And>n f. node_map r f = Some n \<longleftrightarrow> (n, f) \<in> set (lru r)" "\<forall>x \<in> set (lru r). fst x < next_node r"
    using assms by (auto simp: replacer_ok_def)
  have ne: "lru r \<noteq> []" using assms(2) by (simp add: recency_def)
  define xs x where "xs = butlast (lru r)" and "x = last (lru r)"
  have l: "lru r = xs @ [x]" using ne by (simp add: xs_def x_def)
  show "fst (Evict r) = last (recency r)" "recency (snd (Evict r)) = butlast (recency r)"
    by (simp_all add: Evict_def recency_def l Let_def)
  show "replacer_ok (snd (Evict r))"
    unfolding replacer_ok_def
  proof (intro conjI allI)
    fix n f
    have "snd x \<notin> snd ` set xs" using ok(2) by (auto simp: l)
    then show "node_map (snd (Evict r)) f = Some n \<longleftrightarrow> (n, f) \<in> set (lru (snd (Evict r)))"
      using ok(3) [of f n] by (cases x) (force simp: Evict_def l Let_def)
  qed (use ok(1,2,4) in \<open>auto simp: Evict_def l Let_def\<close>)
qed

section \<open>The contract of the replacer\<close>

lemma set_take_remove1: "set (take k xs) \<subseteq> insert f (set (take k (remove1 f xs)))"
proof (induction xs arbitrary: k)
  case (Cons x xs)
  show ?case
  proof (cases k)
    case (Suc m)
    then show ?thesis
      using Cons.IH [of m] set_take_subset_set_take [of m k xs] by (cases "x = f") auto
  qed simp
qed simp

lemma last_notin_take:
  assumes "distinct xs" and "k < length xs"
  shows "last xs \<notin> set (take k xs)"
proof -
  have "drop k xs \<noteq> []" using assms(2) by simp
  then have "last xs \<in> set (drop k xs)" using last_in_set [of "drop k xs"] assms(2) by (simp add: last_drop)
  moreover have "set (take k xs) \<inter> set (drop k xs) = {}" using assms(1) by (rule set_take_disj_set_drop_if_distinct) simp
  ultimately show ?thesis by blast
qed

lemma remdups_snoc: "remdups (xs @ [x]) = removeAll x (remdups xs) @ [x]"
  by (induction xs) auto

locale lru_replacer =
  fixes rep_ok :: "'r \<Rightarrow> bool"
    and order :: "'r \<Rightarrow> frame_id list"
    and access :: "'r \<Rightarrow> frame_id \<Rightarrow> 'r"
    and evict :: "'r \<Rightarrow> frame_id \<times> 'r"
  assumes distinct_order: "rep_ok r \<Longrightarrow> distinct (order r)"
    and access_ok: "rep_ok r \<Longrightarrow> rep_ok (access r f) \<and> order (access r f) = f # remove1 f (order r)"
    and evict_ok: "rep_ok r \<Longrightarrow> order r \<noteq> [] \<Longrightarrow>
      rep_ok (snd (evict r)) \<and> fst (evict r) = last (order r) \<and> order (snd (evict r)) = butlast (order r)"
begin

lemma set_access: "rep_ok r \<Longrightarrow> set (order (access r f)) = insert f (set (order r))"
  using access_ok [of r f] distinct_order [of r] by auto

text \<open>A frame among the \<open>k\<close> most recent ones is among the \<open>k + 1\<close> most recent ones after an access.\<close>

lemma recent_access: "rep_ok r \<Longrightarrow> set (take k (order r)) \<subseteq> set (take (Suc k) (order (access r f)))"
  using access_ok [of r f] set_take_remove1 [of k "order r" f] by simp

lemma evict_member: "rep_ok r \<Longrightarrow> order r \<noteq> [] \<Longrightarrow> fst (evict r) \<in> set (order r)"
  using evict_ok [of r] by simp

lemma evict_not_recent: "rep_ok r \<Longrightarrow> k < length (order r) \<Longrightarrow> fst (evict r) \<notin> set (take k (order r))"
  using evict_ok [of r] distinct_order [of r] last_notin_take [of "order r" k] by fastforce

lemma set_evict:
  assumes "rep_ok r" and "order r \<noteq> []"
  shows "set (order (snd (evict r))) = set (order r) - {fst (evict r)}"
proof -
  obtain ys y where "order r = ys @ [y]" using assms(2) by (cases "order r" rule: rev_cases) auto
  then show ?thesis using evict_ok [OF assms] distinct_order [OF assms(1)] by auto
qed

lemma take_evict: "rep_ok r \<Longrightarrow> k < length (order r) \<Longrightarrow> take k (order (snd (evict r))) = take k (order r)"
  using evict_ok [of r] by (cases "order r = []") (auto simp: butlast_conv_take min_def)

lemma accesses_order:
  assumes "rep_ok r" and "order r = []"
  shows "rep_ok (foldl access r fs) \<and> order (foldl access r fs) = rev (remdups fs)"
proof (induction fs rule: rev_induct)
  case (snoc f fs)
  then have "order (foldl access r (fs @ [f])) = f # remove1 f (rev (remdups fs))"
    using access_ok [of "foldl access r fs" f] by simp
  moreover have "remove1 f (rev (remdups fs)) = rev (removeAll f (remdups fs))"
    by (simp add: distinct_remove1_removeAll rev_filter removeAll_filter_not_eq)
  ultimately show ?case
    using access_ok [of "foldl access r fs" f] snoc by (simp add: remdups_snoc)
qed (use assms in simp)

end

interpretation repl: lru_replacer replacer_ok recency RecordAccess Evict
proof
  show "distinct (recency r)" if "replacer_ok r" for r
    using that by (simp add: replacer_ok_def recency_def)
qed (use RecordAccess_ok Evict_ok in auto)

section \<open>Property\<close>

text \<open>C18: the replacer is least-recently-used. After any sequence of accesses, the frame evicted is the one
  whose last access lies furthest back, and the frames that remain are the others.\<close>

theorem Evict_least_recently_used:
  assumes "fs \<noteq> []"
  shows "case Evict (foldl RecordAccess Replacer_new fs) of (victim, r) \<Rightarrow>
    victim = hd (remdups fs) \<and> recency r = rev (tl (remdups fs))"
proof -
  have acc: "replacer_ok (foldl RecordAccess Replacer_new fs)" "recency (foldl RecordAccess Replacer_new fs) = rev (remdups fs)"
    using repl.accesses_order [OF replacer_ok_new recency_new] by auto
  have ne: "remdups fs \<noteq> []" using assms by simp
  then have "recency (foldl RecordAccess Replacer_new fs) \<noteq> []" unfolding acc(2) by simp
  from repl.evict_ok [OF acc(1) this] ne show ?thesis
    unfolding acc(2) by (simp add: last_rev butlast_rev case_prod_beta)
qed

theorem Evict_least_recently_used_witness:
  "case Evict (foldl RecordAccess Replacer_new [1, 2, 1]) of (victim, r) \<Rightarrow> victim = 2 \<and> recency r = [1]"
  using Evict_least_recently_used [of "[1, 2, 1]"] by simp

end
