(* ===== verification/DpuCache.thy ===== *)
theory DpuCache
  imports SlotBucket Replacer HostService
begin

text \<open>
  The key-value store on the DPU, \<^verbatim>\<open>levelkv/src/dpu/dpu.hpp\<close> and \<^verbatim>\<open>dpu.cpp\<close>: the hash table lives in host
  memory, its buckets are cached in \<^verbatim>\<open>CACHE_SIZE\<close> frames on the DPU, and requests are processed by one
  worker on the cached buckets.

  The field \<open>remote\<close> is the host memory the DMA clients reach: the bucket at an offset of the memory a
  client has imported. The parameter \<open>ok\<close> says which transfers succeed (first argument: write).
  Transfers that are scheduled before others are waited for have disjoint source and target frames, so
  a transfer is executed where it is scheduled. \<^verbatim>\<open>ENSURE\<close> expands to \<^verbatim>\<open>((void)0)\<close> and its argument is
  not evaluated, side effects included. Identifiers are \<^verbatim>\<open>int64_t\<close>; \<open>size_t\<close> is the conversion to
  \<^verbatim>\<open>size_t\<close>.
\<close>

section \<open>Data\<close>

definition CACHE_SIZE :: nat where [simp]: "CACHE_SIZE = 128"
definition THREADS :: nat where [simp]: "THREADS = 8"

text \<open>\<^verbatim>\<open>sizeof(FixedBucket)\<close>: four tokens and four packed entries of 31 bytes.\<close>

definition FIXED_BUCKET_SIZE :: nat where [simp]: "FIXED_BUCKET_SIZE = 128"

type_synonym bucket_id = int

datatype RequestType = REQ_SEARCH | REQ_DELETE | REQ_INSERT | REQ_UPDATE | REQ_START | REQ_END

record Request =
  request_type :: RequestType
  req_key :: "u8 list"
  req_value :: "u8 list"
  hash1 :: u64
  hash2 :: u64

record Dpu =
  cache :: "fixed_bucket list"
  dirty_flag :: "bool list"
  bucket_table :: "bucket_id \<Rightarrow> frame_id option"
  bucket_ids :: "bucket_id list"
  bl_start_bucket_id :: bucket_id
  tl_start_bucket_id :: bucket_id
  next_start_bucket_id :: bucket_id
  dpu_level :: nat
  dpu_f_seed :: u64
  dpu_s_seed :: u64
  dpu_addr_capacity :: nat
  dpu_bl_capacity :: nat
  replacer :: Replacer
  free_list :: "frame_id list"
  in_rehash :: bool
  new_bucket_constructed :: "bool list"
  dpu_size :: nat
  dpu_stop :: bool
  remote :: "nat \<times> nat \<Rightarrow> fixed_bucket"

type_synonym dma_ok = "bool \<Rightarrow> nat \<times> nat \<Rightarrow> bool"

definition size_t :: "int \<Rightarrow> nat" where
  "size_t x = nat (x mod 2 ^ 64)"

text \<open>The state the constructor leaves when the host has answered with the seeds and the memory of a
  table of \<open>2 ^ level\<close> top-level buckets.\<close>

definition Dpu_new :: "nat \<Rightarrow> u64 \<Rightarrow> u64 \<Rightarrow> (nat \<times> nat \<Rightarrow> fixed_bucket) \<Rightarrow> Dpu" where
  "Dpu_new level f s mem =
     \<lparr>cache = replicate CACHE_SIZE fixed_zero, dirty_flag = replicate CACHE_SIZE False, bucket_table = (\<lambda>_. None),
      bucket_ids = replicate CACHE_SIZE (- 1), bl_start_bucket_id = 2 ^ (level - 1) - 4,
      tl_start_bucket_id = 2 ^ level - 4, next_start_bucket_id = 2 ^ (level + 1) - 4, dpu_level = level,
      dpu_f_seed = f, dpu_s_seed = s, dpu_addr_capacity = 2 ^ level, dpu_bl_capacity = 2 ^ (level - 1),
      replacer = Replacer_new, free_list = map int [0..<CACHE_SIZE], in_rehash = False,
      new_bucket_constructed = replicate (2 ^ level * 2) False, dpu_size = 0, dpu_stop = False, remote = mem\<rparr>"

section \<open>Buckets and frames\<close>

definition GetClientBucket :: "Dpu \<Rightarrow> bucket_id \<Rightarrow> nat \<times> nat" where
  "GetClientBucket d bucket =
     (if bucket < tl_start_bucket_id d then
        (let k = size_t (bucket - bl_start_bucket_id d); g = dpu_bl_capacity d div (THREADS div 2)
         in (k div g, (k mod g) * FIXED_BUCKET_SIZE))
      else if bucket < tl_start_bucket_id d + int (dpu_addr_capacity d) then
        (let k = size_t (bucket - tl_start_bucket_id d); g = dpu_addr_capacity d div (THREADS div 2)
         in (k div g + THREADS div 2, (k mod g) * FIXED_BUCKET_SIZE))
      else
        (let k = size_t (bucket - next_start_bucket_id d); g = dpu_addr_capacity d * 2 div (THREADS div 2)
         in (k div g + THREADS, (k mod g) * FIXED_BUCKET_SIZE)))"

definition frame_at :: "Dpu \<Rightarrow> frame_id \<Rightarrow> fixed_bucket" where
  "frame_at d frame = cache d ! nat frame"

definition record_access :: "Dpu \<Rightarrow> frame_id \<Rightarrow> Dpu" where
  "record_access d frame = d\<lparr>replacer := RecordAccess (replacer d) frame\<rparr>"

definition set_table :: "Dpu \<Rightarrow> bucket_id \<Rightarrow> frame_id \<Rightarrow> Dpu" where
  "set_table d bucket frame = d\<lparr>bucket_table := (bucket_table d)(bucket \<mapsto> frame)\<rparr>"

definition FlushBucket :: "dma_ok \<Rightarrow> Dpu \<Rightarrow> frame_id \<Rightarrow> Dpu" where
  "FlushBucket ok d frame =
     (let loc = GetClientBucket d (bucket_ids d ! nat frame)
      in if ok True loc then d\<lparr>remote := (remote d)(loc := frame_at d frame)\<rparr> else d)"

text \<open>What \<^verbatim>\<open>FetchBucket\<close> and \<^verbatim>\<open>NewBucket\<close> begin with: a frame is taken from the free list, or the least
  recently used one is evicted and, when dirty, written back; it is then claimed for the bucket.\<close>

definition claim_frame :: "dma_ok \<Rightarrow> Dpu \<Rightarrow> bucket_id \<Rightarrow> frame_id \<times> Dpu" where
  "claim_frame ok d bucket =
     (let (target_frame, d1) =
        (case free_list d of
           [] \<Rightarrow>
             (let (t, r) = Evict (replacer d); d0 = d\<lparr>replacer := r\<rparr>
              in (t, if dirty_flag d0 ! nat t
                     then (FlushBucket ok d0 t)\<lparr>dirty_flag := (dirty_flag d0)[nat t := False]\<rparr> else d0))
         | t # ts \<Rightarrow> (t, d\<lparr>free_list := ts, dirty_flag := (dirty_flag d)[nat t := False]\<rparr>))
      in (target_frame,
          record_access
            (d1\<lparr>bucket_table := (bucket_table d1)(bucket_ids d1 ! nat target_frame := None),
                bucket_ids := (bucket_ids d1)[nat target_frame := bucket]\<rparr>) target_frame))"

text \<open>A read of a bucket into a frame, as \<^verbatim>\<open>ScheduleReadWrite(false, ...)\<close> does it.\<close>

definition dma_read :: "dma_ok \<Rightarrow> Dpu \<Rightarrow> bucket_id \<Rightarrow> frame_id \<Rightarrow> bool \<times> Dpu" where
  "dma_read ok d bucket frame =
     (let loc = GetClientBucket d bucket
      in if ok False loc then (True, d\<lparr>cache := (cache d)[nat frame := remote d loc]\<rparr>) else (False, d))"

definition FetchBucket :: "dma_ok \<Rightarrow> Dpu \<Rightarrow> bucket_id \<Rightarrow> (bool \<times> frame_id) \<times> Dpu" where
  "FetchBucket ok d bucket =
     (let (t, d1) = claim_frame ok d bucket; (success, d2) = dma_read ok d1 bucket t
      in ((success, t), d2))"

definition CopyBucket :: "dma_ok \<Rightarrow> Dpu \<Rightarrow> bucket_id \<Rightarrow> frame_id \<Rightarrow> bool \<times> Dpu" where
  "CopyBucket ok d bucket frame = dma_read ok d bucket frame"

definition NewBucket :: "dma_ok \<Rightarrow> Dpu \<Rightarrow> bucket_id \<Rightarrow> frame_id \<times> Dpu" where
  "NewBucket ok d bucket =
     (let (t, d1) = claim_frame ok d bucket in (t, d1\<lparr>cache := (cache d1)[nat t := fixed_zero]\<rparr>))"

definition FlushAll :: "dma_ok \<Rightarrow> Dpu \<Rightarrow> Dpu" where
  "FlushAll ok d =
     foldl (\<lambda>d i. (FlushBucket ok d i)\<lparr>dirty_flag := (dirty_flag d)[nat i := False]\<rparr>) d (map int [0..<CACHE_SIZE])"

definition Get4Buckets :: "Dpu \<Rightarrow> u64 \<Rightarrow> u64 \<Rightarrow> bucket_id list" where
  "Get4Buckets d h1 h2 =
     (let a = dpu_addr_capacity d; idx1 = unat h1 mod (a div 2); idx2 = a div 2 + unat h2 mod (a div 2);
          idx3 = unat h1 mod (a div 4); idx4 = a div 4 + unat h2 mod (a div 4)
      in [int a - 4 + int idx1, int a - 4 + int idx2,
          int (dpu_bl_capacity d) - 4 + int idx3, int (dpu_bl_capacity d) - 4 + int idx4])"

section \<open>Search, deletion, update\<close>

text \<open>
  The three operations have the same shape: the cached buckets are tried first, the others collected;
  then these are fetched and tried. An operation on one bucket takes the bucket and its dirty flag and
  returns its result, if it applies, and both updated.
\<close>

type_synonym 'r bucket_op = "fixed_bucket \<Rightarrow> bool \<Rightarrow> 'r option \<times> fixed_bucket \<times> bool"

definition apply_frame :: "'r bucket_op \<Rightarrow> Dpu \<Rightarrow> frame_id \<Rightarrow> 'r option \<times> Dpu" where
  "apply_frame f d frame =
     (case f (frame_at d frame) (dirty_flag d ! nat frame) of
        (r, b, dirty) \<Rightarrow> (r, d\<lparr>cache := (cache d)[nat frame := b], dirty_flag := (dirty_flag d)[nat frame := dirty]\<rparr>))"

fun try_cached :: "'r bucket_op \<Rightarrow> Dpu \<Rightarrow> bucket_id list \<Rightarrow> bucket_id list \<Rightarrow> 'r option \<times> bucket_id list \<times> Dpu" where
  "try_cached f d [] to_fetch = (None, to_fetch, d)"
| "try_cached f d (b # bs) to_fetch =
     (case bucket_table d b of
        Some frame \<Rightarrow>
          (case apply_frame f (record_access d frame) frame of
             (Some r, d1) \<Rightarrow> (Some r, to_fetch, d1)
           | (None, d1) \<Rightarrow> try_cached f d1 bs to_fetch)
      | None \<Rightarrow> try_cached f d bs (to_fetch @ [b]))"

fun fetch_all :: "dma_ok \<Rightarrow> Dpu \<Rightarrow> bucket_id list \<Rightarrow> (bool \<times> frame_id) list \<times> Dpu" where
  "fetch_all ok d [] = ([], d)"
| "fetch_all ok d (b # bs) =
     (let (r, d1) = FetchBucket ok d b; (rs, d2) = fetch_all ok d1 bs in (r # rs, d2))"

text \<open>\<^verbatim>\<open>ProcessDelete\<close> and \<^verbatim>\<open>ProcessUpdate\<close> return from the loop over the fetched buckets as soon as the
  operation applies; \<^verbatim>\<open>ProcessSearch\<close> enters all of them into the table.\<close>

fun try_fetched :: "'r bucket_op \<Rightarrow> Dpu \<Rightarrow> (bucket_id \<times> bool \<times> frame_id) list \<Rightarrow> 'r option \<times> Dpu" where
  "try_fetched f d [] = (None, d)"
| "try_fetched f d ((b, success, frame) # xs) =
     (if success then
        (case apply_frame f (set_table d b frame) frame of
           (Some r, d1) \<Rightarrow> (Some r, d1)
         | (None, d1) \<Rightarrow> try_fetched f d1 xs)
      else try_fetched f d xs)"

fun search_fetched :: "u8 list \<Rightarrow> Dpu \<Rightarrow> (bucket_id \<times> bool \<times> frame_id) list \<Rightarrow> u8 list option \<Rightarrow> u8 list option \<times> Dpu" where
  "search_fetched key d [] searched = (searched, d)"
| "search_fetched key d ((b, success, frame) # xs) searched =
     (if success then
        search_fetched key (set_table d b frame) xs
          (if searched = None then SearchSlot (frame_at d frame) key else searched)
      else search_fetched key d xs searched)"

definition search_op :: "u8 list \<Rightarrow> u8 list bucket_op" where
  "search_op key b dirty = (SearchSlot b key, b, dirty)"

definition delete_op :: "u8 list \<Rightarrow> unit bucket_op" where
  "delete_op key b dirty = (case DeleteSlot b key dirty of (r, b', d') \<Rightarrow> (if r then Some () else None, b', d'))"

definition update_op :: "u8 list \<Rightarrow> u8 list \<Rightarrow> unit bucket_op" where
  "update_op key val b dirty = (case UpdateSlot b key val dirty of (r, b', d') \<Rightarrow> (if r then Some () else None, b', d'))"

text \<open>The value passed to the callback, if any, is \<^verbatim>\<open>result.ToString()\<close>.\<close>

definition ProcessSearch :: "dma_ok \<Rightarrow> Dpu \<Rightarrow> Request \<Rightarrow> u8 list option \<times> Dpu" where
  "ProcessSearch ok d request =
     (case try_cached (search_op (req_key request)) d (Get4Buckets d (hash1 request) (hash2 request)) [] of
        (Some v, _, d1) \<Rightarrow> (Some (ToString 15 v), d1)
      | (None, to_fetch, d1) \<Rightarrow>
          (case fetch_all ok d1 to_fetch of
             (rs, d2) \<Rightarrow>
               (case search_fetched (req_key request) d2 (zip to_fetch rs) None of
                  (searched, d3) \<Rightarrow> (map_option (ToString 15) searched, d3))))"

definition process_with :: "unit bucket_op \<Rightarrow> dma_ok \<Rightarrow> Dpu \<Rightarrow> Request \<Rightarrow> bool \<times> Dpu" where
  "process_with f ok d request =
     (case try_cached f d (Get4Buckets d (hash1 request) (hash2 request)) [] of
        (Some _, _, d1) \<Rightarrow> (True, d1)
      | (None, to_fetch, d1) \<Rightarrow>
          (case fetch_all ok d1 to_fetch of
             (rs, d2) \<Rightarrow> (case try_fetched f d2 (zip to_fetch rs) of (r, d3) \<Rightarrow> (r \<noteq> None, d3))))"

definition ProcessDelete :: "dma_ok \<Rightarrow> Dpu \<Rightarrow> Request \<Rightarrow> bool \<times> Dpu" where
  "ProcessDelete ok d request = process_with (delete_op (req_key request)) ok d request"

definition ProcessUpdate :: "dma_ok \<Rightarrow> Dpu \<Rightarrow> Request \<Rightarrow> bool \<times> Dpu" where
  "ProcessUpdate ok d request = process_with (update_op (req_key request) (req_value request)) ok d request"

section \<open>Expansion\<close>

definition GetExpandBucketIds :: "Dpu \<Rightarrow> u8 list \<Rightarrow> bucket_id \<times> bucket_id" where
  "GetExpandBucketIds d key =
     (let h1 = GenericType_Hash (dpu_f_seed d) key; h2 = GenericType_Hash (dpu_s_seed d) key; a = dpu_addr_capacity d
      in (tl_start_bucket_id d + int a + int (unat h1 mod a), tl_start_bucket_id d + int a * 2 + int (unat h2 mod a)))"

text \<open>The first loop of \<^verbatim>\<open>FetchNBuckets\<close> gives, for every bucket, its frame, or the outcome of a fetch that
  the second loop waits for.\<close>

fun fetch_n_loop :: "dma_ok \<Rightarrow> Dpu \<Rightarrow> bucket_id list \<Rightarrow> (bucket_id \<times> bool \<times> frame_id) list \<times> Dpu" where
  "fetch_n_loop ok d [] = ([], d)"
| "fetch_n_loop ok d (bucket # bs) =
     (let ((pending, frame), d1) =
        (if bucket \<ge> next_start_bucket_id d \<and>
            \<not> new_bucket_constructed d ! size_t (bucket - next_start_bucket_id d) then
           (let (t, d') = NewBucket ok d bucket
            in ((False, t), (set_table d' bucket t)\<lparr>new_bucket_constructed :=
                 (new_bucket_constructed d')[size_t (bucket - next_start_bucket_id d') := True]\<rparr>))
         else (case bucket_table d bucket of
                 Some f \<Rightarrow> ((False, f), record_access d f)
               | None \<Rightarrow> (case FetchBucket ok d bucket of ((_, t), d') \<Rightarrow> ((True, t), d'))));
        (fs, d2) = fetch_n_loop ok d1 bs
      in ((bucket, pending, frame) # fs, d2))"

definition FetchNBuckets :: "dma_ok \<Rightarrow> Dpu \<Rightarrow> bucket_id list \<Rightarrow> frame_id list \<times> Dpu" where
  "FetchNBuckets ok d bs =
     (let (fs, d1) = fetch_n_loop ok d bs
      in (map (snd \<circ> snd) fs,
          foldl (\<lambda>d (bucket, pending, frame). if pending then set_table d bucket frame else d) d1 fs))"

text \<open>\<^verbatim>\<open>splitBucket\<close>: the buckets of every item are fetched or constructed and compared; the insertion is
  the argument of \<^verbatim>\<open>ENSURE\<close> and does not take place.\<close>

fun split_slots :: "dma_ok \<Rightarrow> Dpu \<Rightarrow> fixed_bucket \<Rightarrow> nat list \<Rightarrow> Dpu" where
  "split_slots ok d b [] = d"
| "split_slots ok d b (sl # slots) =
     (if fx_token b ! sl = 1 then
        (let (nb1, nb2) = GetExpandBucketIds d (fx_key (fx_slots b ! sl));
             (frames, d1) = FetchNBuckets ok d [nb1, nb2]
         in split_slots ok d1 b slots)
      else split_slots ok d b slots)"

definition splitBucket :: "dma_ok \<Rightarrow> Dpu \<Rightarrow> frame_id \<Rightarrow> Dpu" where
  "splitBucket ok d frame =
     (let d1 = split_slots ok d (frame_at d frame) [0..<FIXED_ASSOC]
      in d1\<lparr>dirty_flag := (dirty_flag d1)[nat frame := False]\<rparr>)"

text \<open>The host answers the \<^verbatim>\<open>EXPAND\<close> message with the memory of the new level, which it has zeroed
  (\<^verbatim>\<open>Host::Expand\<close>).\<close>

definition attach_new_level :: "Dpu \<Rightarrow> Dpu" where
  "attach_new_level d = d\<lparr>remote := (\<lambda>(c, off). if THREADS \<le> c then fixed_zero else remote d (c, off))\<rparr>"

fun expand_buckets :: "dma_ok \<Rightarrow> Dpu \<Rightarrow> bucket_id list \<Rightarrow> Dpu" where
  "expand_buckets ok d [] = d"
| "expand_buckets ok d (b # bs) =
     (case bucket_table d b of
        Some frame \<Rightarrow> expand_buckets ok (splitBucket ok d frame) bs
      | None \<Rightarrow>
          (case FetchBucket ok d b of
             ((_, frame), d1) \<Rightarrow> expand_buckets ok (splitBucket ok (set_table d1 b frame) frame) bs))"

definition Expand :: "dma_ok \<Rightarrow> Dpu \<Rightarrow> Dpu" where
  "Expand ok d =
     (let d0 = attach_new_level (d\<lparr>new_bucket_constructed := replicate (dpu_addr_capacity d * 2) False, in_rehash := True\<rparr>);
          d1 = expand_buckets ok d0 [bl_start_bucket_id d0..tl_start_bucket_id d0 - 1];
          a = dpu_addr_capacity d1 * 2
      in d1\<lparr>dpu_addr_capacity := a, dpu_bl_capacity := dpu_bl_capacity d1 * 2, dpu_level := dpu_level d1 + 1,
            bl_start_bucket_id := tl_start_bucket_id d1, tl_start_bucket_id := next_start_bucket_id d1,
            next_start_bucket_id := next_start_bucket_id d1 + int a,
            remote := (\<lambda>(c, off). remote d1 (c + THREADS div 2, off)), in_rehash := False\<rparr>)"

section \<open>Insertion\<close>

text \<open>\<^verbatim>\<open>GetCurrentLoadFactor() >= 0.95\<close>. The quotient is rounded to \<^verbatim>\<open>float\<close>; the least \<^verbatim>\<open>float\<close> that is not
  below the \<^verbatim>\<open>double\<close> 0.95 is \<open>15938356 / 2 ^ 24\<close>, and a quotient is rounded to it or above exactly if
  it is at least \<open>31876711 / 2 ^ 25\<close> (for fewer than \<open>2 ^ 27\<close> slots, where the \<^verbatim>\<open>double\<close> quotient keeps
  them apart).\<close>

definition load_factor_high :: "Dpu \<Rightarrow> bool" where
  "load_factor_high d \<longleftrightarrow>
     31876711 * (FIXED_ASSOC * (dpu_bl_capacity d + dpu_addr_capacity d)) \<le> dpu_size d * 2 ^ 25"

definition insert_op :: "u8 list \<Rightarrow> u8 list \<Rightarrow> unit bucket_op" where
  "insert_op key val b dirty = (case InsertSlot b key val dirty of (r, b', d') \<Rightarrow> (if r then Some () else None, b', d'))"

text \<open>One of the two buckets: its frame, and whether a fetch has to be waited for and has succeeded.\<close>

definition frame_or_fetch :: "dma_ok \<Rightarrow> Dpu \<Rightarrow> bucket_id \<Rightarrow> (bool option \<times> frame_id) \<times> Dpu" where
  "frame_or_fetch ok d b =
     (case bucket_table d b of
        None \<Rightarrow> (case FetchBucket ok d b of ((success, t), d1) \<Rightarrow> ((Some success, t), d1))
      | Some f \<Rightarrow> ((None, f), record_access d f))"

definition settle :: "Dpu \<Rightarrow> bucket_id \<Rightarrow> bool option \<times> frame_id \<Rightarrow> Dpu option" where
  "settle d b p =
     (case p of
        (None, f) \<Rightarrow> Some d
      | (Some success, f) \<Rightarrow> if success then Some (set_table d b f) else None)"

definition tryInsertInto2Buckets :: "dma_ok \<Rightarrow> Dpu \<Rightarrow> Request \<Rightarrow> bucket_id \<Rightarrow> bucket_id \<Rightarrow> bool \<times> Dpu" where
  "tryInsertInto2Buckets ok d request b0 b1 =
     (let (p0, d1) = frame_or_fetch ok d b0; (p1, d2) = frame_or_fetch ok d1 b1
      in case settle d2 b0 p0 of
           None \<Rightarrow> (False, d2)
         | Some d3 \<Rightarrow>
             (case settle d3 b1 p1 of
                None \<Rightarrow> (False, d3)
              | Some d4 \<Rightarrow>
                  (let f = (if Count (frame_at d4 (snd p0)) > Count (frame_at d4 (snd p1)) then snd p1 else snd p0)
                   in case apply_frame (insert_op (req_key request) (req_value request)) d4 f of
                        (r, d5) \<Rightarrow> (r \<noteq> None, d5))))"

definition frame_of :: "dma_ok \<Rightarrow> Dpu \<Rightarrow> bucket_id \<Rightarrow> frame_id \<times> Dpu" where
  "frame_of ok d b =
     (case bucket_table d b of
        Some f \<Rightarrow> (f, d)
      | None \<Rightarrow> (case FetchBucket ok d b of ((_, t), d1) \<Rightarrow> (t, set_table d1 b t)))"

fun move_to :: "dma_ok \<Rightarrow> Dpu \<Rightarrow> bucket_id \<Rightarrow> frame_id \<Rightarrow> nat \<Rightarrow> bucket_id list \<Rightarrow> bool \<times> Dpu" where
  "move_to ok d src_bucket src_frame sl [] = (False, d)"
| "move_to ok d src_bucket src_frame sl (dst_nb # nbs) =
     (if dst_nb = src_bucket then move_to ok d src_bucket src_frame sl nbs
      else
        (let (dst_frame, d1) = frame_of ok d dst_nb; e = fx_slots (frame_at d1 src_frame) ! sl
         in case apply_frame (insert_op (fx_key e) (fx_value e)) d1 dst_frame of
              (Some _, d2) \<Rightarrow>
                (let b = frame_at d2 src_frame
                 in (True, d2\<lparr>cache := (cache d2)[nat src_frame := b\<lparr>fx_token := (fx_token b)[sl := 0]\<rparr>]\<rparr>))
            | (None, d2) \<Rightarrow> move_to ok d2 src_bucket src_frame sl nbs))"

fun move_slots :: "dma_ok \<Rightarrow> Dpu \<Rightarrow> bucket_id \<Rightarrow> frame_id \<Rightarrow> nat list \<Rightarrow> bool \<times> Dpu" where
  "move_slots ok d src_bucket src_frame [] = (False, d)"
| "move_slots ok d src_bucket src_frame (sl # slots) =
     (let key = fx_key (fx_slots (frame_at d src_frame) ! sl);
          dst_nbs = Get4Buckets d (GenericType_Hash (dpu_f_seed d) key) (GenericType_Hash (dpu_s_seed d) key);
          (moved, d1) = move_to ok d src_bucket src_frame sl (take 2 dst_nbs)
      in if moved then (True, d1) else move_slots ok d1 src_bucket src_frame slots)"

text \<open>The last part of \<^verbatim>\<open>ProcessInsert\<close>: after a movement the new item should take the slot that became free,
  but that insertion is again the argument of \<^verbatim>\<open>ENSURE\<close>.\<close>

fun move_one :: "dma_ok \<Rightarrow> Dpu \<Rightarrow> bucket_id list \<Rightarrow> bool \<times> Dpu" where
  "move_one ok d [] = (False, d)"
| "move_one ok d (src_bucket # bs) =
     (let (src_frame, d1) = frame_of ok d src_bucket;
          (moved, d2) = move_slots ok d1 src_bucket src_frame [0..<FIXED_ASSOC]
      in if moved then (True, d2) else move_one ok d2 bs)"

definition ProcessInsert :: "dma_ok \<Rightarrow> Dpu \<Rightarrow> Request \<Rightarrow> bool \<times> Dpu" where
  "ProcessInsert ok d request =
     (let d0 = (if load_factor_high d then Expand ok d else d);
          bs = Get4Buckets d0 (hash1 request) (hash2 request);
          (r1, d1) = tryInsertInto2Buckets ok d0 request (bs ! 0) (bs ! 1)
      in if r1 then (True, d1)
         else (let (r2, d2) = tryInsertInto2Buckets ok d1 request (bs ! 2) (bs ! 3)
               in if r2 then (True, d2) else move_one ok d2 bs))"

section \<open>The worker\<close>

text \<open>One request; the output is what is passed to the callback of a search. An \<^verbatim>\<open>UPDATE\<close> is ignored.\<close>

definition run_request :: "dma_ok \<Rightarrow> Dpu \<Rightarrow> Request \<Rightarrow> u8 list option option \<times> Dpu" where
  "run_request ok d request =
     (case request_type request of
        REQ_START \<Rightarrow> (None, d)
      | REQ_END \<Rightarrow> (None, d\<lparr>dpu_stop := True\<rparr>)
      | REQ_SEARCH \<Rightarrow> (case ProcessSearch ok d request of (r, d1) \<Rightarrow> (Some r, d1))
      | REQ_INSERT \<Rightarrow>
          (case ProcessInsert ok d request of
             (r, d1) \<Rightarrow> (None, if r then d1\<lparr>dpu_size := dpu_size d1 + 1\<rparr> else d1))
      | REQ_DELETE \<Rightarrow> (None, snd (ProcessDelete ok d request))
      | REQ_UPDATE \<Rightarrow> (None, d))"

fun dpu_Run :: "dma_ok \<Rightarrow> Dpu \<Rightarrow> Request list \<Rightarrow> u8 list option list \<times> Dpu" where
  "dpu_Run ok d [] = ([], d)"
| "dpu_Run ok d (request # rs) =
     (if dpu_stop d then ([], d)
      else case run_request ok d request of
             (out, d1) \<Rightarrow>
               (case dpu_Run ok d1 rs of (outs, d2) \<Rightarrow> ((case out of Some v \<Rightarrow> v # outs | None \<Rightarrow> outs), d2)))"

text \<open>The requests the client threads enqueue.\<close>

definition dpu_request :: "RequestType \<Rightarrow> Dpu \<Rightarrow> u8 list \<Rightarrow> u8 list \<Rightarrow> Request" where
  "dpu_request t d key val =
     \<lparr>request_type = t, req_key = key, req_value = val,
      hash1 = GenericType_Hash (dpu_f_seed d) key, hash2 = GenericType_Hash (dpu_s_seed d) key\<rparr>"

end
