(* ===== verification/DpuCoherence.thy ===== *)
theory DpuCoherence
  imports DpuCache
begin

text \<open>
  Coherence of the DPU cache. What the store holds for a bucket is its frame, if the bucket table has
  one, and host memory otherwise (\<open>bucket_view\<close>). Fetching and evicting buckets leaves this view as it is,
  and an operation on a bucket changes the view of that bucket only.

  Fetches are issued before earlier ones are waited for. The invariant \<open>cache_inv k ps\<close> therefore carries
  the list \<open>ps\<close> of the buckets that have been fetched into a frame but not been entered into the bucket
  table yet; their frames are among the \<open>k\<close> most recently used ones, so that none of them is evicted
  by the fetches that follow.
\<close>

section \<open>Where buckets live in host memory\<close>

definition geometry :: "Dpu \<Rightarrow> bool" where
  "geometry d \<longleftrightarrow>
     (\<exists>q. 0 < q \<and> q \<le> 2 ^ 60 \<and> dpu_bl_capacity d = 4 * q \<and> dpu_addr_capacity d = 8 * q \<and>
        bl_start_bucket_id d = int (4 * q) - 4 \<and> tl_start_bucket_id d = int (8 * q) - 4)"

definition valid_id :: "Dpu \<Rightarrow> bucket_id \<Rightarrow> bool" where
  "valid_id d b \<longleftrightarrow> bl_start_bucket_id d \<le> b \<and> b < tl_start_bucket_id d + int (dpu_addr_capacity d)"

lemma size_t_small: "0 \<le> x \<Longrightarrow> x < 2 ^ 64 \<Longrightarrow> size_t x = nat x"
  by (simp add: size_t_def)

lemma GetClientBucket_bottom:
  assumes "geometry d" and "valid_id d b" and "b < tl_start_bucket_id d" and "dpu_bl_capacity d = 4 * q"
  shows "GetClientBucket d b = (nat (b - bl_start_bucket_id d) div q, nat (b - bl_start_bucket_id d) mod q * FIXED_BUCKET_SIZE)"
    and "nat (b - bl_start_bucket_id d) div q < 4"
proof -
  have r: "0 \<le> b - bl_start_bucket_id d" "b - bl_start_bucket_id d < int (4 * q)" "q \<le> 2 ^ 60" "0 < q"
    using assms by (auto simp: geometry_def valid_id_def)
  then have "size_t (b - bl_start_bucket_id d) = nat (b - bl_start_bucket_id d)"
    by (intro size_t_small) auto
  then show "GetClientBucket d b = (nat (b - bl_start_bucket_id d) div q, nat (b - bl_start_bucket_id d) mod q * FIXED_BUCKET_SIZE)"
    using assms(3,4) by (simp add: GetClientBucket_def Let_def)
  have "nat (b - bl_start_bucket_id d) < 4 * q" using r by linarith
  then show "nat (b - bl_start_bucket_id d) div q < 4" by (simp add: div_less_iff_less_mult r(4))
qed

lemma GetClientBucket_top:
  assumes "geometry d" and "valid_id d b" and "\<not> b < tl_start_bucket_id d" and "dpu_bl_capacity d = 4 * q"
  shows "GetClientBucket d b = (nat (b - tl_start_bucket_id d) div (2 * q) + 4, nat (b - tl_start_bucket_id d) mod (2 * q) * FIXED_BUCKET_SIZE)"
proof -
  have a: "dpu_addr_capacity d = 8 * q" and q: "q \<le> 2 ^ 60" using assms(1,4) by (auto simp: geometry_def)
  have "0 \<le> b - tl_start_bucket_id d" "b - tl_start_bucket_id d < int (8 * q)"
    using assms a by (auto simp: valid_id_def)
  then have "size_t (b - tl_start_bucket_id d) = nat (b - tl_start_bucket_id d)"
    using q by (intro size_t_small) auto
  then show ?thesis
    using assms(2,3) a by (simp add: GetClientBucket_def Let_def valid_id_def)
qed

lemma div_mod_eq: "(x::nat) div n = y div n \<Longrightarrow> x mod n = y mod n \<Longrightarrow> x = y"
  by (metis div_mult_mod_eq)

lemma GetClientBucket_inj:
  assumes "geometry d" and "valid_id d b" and "valid_id d b'" and "GetClientBucket d b = GetClientBucket d b'"
  shows "b = b'"
proof -
  obtain q where q: "dpu_bl_capacity d = 4 * q" using assms(1) by (auto simp: geometry_def)
  note B = GetClientBucket_bottom [OF assms(1) _ _ q] and T = GetClientBucket_top [OF assms(1) _ _ q]
  consider "b < tl_start_bucket_id d" "b' < tl_start_bucket_id d" | "\<not> b < tl_start_bucket_id d" "\<not> b' < tl_start_bucket_id d"
    | "b < tl_start_bucket_id d" "\<not> b' < tl_start_bucket_id d" | "\<not> b < tl_start_bucket_id d" "b' < tl_start_bucket_id d" by blast
  then show ?thesis
  proof cases
    case 1
    have "nat (b - bl_start_bucket_id d) = nat (b' - bl_start_bucket_id d)"
      by (rule div_mod_eq [of _ q]) (use B(1) [OF assms(2) 1(1)] B(1) [OF assms(3) 1(2)] assms(4) in simp_all)
    then show ?thesis using assms(2,3) by (simp add: valid_id_def eq_nat_nat_iff)
  next
    case 2
    have "nat (b - tl_start_bucket_id d) = nat (b' - tl_start_bucket_id d)"
      by (rule div_mod_eq [of _ "2 * q"]) (use T [OF assms(2) 2(1)] T [OF assms(3) 2(2)] assms(4) in simp_all)
    then show ?thesis using 2 by (simp add: eq_nat_nat_iff)
  next
    case 3
    show ?thesis using B [OF assms(2) 3(1)] T [OF assms(3) 3(2)] assms(4) by simp
  next
    case 4
    show ?thesis using B [OF assms(3) 4(2)] T [OF assms(2) 4(1)] assms(4) by simp
  qed
qed

lemma Get4Buckets_valid:
  assumes "geometry d" and "b \<in> set (Get4Buckets d h1 h2)"
  shows "valid_id d b"
proof -
  obtain q where q: "0 < q" "dpu_bl_capacity d = 4 * q" "dpu_addr_capacity d = 8 * q"
    "bl_start_bucket_id d = int (4 * q) - 4" "tl_start_bucket_id d = int (8 * q) - 4"
    using assms(1) by (auto simp: geometry_def)
  have dv: "8 * q div 2 = 4 * q" "8 * q div 4 = 2 * q" by simp_all
  have m: "int (h mod (4 * q)) < 4 * int q" "int (h mod (2 * q)) < 2 * int q" for h
    using mod_less_divisor [of "4 * q" h] mod_less_divisor [of "2 * q" h] q(1) by linarith+
  obtain x1 x2 y1 y2 where x: "x1 < 4 * int q" "x2 < 4 * int q" "y1 < 2 * int q" "y2 < 2 * int q"
    "0 \<le> x1" "0 \<le> x2" "0 \<le> y1" "0 \<le> y2"
    and b: "b = 8 * int q - 4 + x1 \<or> b = 8 * int q - 4 + (4 * int q + x2) \<or>
      b = 4 * int q - 4 + y1 \<or> b = 4 * int q - 4 + (2 * int q + y2)"
  proof
    show "b = 8 * int q - 4 + int (unat h1 mod (4 * q)) \<or> b = 8 * int q - 4 + (4 * int q + int (unat h2 mod (4 * q))) \<or>
      b = 4 * int q - 4 + int (unat h1 mod (2 * q)) \<or> b = 4 * int q - 4 + (2 * int q + int (unat h2 mod (2 * q)))"
      using assms(2) unfolding Get4Buckets_def Let_def q dv by simp
  qed (rule m of_nat_0_le_iff)+
  have "valid_id d b \<longleftrightarrow> 4 * int q - 4 \<le> b \<and> b < 8 * int q - 4 + 8 * int q"
    unfolding valid_id_def q by simp
  then show ?thesis using x b by linarith
qed

section \<open>View and invariant\<close>

definition bucket_view :: "Dpu \<Rightarrow> bucket_id \<Rightarrow> fixed_bucket" where
  "bucket_view d b = (case bucket_table d b of Some f \<Rightarrow> frame_at d f | None \<Rightarrow> remote d (GetClientBucket d b))"

text \<open>The fields that only an expansion changes.\<close>

definition same_geometry :: "Dpu \<Rightarrow> Dpu \<Rightarrow> bool" where
  "same_geometry d d' \<longleftrightarrow> bl_start_bucket_id d' = bl_start_bucket_id d \<and> tl_start_bucket_id d' = tl_start_bucket_id d \<and>
     next_start_bucket_id d' = next_start_bucket_id d \<and> dpu_bl_capacity d' = dpu_bl_capacity d \<and>
     dpu_addr_capacity d' = dpu_addr_capacity d"

definition frames_ok :: "nat \<Rightarrow> (bucket_id \<times> frame_id) list \<Rightarrow> Dpu \<Rightarrow> bool" where
  "frames_ok k ps d \<longleftrightarrow> length (cache d) = CACHE_SIZE \<and> length (dirty_flag d) = CACHE_SIZE \<and>
     length (bucket_ids d) = CACHE_SIZE \<and> replacer_ok (replacer d) \<and> distinct (free_list d) \<and>
     set (free_list d) \<union> set (recency (replacer d)) = {0..<int CACHE_SIZE} \<and>
     set (free_list d) \<inter> set (recency (replacer d)) = {} \<and>
     snd ` set ps \<subseteq> set (take k (recency (replacer d)))"

definition table_ok :: "(bucket_id \<times> frame_id) list \<Rightarrow> Dpu \<Rightarrow> bool" where
  "table_ok ps d \<longleftrightarrow>
     (\<forall>b f. bucket_table d b = Some f \<longrightarrow> valid_id d b \<and> f \<in> set (recency (replacer d)) \<and> bucket_ids d ! nat f = b) \<and>
     (\<forall>f \<in> set (recency (replacer d)). bucket_table d (bucket_ids d ! nat f) = Some f \<or> (bucket_ids d ! nat f, f) \<in> set ps) \<and>
     (\<forall>f \<in> set (free_list d). bucket_ids d ! nat f = - 1) \<and>
     (\<forall>(b, f) \<in> set ps. valid_id d b \<and> bucket_table d b = None \<and> f \<in> set (recency (replacer d)) \<and> bucket_ids d ! nat f = b)"

definition data_ok :: "(bucket_id \<times> frame_id) list \<Rightarrow> Dpu \<Rightarrow> bool" where
  "data_ok ps d \<longleftrightarrow>
     (\<forall>b f. bucket_table d b = Some f \<longrightarrow> dirty_flag d ! nat f \<or> frame_at d f = remote d (GetClientBucket d b)) \<and>
     (\<forall>(b, f) \<in> set ps. frame_at d f = remote d (GetClientBucket d b) \<and> \<not> dirty_flag d ! nat f)"

definition cache_inv :: "nat \<Rightarrow> (bucket_id \<times> frame_id) list \<Rightarrow> Dpu \<Rightarrow> bool" where
  "cache_inv k ps d \<longleftrightarrow> geometry d \<and> frames_ok k ps d \<and> table_ok ps d \<and> data_ok ps d"

text \<open>The invariant between two requests.\<close>

definition coherent :: "Dpu \<Rightarrow> bool" where
  "coherent d \<longleftrightarrow> cache_inv 0 [] d"

lemma same_geometryD:
  assumes "same_geometry d d'"
  shows "geometry d' = geometry d" "valid_id d' = valid_id d" "GetClientBucket d' = GetClientBucket d"
    "Get4Buckets d' = Get4Buckets d"
  using assms
  by (simp_all add: same_geometry_def geometry_def valid_id_def GetClientBucket_def Get4Buckets_def fun_eq_iff)

lemma same_geometry_refl [simp]: "same_geometry d d"
  by (simp add: same_geometry_def)

lemma same_geometry_trans: "same_geometry d d' \<Longrightarrow> same_geometry d' d'' \<Longrightarrow> same_geometry d d''"
  by (simp add: same_geometry_def)

lemma valid_id_nonneg:
  assumes "geometry d" and "valid_id d b"
  shows "0 \<le> b"
proof -
  obtain q where "0 < q" "bl_start_bucket_id d = int (4 * q) - 4" using assms(1) unfolding geometry_def by blast
  then show ?thesis using assms(2) by (simp add: valid_id_def)
qed

lemma frames_range:
  assumes "frames_ok k ps d" and "f \<in> set (recency (replacer d)) \<or> f \<in> set (free_list d)"
  shows "0 \<le> f" "nat f < CACHE_SIZE"
proof -
  have "f \<in> {0..<int CACHE_SIZE}" using assms by (auto simp: frames_ok_def)
  then show "0 \<le> f" "nat f < CACHE_SIZE" by auto
qed

lemma frame_at_upd:
  assumes "frames_ok k ps d" and "f \<in> set (recency (replacer d))" and "g \<in> set (recency (replacer d))"
  shows "(cache d)[nat f := x] ! nat g = (if g = f then x else frame_at d g)"
  using frames_range [OF assms(1), of f] frames_range [OF assms(1), of g] assms
  by (auto simp: frames_ok_def frame_at_def nth_list_update eq_nat_nat_iff)

lemma table_okD:
  assumes "table_ok ps d"
  shows "bucket_table d b = Some f \<Longrightarrow> valid_id d b \<and> f \<in> set (recency (replacer d)) \<and> bucket_ids d ! nat f = b"
    and "f \<in> set (recency (replacer d)) \<Longrightarrow>
      bucket_table d (bucket_ids d ! nat f) = Some f \<or> (bucket_ids d ! nat f, f) \<in> set ps"
    and "f \<in> set (free_list d) \<Longrightarrow> bucket_ids d ! nat f = - 1"
    and "(b, f) \<in> set ps \<Longrightarrow>
      valid_id d b \<and> bucket_table d b = None \<and> f \<in> set (recency (replacer d)) \<and> bucket_ids d ! nat f = b"
  using assms unfolding table_ok_def by blast+

lemma data_okD:
  assumes "data_ok ps d"
  shows "bucket_table d b = Some f \<Longrightarrow> \<not> dirty_flag d ! nat f \<Longrightarrow> frame_at d f = remote d (GetClientBucket d b)"
    and "(b, f) \<in> set ps \<Longrightarrow> frame_at d f = remote d (GetClientBucket d b) \<and> \<not> dirty_flag d ! nat f"
  using assms unfolding data_ok_def by blast+

section \<open>Claiming a frame\<close>

text \<open>The state between the choice of a frame \<open>t\<close> and its claim: the frame is clean and neither free nor
  tracked by the replacer.\<close>

definition prepared :: "nat \<Rightarrow> (bucket_id \<times> frame_id) list \<Rightarrow> frame_id \<Rightarrow> Dpu \<Rightarrow> bool" where
  "prepared k ps t d \<longleftrightarrow> geometry d \<and> length (cache d) = CACHE_SIZE \<and> length (dirty_flag d) = CACHE_SIZE \<and>
     length (bucket_ids d) = CACHE_SIZE \<and> replacer_ok (replacer d) \<and> distinct (free_list d) \<and>
     t \<in> {0..<int CACHE_SIZE} \<and> set (free_list d) \<union> set (recency (replacer d)) = {0..<int CACHE_SIZE} - {t} \<and>
     set (free_list d) \<inter> set (recency (replacer d)) = {} \<and> snd ` set ps \<subseteq> set (take k (recency (replacer d))) \<and>
     table_ok ps d \<and> data_ok ps d \<and> \<not> dirty_flag d ! nat t"

definition claim :: "bucket_id \<Rightarrow> frame_id \<Rightarrow> Dpu \<Rightarrow> Dpu" where
  "claim b t d = record_access (d\<lparr>bucket_ids := (bucket_ids d)[nat t := b]\<rparr>) t"

lemma claim_sel [simp]:
  "cache (claim b t d) = cache d" "dirty_flag (claim b t d) = dirty_flag d" "bucket_table (claim b t d) = bucket_table d"
  "free_list (claim b t d) = free_list d" "remote (claim b t d) = remote d"
  "bucket_ids (claim b t d) = (bucket_ids d)[nat t := b]" "replacer (claim b t d) = RecordAccess (replacer d) t"
  "frame_at (claim b t d) = frame_at d" "same_geometry d (claim b t d)"
  by (simp_all add: claim_def record_access_def frame_at_def fun_eq_iff same_geometry_def)

lemmas claim_geometry = same_geometryD [OF claim_sel(9)]

lemma claim_ids:
  assumes "prepared k ps t d" and "f \<in> set (recency (replacer d)) \<or> f \<in> set (free_list d)"
  shows "(bucket_ids d)[nat t := b] ! nat f = bucket_ids d ! nat f"
proof -
  have "f \<in> {0..<int CACHE_SIZE} - {t}" "t \<in> {0..<int CACHE_SIZE}" using assms unfolding prepared_def by blast+
  then have "nat f \<noteq> nat t" by (auto simp: eq_nat_nat_iff)
  then show ?thesis by simp
qed

lemma prepared_claim:
  assumes pr: "prepared k ps t d" and b: "valid_id d b" "bucket_table d b = None"
  shows "frames_ok (Suc k) ((b, t) # ps) (claim b t d)" and "table_ok ((b, t) # ps) (claim b t d)"
    and "data_ok ps (claim b t d)" and "bucket_view (claim b t d) = bucket_view d"
proof -
  note rep = repl.set_access [of "replacer d" t] and rec = repl.recent_access [of "replacer d" k t]
    and acc = repl.access_ok [of "replacer d" t]
  have rok: "replacer_ok (replacer d)" using pr by (simp add: prepared_def)
  have new: "(bucket_ids d)[nat t := b] ! nat t = b" using pr by (auto simp: prepared_def)
  have top: "t \<in> set (take (Suc k) (recency (RecordAccess (replacer d) t)))" using acc [OF rok] by simp
  have "snd ` set ((b, t) # ps) \<subseteq> set (take (Suc k) (recency (RecordAccess (replacer d) t)))"
    using pr top rec [OF rok] by (auto simp: prepared_def)
  moreover have "set (free_list d) \<union> insert t (set (recency (replacer d))) = {0..<int CACHE_SIZE}"
    "set (free_list d) \<inter> insert t (set (recency (replacer d))) = {}"
    using pr unfolding prepared_def by blast+
  ultimately show "frames_ok (Suc k) ((b, t) # ps) (claim b t d)"
    using pr acc [OF rok] rep [OF rok] unfolding frames_ok_def by (simp add: prepared_def)
  have tab: "table_ok ps d" using pr by (simp add: prepared_def)
  show "table_ok ((b, t) # ps) (claim b t d)"
    unfolding table_ok_def claim_geometry claim_sel rep [OF rok]
  proof (intro conjI allI impI ballI)
    fix b' f assume "bucket_table d b' = Some f"
    then have "valid_id d b'" "f \<in> set (recency (replacer d))" "bucket_ids d ! nat f = b'" using tab by (auto simp: table_ok_def)
    then show "valid_id d b'" "f \<in> insert t (set (recency (replacer d)))" "(bucket_ids d)[nat t := b] ! nat f = b'"
      using claim_ids [OF pr] by auto
  next
    fix f assume "f \<in> insert t (set (recency (replacer d)))"
    then show "bucket_table d ((bucket_ids d)[nat t := b] ! nat f) = Some f \<or> ((bucket_ids d)[nat t := b] ! nat f, f) \<in> set ((b, t) # ps)"
    proof (cases "f = t")
      case False
      with \<open>f \<in> insert t (set (recency (replacer d)))\<close> have f: "f \<in> set (recency (replacer d))" by simp
      then show ?thesis using table_okD(2) [OF tab f] claim_ids [OF pr, of f b] by auto
    qed (simp add: new)
  next
    fix f assume "f \<in> set (free_list d)"
    then show "(bucket_ids d)[nat t := b] ! nat f = - 1" using tab claim_ids [OF pr, of f b] by (auto simp: table_ok_def)
  next
    fix p assume "p \<in> set ((b, t) # ps)"
    then show "case p of (b', f) \<Rightarrow> valid_id d b' \<and> bucket_table d b' = None \<and> f \<in> insert t (set (recency (replacer d))) \<and>
        (bucket_ids d)[nat t := b] ! nat f = b'"
      using tab new b claim_ids [OF pr, of "snd p" b] by (auto simp: table_ok_def)
  qed
  show "data_ok ps (claim b t d)" using pr by (simp add: prepared_def data_ok_def claim_geometry)
  show "bucket_view (claim b t d) = bucket_view d"
    by (rule ext) (simp add: bucket_view_def claim_geometry split: option.split)
qed

lemma prepare_free:
  assumes inv: "cache_inv k ps d" and fl: "free_list d = t # ts"
  defines "d1 \<equiv> d\<lparr>free_list := ts, dirty_flag := (dirty_flag d)[nat t := False],
      bucket_table := (bucket_table d)(bucket_ids d ! nat t := None)\<rparr>"
  shows "prepared k ps t d1" and "bucket_view d1 = bucket_view d" and "bucket_table d1 = bucket_table d"
proof -
  have fr: "frames_ok k ps d" and tab: "table_ok ps d" and dat: "data_ok ps d" and geo: "geometry d"
    using inv by (auto simp: cache_inv_def)
  have t: "t \<in> set (free_list d)" using fl by simp
  then have "bucket_table d (- 1) = None"
    using table_okD(1) [OF tab, of "- 1"] valid_id_nonneg [OF geo, of "- 1"] by (cases "bucket_table d (- 1)") auto
  then have tb: "bucket_table d1 = bucket_table d"
    using table_okD(3) [OF tab t] by (simp add: d1_def fun_upd_idem)
  then show "bucket_table d1 = bucket_table d" .
  have g: "same_geometry d d1" by (simp add: same_geometry_def d1_def)
  note geo1 = same_geometryD [OF g]
  have fa: "frame_at d1 = frame_at d" and rm: "remote d1 = remote d" by (simp_all add: d1_def frame_at_def fun_eq_iff)
  show "bucket_view d1 = bucket_view d"
    unfolding bucket_view_def tb fa geo1 rm ..
  have tr: "t \<in> {0..<int CACHE_SIZE}" "t \<notin> set (recency (replacer d))" "t \<notin> set ts" "length (dirty_flag d) = CACHE_SIZE"
    using fr t fl unfolding frames_ok_def by auto
  have dirty: "\<not> (dirty_flag d)[nat t := False] ! nat f" if "\<not> dirty_flag d ! nat f" for f
    using that tr(1,4) by (cases "nat t = nat f") auto
  have "data_ok ps d1"
    unfolding data_ok_def tb fa geo1
  proof (intro conjI allI impI ballI)
    fix b f assume "bucket_table d b = Some f"
    then have "f \<in> set (recency (replacer d))" "dirty_flag d ! nat f \<or> frame_at d f = remote d (GetClientBucket d b)"
      using table_okD(1) [OF tab] data_okD(1) [OF dat] by blast+
    moreover from this(1) tr have "nat f \<noteq> nat t" using frames_range [OF fr, of f] by (auto simp: eq_nat_nat_iff)
    ultimately show "dirty_flag d1 ! nat f \<or> frame_at d f = remote d1 (GetClientBucket d b)" by (auto simp: d1_def)
  next
    fix p assume "p \<in> set ps"
    then show "case p of (b, f) \<Rightarrow> frame_at d f = remote d1 (GetClientBucket d b) \<and> \<not> dirty_flag d1 ! nat f"
      using data_okD(2) [OF dat, of "fst p" "snd p"] dirty by (auto simp: d1_def)
  qed
  moreover have "table_ok ps d1"
    using tab fl unfolding table_ok_def tb geo1 by (simp add: d1_def)
  moreover have "set ts \<union> set (recency (replacer d)) = {0..<int CACHE_SIZE} - {t}" "set ts \<inter> set (recency (replacer d)) = {}"
    "distinct ts"
    using fr fl tr unfolding frames_ok_def by auto
  moreover have "nat t < length (dirty_flag d)" using tr(1,4) by (simp add: nat_less_iff)
  then have "\<not> dirty_flag d1 ! nat t" by (simp add: d1_def)
  ultimately show "prepared k ps t d1"
    using fr geo tr(1) unfolding prepared_def frames_ok_def geo1(1) by (simp add: d1_def)
qed

text \<open>What writing the bucket \<open>x\<close> to the location of \<open>b\<close> means for the other buckets.\<close>

lemma remote_upd:
  assumes "geometry d" and "valid_id d b" and "valid_id d b'"
  shows "((remote d)(GetClientBucket d b := x)) (GetClientBucket d b') = (if b' = b then x else remote d (GetClientBucket d b'))"
  using GetClientBucket_inj [OF assms] by auto

lemma prepare_evict:
  assumes inv: "cache_inv k ps d" and fl: "free_list d = []" and k: "k < CACHE_SIZE"
  defines "t \<equiv> fst (Evict (replacer d))"
  defines "rem \<equiv> if dirty_flag d ! nat t then (remote d)(GetClientBucket d (bucket_ids d ! nat t) := frame_at d t) else remote d"
  defines "d1 \<equiv> d\<lparr>replacer := snd (Evict (replacer d)), remote := rem, dirty_flag := (dirty_flag d)[nat t := False],
      bucket_table := (bucket_table d)(bucket_ids d ! nat t := None)\<rparr>"
  shows "prepared k ps t d1" and "\<And>b. valid_id d b \<Longrightarrow> bucket_view d1 b = bucket_view d b"
    and "bucket_table d b = None \<Longrightarrow> bucket_table d1 b = None"
proof -
  have fr: "frames_ok k ps d" and tab: "table_ok ps d" and dat: "data_ok ps d" and geo: "geometry d"
    using inv by (auto simp: cache_inv_def)
  have rok: "replacer_ok (replacer d)" and rset: "set (recency (replacer d)) = {0..<int CACHE_SIZE}"
    using fr fl by (auto simp: frames_ok_def)
  then have "card (set (recency (replacer d))) = CACHE_SIZE" by simp
  then have len: "length (recency (replacer d)) = CACHE_SIZE"
    using repl.distinct_order [OF rok] by (simp add: distinct_card)
  then have ne: "recency (replacer d) \<noteq> []" and kl: "k < length (recency (replacer d))" using k by auto
  have tin: "t \<in> set (recency (replacer d))" unfolding t_def by (rule repl.evict_member [OF rok ne])
  have tnk: "t \<notin> set (take k (recency (replacer d)))" unfolding t_def by (rule repl.evict_not_recent [OF rok kl])
  have "t \<notin> snd ` set ps" using fr tnk unfolding frames_ok_def by blast
  then have told: "bucket_table d (bucket_ids d ! nat t) = Some t"
    using table_okD(2) [OF tab tin] by force
  let ?b = "bucket_ids d ! nat t"
  have vb: "valid_id d ?b" using table_okD(1) [OF tab told] by simp
  have g: "same_geometry d d1" by (simp add: same_geometry_def d1_def)
  note geo1 = same_geometryD [OF g]
  have sel: "frame_at d1 = frame_at d" "remote d1 = rem" "bucket_table d1 = (bucket_table d)(?b := None)"
    "bucket_ids d1 = bucket_ids d" "free_list d1 = []" "replacer d1 = snd (Evict (replacer d))" "cache d1 = cache d"
    "dirty_flag d1 = (dirty_flag d)[nat t := False]"
    using fl by (simp_all add: d1_def frame_at_def fun_eq_iff)
  have rem: "rem (GetClientBucket d b') = (if b' = ?b then frame_at d t else remote d (GetClientBucket d b'))"
    if "valid_id d b'" for b'
    using remote_upd [OF geo vb that] data_okD(1) [OF dat told] by (auto simp: rem_def)
  show "bucket_view d1 b = bucket_view d b" if "valid_id d b" for b
  proof (cases "b = ?b")
    case True then show ?thesis using told rem [OF that] by (simp add: bucket_view_def sel geo1)
  next
    case False then show ?thesis using rem [OF that] by (simp add: bucket_view_def sel geo1 split: option.split)
  qed
  show "bucket_table d b = None \<Longrightarrow> bucket_table d1 b = None" by (simp add: sel)
  have rset1: "set (recency (replacer d1)) = {0..<int CACHE_SIZE} - {t}"
    using repl.set_evict [OF rok ne] rset by (simp add: sel t_def)
  have nt: "nat f \<noteq> nat t" if "f \<in> set (recency (replacer d))" "f \<noteq> t" for f
    using that frames_range [OF fr, of f] frames_range [OF fr, of t] tin by (auto simp: eq_nat_nat_iff)
  have tab1: "table_ok ps d1"
    unfolding table_ok_def geo1 sel(3-5) rset1
  proof (intro conjI allI impI ballI)
    fix b' f assume "((bucket_table d)(?b := None)) b' = Some f"
    then have *: "bucket_table d b' = Some f" "b' \<noteq> ?b" by (auto split: if_splits)
    from table_okD(1) [OF tab *(1)] *(2) rset
    show "valid_id d b'" "f \<in> {0..<int CACHE_SIZE} - {t}" "bucket_ids d ! nat f = b'" by auto
  next
    fix f assume "f \<in> {0..<int CACHE_SIZE} - {t}"
    then have f: "f \<in> set (recency (replacer d))" "f \<noteq> t" using rset by auto
    from table_okD(2) [OF tab f(1)] f(2) told
    show "((bucket_table d)(?b := None)) (bucket_ids d ! nat f) = Some f \<or> (bucket_ids d ! nat f, f) \<in> set ps" by auto
  next
    fix p assume p: "p \<in> set ps"
    then have "snd p \<noteq> t" using \<open>t \<notin> snd ` set ps\<close> by auto
    with p table_okD(4) [OF tab, of "fst p" "snd p"] rset
    show "case p of (b, f) \<Rightarrow> valid_id d b \<and> ((bucket_table d)(?b := None)) b = None \<and>
        f \<in> {0..<int CACHE_SIZE} - {t} \<and> bucket_ids d ! nat f = b"
      by (simp add: case_prod_beta)
  qed simp
  have dat1: "data_ok ps d1"
    unfolding data_ok_def geo1 sel
  proof (intro conjI allI impI ballI)
    fix b' f assume "((bucket_table d)(?b := None)) b' = Some f"
    then have *: "bucket_table d b' = Some f" "b' \<noteq> ?b" by (auto split: if_splits)
    then have "f \<noteq> t" "f \<in> set (recency (replacer d))" "valid_id d b'" using table_okD(1) [OF tab *(1)] by auto
    then show "(dirty_flag d)[nat t := False] ! nat f \<or> frame_at d f = rem (GetClientBucket d b')"
      using data_okD(1) [OF dat *(1)] nt [of f] rem [of b'] *(2) by auto
  next
    fix p assume p: "p \<in> set ps"
    then have "valid_id d (fst p)" "bucket_table d (fst p) = None" "snd p \<in> set (recency (replacer d))"
      using table_okD(4) [OF tab, of "fst p" "snd p"] by auto
    moreover have "snd p \<noteq> t" using p \<open>t \<notin> snd ` set ps\<close> by auto
    ultimately show "case p of (b, f) \<Rightarrow> frame_at d f = rem (GetClientBucket d b) \<and> \<not> (dirty_flag d)[nat t := False] ! nat f"
      using data_okD(2) [OF dat, of "fst p" "snd p"] p rem [of "fst p"] told nt [of "snd p"] by (cases p) auto
  qed
  have "snd ` set ps \<subseteq> set (take k (recency (replacer d1)))"
    using fr repl.take_evict [OF rok kl] by (simp add: frames_ok_def sel)
  moreover have "replacer_ok (replacer d1)" using repl.evict_ok [OF rok ne] by (simp add: sel)
  moreover have "t \<in> {0..<int CACHE_SIZE}" using tin rset by simp
  moreover have "nat t < length (dirty_flag d)" using fr frames_range [OF fr, of t] tin by (simp add: frames_ok_def)
  then have "\<not> (dirty_flag d)[nat t := False] ! nat t" by simp
  ultimately show "prepared k ps t d1"
    using fr geo tab1 dat1 rset1 unfolding prepared_def geo1(1) sel(4,5,7,8) by (simp add: frames_ok_def)
qed

text \<open>From here on the transfers succeed.\<close>

definition reliable :: dma_ok where
  "reliable = (\<lambda>_ _. True)"

lemma reliable_True: "reliable w loc"
  by (simp add: reliable_def)

text \<open>A bucket that is in the table at one of the \<open>k\<close> most recently used frames stays there.\<close>

definition pinned :: "nat \<Rightarrow> Dpu \<Rightarrow> bucket_id \<Rightarrow> frame_id \<Rightarrow> bool" where
  "pinned k d b f \<longleftrightarrow> bucket_table d b = Some f \<and> f \<in> set (take k (recency (replacer d)))"

definition prepares :: "nat \<Rightarrow> (bucket_id \<times> frame_id) list \<Rightarrow> Dpu \<Rightarrow> frame_id \<Rightarrow> Dpu \<Rightarrow> bool" where
  "prepares k ps d t d1 \<longleftrightarrow> prepared k ps t d1 \<and> same_geometry d d1 \<and>
     (\<forall>b. valid_id d b \<longrightarrow> bucket_view d1 b = bucket_view d b) \<and>
     (\<forall>b. bucket_table d b = None \<longrightarrow> bucket_table d1 b = None) \<and>
     (\<forall>b f. pinned k d b f \<longrightarrow> pinned k d1 b f)"

lemma claim_frame_free:
  assumes inv: "cache_inv k ps d" and fl: "free_list d = t # ts"
  shows "\<exists>d1. claim_frame reliable d b = (t, claim b t d1) \<and> prepares k ps d t d1"
proof -
  let ?d1 = "d\<lparr>free_list := ts, dirty_flag := (dirty_flag d)[nat t := False],
      bucket_table := (bucket_table d)(bucket_ids d ! nat t := None)\<rparr>"
  have "claim_frame reliable d b = (t, claim b t ?d1)"
    by (simp add: claim_frame_def fl claim_def)
  moreover have "pinned k ?d1 b' f" if "pinned k d b' f" for b' f
    using that prepare_free(3) [OF inv fl] unfolding pinned_def by simp
  moreover have "same_geometry d ?d1" by (simp add: same_geometry_def)
  ultimately show ?thesis
    using prepare_free [OF inv fl] unfolding prepares_def by (intro exI [of _ ?d1]) simp
qed

lemma claim_frame_evict:
  assumes inv: "cache_inv k ps d" and fl: "free_list d = []" and k: "k < CACHE_SIZE"
  shows "\<exists>t d1. claim_frame reliable d b = (t, claim b t d1) \<and> prepares k ps d t d1"
proof -
  let ?t = "fst (Evict (replacer d))"
  let ?rem = "if dirty_flag d ! nat ?t then (remote d)(GetClientBucket d (bucket_ids d ! nat ?t) := frame_at d ?t) else remote d"
  let ?d1 = "d\<lparr>replacer := snd (Evict (replacer d)), remote := ?rem, dirty_flag := (dirty_flag d)[nat ?t := False],
      bucket_table := (bucket_table d)(bucket_ids d ! nat ?t := None)\<rparr>"
  have g: "GetClientBucket (d\<lparr>replacer := r\<rparr>) = GetClientBucket d" for r by (simp add: GetClientBucket_def fun_eq_iff)
  have clean: "(dirty_flag d)[nat ?t := False] = dirty_flag d" if "\<not> dirty_flag d ! nat ?t"
    using that list_update_id [of "dirty_flag d" "nat ?t"] by simp
  have "claim_frame reliable d b = (?t, claim b ?t ?d1)"
  proof (cases "dirty_flag d ! nat ?t")
    case True
    then show ?thesis by (simp add: claim_frame_def fl claim_def FlushBucket_def Let_def g frame_at_def case_prod_beta reliable_True)
  next
    case False
    then show ?thesis by (simp add: claim_frame_def fl claim_def Let_def case_prod_beta clean)
  qed
  moreover have rok: "replacer_ok (replacer d)" and len: "length (recency (replacer d)) = CACHE_SIZE"
    using inv fl repl.distinct_order [of "replacer d"] distinct_card [of "recency (replacer d)"]
    by (auto simp: cache_inv_def frames_ok_def)
  then have ne: "recency (replacer d) \<noteq> []" and tab: "table_ok ps d" using inv by (auto simp: cache_inv_def)
  have "pinned k ?d1 b' f" if p: "pinned k d b' f" for b' f
  proof -
    have "f \<noteq> ?t" using p repl.evict_not_recent [OF rok, of k] k len by (auto simp: pinned_def)
    moreover have "bucket_ids d ! nat f = b'" "f \<in> set (recency (replacer d))"
      using p inv table_okD(1) [of ps d b' f] by (auto simp: pinned_def cache_inv_def)
    moreover note old = table_okD(2) [OF tab repl.evict_member [OF rok ne]]
    have pend: "bucket_table d (bucket_ids d ! nat ?t) = None" if "(bucket_ids d ! nat ?t, ?t) \<in> set ps"
      using table_okD(4) [OF tab that] by blast
    have "bucket_table d (bucket_ids d ! nat ?t) = Some ?t \<or> bucket_table d (bucket_ids d ! nat ?t) = None"
      by (rule disj_forward [OF old]) (assumption, erule pend)
    with calculation show ?thesis using p repl.take_evict [OF rok, of k] k len by (auto simp: pinned_def)
  qed
  moreover have "same_geometry d ?d1" by (simp add: same_geometry_def)
  ultimately have "claim_frame reliable d b = (?t, claim b ?t ?d1) \<and> prepares k ps d ?t ?d1"
    using prepare_evict [OF inv fl k] unfolding prepares_def by simp
  then show ?thesis by blast
qed

lemma claim_frame_ok:
  assumes "cache_inv k ps d" and "k < CACHE_SIZE"
  obtains t d1 where "claim_frame reliable d b = (t, claim b t d1)" "prepares k ps d t d1"
  using claim_frame_free [OF assms(1)] claim_frame_evict [OF assms(1) _ assms(2)] by (cases "free_list d") blast+

text \<open>What a step promises that may move buckets between host memory and frames: the buckets keep their
  contents.\<close>

definition moves_only :: "Dpu \<Rightarrow> Dpu \<Rightarrow> bool" where
  "moves_only d d' \<longleftrightarrow> same_geometry d d' \<and> (\<forall>b. valid_id d b \<longrightarrow> bucket_view d' b = bucket_view d b)"

lemma moves_only_refl [simp]: "moves_only d d"
  by (simp add: moves_only_def)

lemma moves_only_trans: "moves_only d d' \<Longrightarrow> moves_only d' d'' \<Longrightarrow> moves_only d d''"
  using same_geometry_trans [of d d' d''] same_geometryD(2) [of d d'] by (auto simp: moves_only_def)

lemma FetchBucket_ok:
  assumes inv: "cache_inv k ps d" and k: "k < CACHE_SIZE"
    and b: "valid_id d b" "bucket_table d b = None"
  obtains t d' where "FetchBucket reliable d b = ((True, t), d')" "cache_inv (Suc k) ((b, t) # ps) d'" "moves_only d d'"
    "\<And>b'. bucket_table d b' = None \<Longrightarrow> bucket_table d' b' = None" "\<And>b' f. pinned k d b' f \<Longrightarrow> pinned (Suc k) d' b' f"
    "frame_at d' t = bucket_view d b"
proof -
  obtain t d1 where c: "claim_frame reliable d b = (t, claim b t d1)" and pr: "prepares k ps d t d1"
    using claim_frame_ok [OF inv k] by blast
  let ?c = "claim b t d1"
  let ?x = "remote ?c (GetClientBucket ?c b)"
  let ?d = "?c\<lparr>cache := (cache ?c)[nat t := ?x]\<rparr>"
  have p: "prepared k ps t d1" and g1: "same_geometry d d1" using pr by (auto simp: prepares_def)
  have b1: "valid_id d1 b" "bucket_table d1 b = None" using b pr same_geometryD [OF g1] by (auto simp: prepares_def)
  note cl = prepared_claim [OF p b1]
  have g: "same_geometry ?c ?d" by (simp add: same_geometry_def)
  note gD = same_geometryD [OF g] and cD = same_geometryD [OF claim_sel(9) [of d1 b t]]
  have F: "FetchBucket reliable d b = ((True, t), ?d)"
    by (simp add: FetchBucket_def c dma_read_def Let_def reliable_True)
  have sel: "frame_at ?d f = (if f = t then ?x else frame_at ?c f)" if "f \<in> set (recency (replacer ?c))" for f
  proof -
    have "t \<in> set (recency (replacer ?c))" using cl(1) by (auto simp: frames_ok_def dest: in_set_takeD)
    from frame_at_upd [OF cl(1) this that] show ?thesis by (simp add: frame_at_def)
  qed
  have tf: "t \<in> set (recency (replacer ?c))" using cl(1) by (auto simp: frames_ok_def dest: in_set_takeD)
  have nt: "f \<noteq> t" if "bucket_table ?c b' = Some f" for b' f
    using table_okD(1) [OF cl(2) that] table_okD(4) [OF cl(2), of b t] that by auto
  have ntp: "f \<noteq> t" if "(b', f) \<in> set ps" for b' f
    using that p table_okD(4) [of ps d1 b' f] by (auto simp: prepared_def)
  have "frames_ok (Suc k) ((b, t) # ps) ?d" "table_ok ((b, t) # ps) ?d"
    using cl(1,2) unfolding frames_ok_def table_ok_def gD by simp_all
  moreover have "data_ok ((b, t) # ps) ?d"
    unfolding data_ok_def gD
  proof (intro conjI allI impI ballI)
    fix b' f assume tb: "bucket_table ?d b' = Some f"
    then have "f \<in> set (recency (replacer ?c))" "f \<noteq> t" using table_okD(1) [OF cl(2), of b' f] nt by auto
    then show "dirty_flag ?d ! nat f \<or> frame_at ?d f = remote ?d (GetClientBucket ?c b')"
      using sel [of f] data_okD(1) [OF cl(3), of b' f] tb by auto
  next
    fix q assume q: "q \<in> set ((b, t) # ps)"
    show "case q of (b', f) \<Rightarrow> frame_at ?d f = remote ?d (GetClientBucket ?c b') \<and> \<not> dirty_flag ?d ! nat f"
    proof (cases "q = (b, t)")
      case True
      then show ?thesis using sel [OF tf] p by (simp add: prepared_def)
    next
      case False
      then have "q \<in> set ps" using q by auto
      then show ?thesis
        using sel [of "snd q"] data_okD(2) [OF cl(3), of "fst q" "snd q"] ntp [of "fst q" "snd q"]
          table_okD(4) [OF cl(2), of "fst q" "snd q"] by (simp add: case_prod_beta)
    qed
  qed
  moreover have "geometry ?d" unfolding gD(1) cD(1) using p by (simp add: prepared_def)
  ultimately have inv': "cache_inv (Suc k) ((b, t) # ps) ?d" by (simp only: cache_inv_def)
  have v: "bucket_view ?d b' = bucket_view ?c b'" for b'
  proof (cases "bucket_table ?c b'")
    case (Some f)
    then show ?thesis using sel [of f] nt [OF Some] table_okD(1) [OF cl(2), of b' f] by (simp add: bucket_view_def)
  next
    case None
    then show ?thesis unfolding bucket_view_def gD by simp
  qed
  have view: "bucket_view ?d b' = bucket_view d b'" if "valid_id d b'" for b'
    using v [of b'] cl(4) pr that unfolding prepares_def by simp
  have mv: "moves_only d ?d"
    using g1 view same_geometry_trans [OF same_geometry_trans [OF g1 claim_sel(9)] g] by (simp add: moves_only_def)
  have N: "bucket_table ?d b' = None" if "bucket_table d b' = None" for b' using pr that by (simp add: prepares_def)
  have "pinned (Suc k) ?d b' f" if "pinned k d b' f" for b' f
  proof -
    have "pinned k d1 b' f" using that pr by (simp add: prepares_def)
    then show ?thesis using repl.recent_access [of "replacer d1" k t] p by (auto simp: pinned_def prepared_def)
  qed
  moreover have "frame_at ?d t = bucket_view d b"
    using sel [OF tf] view [OF b(1)] v [of b] b1(2) by (simp add: bucket_view_def)
  ultimately show thesis using that [OF F inv' mv N] by blast
qed

section \<open>Steps on cached buckets\<close>

lemma cache_inv_set:
  assumes "set ps = set ps'"
  shows "cache_inv k ps d = cache_inv k ps' d"
  unfolding cache_inv_def frames_ok_def table_ok_def data_ok_def assms ..

lemma cache_inv_coherent: "cache_inv k [] d \<longleftrightarrow> coherent d"
  by (simp add: coherent_def cache_inv_def frames_ok_def)

lemma record_access_ok:
  assumes inv: "cache_inv k ps d" and b: "bucket_table d b = Some f"
  shows "cache_inv (Suc k) ps (record_access d f)" and "bucket_view (record_access d f) = bucket_view d"
    and "pinned (Suc k) (record_access d f) b f"
    and "pinned k d b' f' \<Longrightarrow> pinned (Suc k) (record_access d f) b' f'"
    and "same_geometry d (record_access d f)" and "bucket_table (record_access d f) = bucket_table d"
proof -
  let ?r = "RecordAccess (replacer d) f"
  have fr: "frames_ok k ps d" and tab: "table_ok ps d" and dat: "data_ok ps d" and geo: "geometry d"
    using inv by (auto simp: cache_inv_def)
  have rok: "replacer_ok (replacer d)" using fr by (simp add: frames_ok_def)
  show g: "same_geometry d (record_access d f)" by (simp add: same_geometry_def record_access_def)
  note gD = same_geometryD [OF g]
  have f: "f \<in> set (recency (replacer d))" using table_okD(1) [OF tab b] by simp
  then have rs: "set (recency ?r) = set (recency (replacer d))" using repl.set_access [OF rok] by auto
  have sel: "frame_at (record_access d f) = frame_at d" "remote (record_access d f) = remote d"
    "bucket_ids (record_access d f) = bucket_ids d" "free_list (record_access d f) = free_list d"
    "replacer (record_access d f) = ?r" "dirty_flag (record_access d f) = dirty_flag d" "cache (record_access d f) = cache d"
    by (simp_all add: record_access_def frame_at_def fun_eq_iff)
  show tb: "bucket_table (record_access d f) = bucket_table d" by (simp add: record_access_def)
  have "frames_ok (Suc k) ps (record_access d f)"
    using fr repl.access_ok [OF rok, of f] repl.recent_access [OF rok, of k f] unfolding frames_ok_def sel rs by auto
  moreover have "table_ok ps (record_access d f)" using tab unfolding table_ok_def sel rs gD tb .
  moreover have "data_ok ps (record_access d f)" using dat unfolding data_ok_def sel gD tb .
  ultimately show "cache_inv (Suc k) ps (record_access d f)" using geo unfolding cache_inv_def gD by blast
  show "bucket_view (record_access d f) = bucket_view d" unfolding bucket_view_def sel gD tb ..
  show "pinned (Suc k) (record_access d f) b f"
    using b repl.access_ok [OF rok, of f] unfolding pinned_def tb sel by simp
  show "pinned k d b' f' \<Longrightarrow> pinned (Suc k) (record_access d f) b' f'"
    using repl.recent_access [OF rok, of k f] unfolding pinned_def tb sel by auto
qed

lemma set_table_ok:
  assumes inv: "cache_inv k ps d" and ps: "set ps = insert (b, f) (set ps')" and b: "b \<notin> fst ` set ps'"
  shows "cache_inv k ps' (set_table d b f)" and "moves_only d (set_table d b f)"
    and "bucket_table (set_table d b f) b = Some f"
    and "pinned k (set_table d b f) b f"
    and "pinned k d b' f' \<Longrightarrow> pinned k (set_table d b f) b' f'"
proof -
  have fr: "frames_ok k ps d" and tab: "table_ok ps d" and dat: "data_ok ps d" and geo: "geometry d"
    using inv by (auto simp: cache_inv_def)
  have g: "same_geometry d (set_table d b f)" by (simp add: same_geometry_def set_table_def)
  note gD = same_geometryD [OF g]
  have sel: "frame_at (set_table d b f) = frame_at d" "remote (set_table d b f) = remote d"
    "bucket_ids (set_table d b f) = bucket_ids d" "free_list (set_table d b f) = free_list d"
    "replacer (set_table d b f) = replacer d" "dirty_flag (set_table d b f) = dirty_flag d" "cache (set_table d b f) = cache d"
    "bucket_table (set_table d b f) = (bucket_table d)(b \<mapsto> f)"
    by (simp_all add: set_table_def frame_at_def fun_eq_iff)
  have new: "valid_id d b" "bucket_table d b = None" "f \<in> set (recency (replacer d))" "bucket_ids d ! nat f = b"
    using table_okD(4) [OF tab, of b f] ps by auto
  have newd: "frame_at d f = remote d (GetClientBucket d b)" using data_okD(2) [OF dat, of b f] ps by simp
  have "frames_ok k ps' (set_table d b f)" using fr ps unfolding frames_ok_def sel by auto
  moreover have "table_ok ps' (set_table d b f)"
    unfolding table_ok_def sel gD
  proof (intro conjI allI impI ballI)
    fix b' f' assume "((bucket_table d)(b \<mapsto> f)) b' = Some f'"
    then show "valid_id d b'" "f' \<in> set (recency (replacer d))" "bucket_ids d ! nat f' = b'"
      using new table_okD(1) [OF tab, of b' f'] by (auto split: if_splits)
  next
    fix f' assume "f' \<in> set (recency (replacer d))"
    from table_okD(2) [OF tab this] new(2) ps
    show "((bucket_table d)(b \<mapsto> f)) (bucket_ids d ! nat f') = Some f' \<or> (bucket_ids d ! nat f', f') \<in> set ps'" by auto
  next
    fix f' assume "f' \<in> set (free_list d)"
    then show "bucket_ids d ! nat f' = - 1" by (rule table_okD(3) [OF tab])
  next
    fix q assume q: "q \<in> set ps'"
    then have "fst q \<noteq> b" using b by auto
    then show "case q of (b', f') \<Rightarrow> valid_id d b' \<and> ((bucket_table d)(b \<mapsto> f)) b' = None \<and>
        f' \<in> set (recency (replacer d)) \<and> bucket_ids d ! nat f' = b'"
      using table_okD(4) [OF tab, of "fst q" "snd q"] q ps by (simp add: case_prod_beta)
  qed
  moreover have "data_ok ps' (set_table d b f)"
    using dat newd ps unfolding data_ok_def sel gD by auto
  ultimately show "cache_inv k ps' (set_table d b f)" using geo unfolding cache_inv_def gD by blast
  have "bucket_view (set_table d b f) = bucket_view d"
    using newd new(2) unfolding bucket_view_def sel gD by (auto simp: fun_eq_iff)
  then show "moves_only d (set_table d b f)" using g by (simp add: moves_only_def)
  show "bucket_table (set_table d b f) b = Some f" by (simp add: sel)
  have "f \<in> set (take k (recency (replacer d)))" using fr ps by (auto simp: frames_ok_def)
  then show "pinned k (set_table d b f) b f" by (simp add: pinned_def sel)
  show "pinned k d b' f' \<Longrightarrow> pinned k (set_table d b f) b' f'" using new(2) by (auto simp: pinned_def sel)
qed

text \<open>An operation on a bucket marks what it changes, never clears the mark, and changes nothing where it
  does not apply.\<close>

definition op_res :: "'r bucket_op \<Rightarrow> fixed_bucket \<Rightarrow> 'r option" where
  "op_res f x = fst (f x False)"

definition op_bucket :: "'r bucket_op \<Rightarrow> fixed_bucket \<Rightarrow> fixed_bucket" where
  "op_bucket f x = fst (snd (f x False))"

definition op_ok :: "'r bucket_op \<Rightarrow> bool" where
  "op_ok f \<longleftrightarrow> (\<forall>x dirty. fst (f x dirty) = op_res f x \<and> fst (snd (f x dirty)) = op_bucket f x \<and>
     (dirty \<or> op_bucket f x \<noteq> x \<longrightarrow> snd (snd (f x dirty))) \<and> (op_res f x = None \<longrightarrow> op_bucket f x = x))"

lemma apply_frame_ok:
  assumes inv: "cache_inv k ps d" and f: "op_ok f" and b: "bucket_table d b = Some fr"
  obtains d' where "apply_frame f d fr = (op_res f (bucket_view d b), d')" "cache_inv k ps d'" "same_geometry d d'"
    "bucket_view d' = (bucket_view d)(b := op_bucket f (bucket_view d b))" "bucket_table d' = bucket_table d"
    "\<And>b' f'. pinned k d b' f' \<Longrightarrow> pinned k d' b' f'"
proof -
  have fok: "frames_ok k ps d" and tab: "table_ok ps d" and dat: "data_ok ps d" and geo: "geometry d"
    using inv by (auto simp: cache_inv_def)
  let ?x = "frame_at d fr"
  let ?dirty = "snd (snd (f ?x (dirty_flag d ! nat fr)))"
  let ?d = "d\<lparr>cache := (cache d)[nat fr := op_bucket f ?x], dirty_flag := (dirty_flag d)[nat fr := ?dirty]\<rparr>"
  have op: "f ?x (dirty_flag d ! nat fr) = (op_res f ?x, op_bucket f ?x, ?dirty)"
    "dirty_flag d ! nat fr \<or> op_bucket f ?x \<noteq> ?x \<longrightarrow> ?dirty"
    using f [unfolded op_ok_def, THEN spec, THEN spec, of ?x "dirty_flag d ! nat fr"] by (simp_all add: prod_eq_iff)
  have v: "bucket_view d b = ?x" using b by (simp add: bucket_view_def)
  have A: "apply_frame f d fr = (op_res f (bucket_view d b), ?d)" unfolding apply_frame_def v by (subst op(1)) simp
  have g: "same_geometry d ?d" by (simp add: same_geometry_def)
  note gD = same_geometryD [OF g]
  have frr: "fr \<in> set (recency (replacer d))" and id: "bucket_ids d ! nat fr = b" using table_okD(1) [OF tab b] by auto
  have fa: "frame_at ?d h = (if h = fr then op_bucket f ?x else frame_at d h)" if "h \<in> set (recency (replacer d))" for h
    using frame_at_upd [OF fok frr that] by (simp add: frame_at_def)
  have df: "dirty_flag ?d ! nat h = (if h = fr then ?dirty else dirty_flag d ! nat h)" if "h \<in> set (recency (replacer d))" for h
    using frames_range [OF fok, of fr] frames_range [OF fok, of h] frr that fok
    by (auto simp: frames_ok_def nth_list_update eq_nat_nat_iff)
  have "data_ok ps ?d"
    unfolding data_ok_def gD
  proof (intro conjI allI impI ballI)
    fix b' h assume t: "bucket_table ?d b' = Some h"
    then have h: "h \<in> set (recency (replacer d))" "bucket_table d b' = Some h" "bucket_ids d ! nat h = b'"
      using table_okD(1) [OF tab, of b' h] by auto
    show "dirty_flag ?d ! nat h \<or> frame_at ?d h = remote ?d (GetClientBucket d b')"
    proof (cases "h = fr")
      case True
      then show ?thesis using fa [OF h(1)] df [OF h(1)] op(2) data_okD(1) [OF dat h(2)] by (cases ?dirty) simp_all
    next
      case False
      then show ?thesis using fa [OF h(1)] df [OF h(1)] data_okD(1) [OF dat h(2)] by simp blast
    qed
  next
    fix q assume q: "q \<in> set ps"
    then have h: "snd q \<in> set (recency (replacer d))" "snd q \<noteq> fr"
      using table_okD(4) [OF tab, of "fst q" "snd q"] b id by auto
    then show "case q of (b', h) \<Rightarrow> frame_at ?d h = remote ?d (GetClientBucket d b') \<and> \<not> dirty_flag ?d ! nat h"
      using fa [OF h(1)] df [OF h(1)] data_okD(2) [OF dat, of "fst q" "snd q"] q by (simp add: case_prod_beta)
  qed
  moreover have "frames_ok k ps ?d" "table_ok ps ?d" using fok tab unfolding frames_ok_def table_ok_def gD by simp_all
  ultimately have inv': "cache_inv k ps ?d" using geo unfolding cache_inv_def gD by blast
  have "bucket_view ?d b' = (if b' = b then op_bucket f ?x else bucket_view d b')" for b'
  proof (cases "bucket_table d b'")
    case None
    then show ?thesis using b unfolding bucket_view_def gD by auto
  next
    case (Some h)
    then have h: "h \<in> set (recency (replacer d))" "bucket_ids d ! nat h = b'" using table_okD(1) [OF tab Some] by simp_all
    then show ?thesis using fa [OF h(1)] Some id b by (cases "h = fr") (auto simp: bucket_view_def)
  qed
  then have view: "bucket_view ?d = (bucket_view d)(b := op_bucket f (bucket_view d b))" by (auto simp: v)
  show thesis by (rule that [OF A inv' g view]) (simp_all add: pinned_def)
qed

section \<open>Requests\<close>

text \<open>The effect of an operation that is tried on the buckets \<open>bs\<close>: it applies to none of them and nothing
  changes, or to one of them and this one changes.\<close>

definition acts :: "'r bucket_op \<Rightarrow> bucket_id list \<Rightarrow> Dpu \<Rightarrow> 'r option \<Rightarrow> Dpu \<Rightarrow> bool" where
  "acts f bs d r d' \<longleftrightarrow> same_geometry d d' \<and>
     (if r = None then (\<forall>b \<in> set bs. op_res f (bucket_view d b) = None) \<and> moves_only d d'
      else \<exists>b \<in> set bs. op_res f (bucket_view d b) = r \<and>
             (\<forall>b'. valid_id d b' \<longrightarrow>
                bucket_view d' b' = (if b' = b then op_bucket f (bucket_view d b) else bucket_view d b')))"

lemma acts_Nil: "moves_only d d' \<Longrightarrow> acts f [] d None d'"
  by (simp add: acts_def moves_only_def)

lemma acts_here:
  assumes "same_geometry d d'" and "b \<in> set bs" and "op_res f (bucket_view d b) = Some r"
    and "\<And>b'. valid_id d b' \<Longrightarrow> bucket_view d' b' = (if b' = b then op_bucket f (bucket_view d b) else bucket_view d b')"
  shows "acts f bs d (Some r) d'"
  using assms by (auto simp: acts_def)

lemma acts_moved:
  assumes "moves_only d d1" and "\<And>b. b \<in> set bs \<Longrightarrow> valid_id d b" and "acts f bs d1 r d'"
  shows "acts f bs d r d'"
proof -
  have g: "same_geometry d d1" "valid_id d1 = valid_id d" and v: "\<And>b. valid_id d b \<Longrightarrow> bucket_view d1 b = bucket_view d b"
    using assms(1) same_geometryD [of d d1] by (auto simp: moves_only_def)
  show ?thesis
  proof (cases r)
    case None
    then show ?thesis
      using assms v moves_only_trans [OF assms(1)] same_geometry_trans [OF g(1)] by (simp add: acts_def)
  next
    case (Some x)
    then obtain b where "b \<in> set bs" "op_res f (bucket_view d1 b) = Some x" "same_geometry d1 d'"
      "\<forall>b'. valid_id d1 b' \<longrightarrow> bucket_view d' b' = (if b' = b then op_bucket f (bucket_view d1 b) else bucket_view d1 b')"
      using assms(3) by (auto simp: acts_def)
    then show ?thesis
      unfolding Some using assms(2) [of b] g v same_geometry_trans [OF g(1), of d']
      by (intro acts_here [of _ _ b]) simp_all
  qed
qed

lemma acts_skip:
  assumes "acts f bs d r d'" and "op_res f (bucket_view d b) = None"
  shows "acts f (b # bs) d r d'"
  using assms by (auto simp: acts_def split: if_splits)

lemma moves_only_None:
  assumes "op_ok f" and "op_res f (bucket_view d b) = None" and "same_geometry d d'"
    and "bucket_view d' = (bucket_view d)(b := op_bucket f (bucket_view d b))"
  shows "moves_only d d'"
  using assms by (simp add: op_ok_def moves_only_def)

lemma moves_only_access: "cache_inv k ps d \<Longrightarrow> bucket_table d b = Some fr \<Longrightarrow> moves_only d (record_access d fr)"
  using record_access_ok(2,5) [of k ps d b fr] by (simp add: moves_only_def)

lemma try_cached_ok:
  assumes "coherent d" and f: "op_ok f" and "\<And>b. b \<in> set bs \<Longrightarrow> valid_id d b"
  shows "case try_cached f d bs tf of (r, tf', d') \<Rightarrow> coherent d' \<and>
    (if r = None then tf' = tf @ filter (\<lambda>b. bucket_table d b = None) bs \<and> bucket_table d' = bucket_table d \<and>
       acts f (filter (\<lambda>b. bucket_table d b \<noteq> None) bs) d None d'
     else acts f bs d r d')"
  using assms(1,3)
proof (induction bs arbitrary: d tf)
  case Nil
  then show ?case by (simp add: acts_Nil)
next
  case (Cons b bs)
  show ?case
  proof (cases "bucket_table d b")
    case None
    have "acts f bs d r d' \<Longrightarrow> r \<noteq> None \<Longrightarrow> acts f (b # bs) d r d'" for r d' by (auto simp: acts_def)
    then show ?thesis using None Cons.IH [OF Cons.prems(1), of "tf @ [b]"] Cons.prems(2) by (auto split: if_splits)
  next
    case (Some fr)
    let ?d = "record_access d fr"
    have inv: "cache_inv 0 [] d" using Cons.prems(1) by (simp add: coherent_def)
    note acc = record_access_ok [OF inv Some] and mv = moves_only_access [OF inv Some]
    have tb: "bucket_table ?d b = Some fr" using Some acc(6) by simp
    obtain d1 where A: "apply_frame f ?d fr = (op_res f (bucket_view ?d b), d1)" and i1: "cache_inv (Suc 0) [] d1"
      and g1: "same_geometry ?d d1" and v1: "bucket_view d1 = (bucket_view ?d)(b := op_bucket f (bucket_view ?d b))"
      and t1: "bucket_table d1 = bucket_table ?d"
      by (rule apply_frame_ok [OF acc(1) f tb]) blast
    have c1: "coherent d1" using i1 by (simp add: cache_inv_coherent)
    have g: "same_geometry d d1" by (rule same_geometry_trans [OF acc(5) g1])
    show ?thesis
    proof (cases "op_res f (bucket_view d b)")
      case (Some r)
      then have "acts f (b # bs) d (Some r) d1" using v1 acc(2) g by (intro acts_here [of _ _ b]) simp_all
      then show ?thesis using A c1 Some \<open>bucket_table d b = Some fr\<close> acc(2) by simp
    next
      case N: None
      have m: "moves_only d d1" using moves_only_trans [OF mv moves_only_None [OF f _ g1 v1]] N acc(2) by simp
      have "\<And>b'. b' \<in> set bs \<Longrightarrow> valid_id d1 b'" using Cons.prems(2) same_geometryD(2) [OF g] by simp
      note IH = Cons.IH [OF c1 this, of tf]
      have step: "try_cached f d (b # bs) tf = try_cached f d1 bs tf" using A N Some acc(2) by simp
      have lift: "acts f xs d1 r d' \<Longrightarrow> set xs \<subseteq> set bs \<Longrightarrow> acts f (b # xs) d r d'" for xs r d'
        using acts_skip [OF acts_moved [OF m, of xs f r d'] N] Cons.prems(2) by auto
      show ?thesis
        using IH lift Some t1 acc(6) unfolding step by (auto simp: case_prod_beta)
    qed
  qed
qed

lemma fetch_all_ok:
  assumes "cache_inv k ps d" and "k + length bs \<le> CACHE_SIZE" and "distinct bs"
    and "\<And>b. b \<in> set bs \<Longrightarrow> valid_id d b \<and> bucket_table d b = None"
  shows "\<exists>ts d'. fetch_all reliable d bs = (map (Pair True) ts, d') \<and> length ts = length bs \<and>
    cache_inv (k + length bs) (zip bs ts @ ps) d' \<and> moves_only d d'"
  using assms
proof (induction bs arbitrary: d k ps)
  case Nil
  then show ?case by simp
next
  case (Cons b bs)
  have k: "k < CACHE_SIZE" using Cons.prems(2) by simp
  have b: "valid_id d b" "bucket_table d b = None" using Cons.prems(4) [of b] by simp_all
  obtain t d1 where F: "FetchBucket reliable d b = ((True, t), d1)" and i1: "cache_inv (Suc k) ((b, t) # ps) d1"
    and m1: "moves_only d d1" and n1: "\<And>b'. bucket_table d b' = None \<Longrightarrow> bucket_table d1 b' = None"
    by (rule FetchBucket_ok [OF Cons.prems(1) k b]) blast
  have "valid_id d1 = valid_id d" using m1 same_geometryD(2) [of d d1] by (simp add: moves_only_def)
  then have "\<And>b'. b' \<in> set bs \<Longrightarrow> valid_id d1 b' \<and> bucket_table d1 b' = None" using Cons.prems(4) n1 by simp
  moreover have "Suc k + length bs \<le> CACHE_SIZE" "distinct bs" using Cons.prems(2,3) by simp_all
  ultimately obtain ts d2 where G: "fetch_all reliable d1 bs = (map (Pair True) ts, d2)" "length ts = length bs"
    and i2: "cache_inv (Suc k + length bs) (zip bs ts @ (b, t) # ps) d2" and m2: "moves_only d1 d2"
    using Cons.IH [OF i1] by blast
  have "cache_inv (k + length (b # bs)) (zip (b # bs) (t # ts) @ ps) d2"
    using i2 cache_inv_set [of "zip bs ts @ (b, t) # ps" "zip (b # bs) (t # ts) @ ps"] by simp
  then show ?case using F G moves_only_trans [OF m1 m2] by (intro exI [of _ "t # ts"] exI [of _ d2]) simp
qed

lemma try_fetched_ok:
  assumes f: "op_ok f" and "cache_inv k (zip bs ts) d" and "length ts = length bs" and "distinct bs"
    and "\<And>b. b \<in> set bs \<Longrightarrow> valid_id d b"
  shows "case try_fetched f d (zip bs (map (Pair True) ts)) of (r, d') \<Rightarrow>
    acts f bs d r d' \<and> (\<exists>ps. cache_inv k ps d') \<and> (r = None \<longrightarrow> coherent d')"
  using assms(3,2,4,5)
proof (induction ts bs arbitrary: d rule: list_induct2)
  case Nil
  then have "cache_inv k [] d" by simp
  then show ?case by (auto simp: acts_Nil simp flip: cache_inv_coherent [of k])
next
  case (Cons t ts b bs)
  let ?d = "set_table d b t"
  have "b \<notin> fst ` set (zip bs ts)" "set (zip (b # bs) (t # ts)) = insert (b, t) (set (zip bs ts))"
    using Cons.prems(2) by (auto dest: set_zip_leftD)
  note st = set_table_ok [OF Cons.prems(1) this(2,1)]
  have g0: "same_geometry d ?d" using st(2) by (simp add: moves_only_def)
  obtain d1 where A: "apply_frame f ?d t = (op_res f (bucket_view ?d b), d1)" and i1: "cache_inv k (zip bs ts) d1"
    and g1: "same_geometry ?d d1" and v1: "bucket_view d1 = (bucket_view ?d)(b := op_bucket f (bucket_view ?d b))"
    by (rule apply_frame_ok [OF st(1) f st(3)]) blast
  have g: "same_geometry d d1" by (rule same_geometry_trans [OF g0 g1])
  have vb: "bucket_view ?d b' = bucket_view d b'" if "valid_id d b'" for b' using st(2) that by (simp add: moves_only_def)
  note vbb = vb [OF Cons.prems(3) [of b], simplified]
  show ?case
  proof (cases "op_res f (bucket_view d b)")
    case (Some r)
    then have "acts f (b # bs) d (Some r) d1" using v1 vb vbb g by (intro acts_here [of _ _ b]) simp_all
    then show ?thesis using A i1 Some vbb by auto
  next
    case None
    have m: "moves_only d d1" using moves_only_trans [OF st(2) moves_only_None [OF f _ g1 v1]] None vbb by simp
    have "\<And>b'. b' \<in> set bs \<Longrightarrow> valid_id d1 b'" using Cons.prems(3) same_geometryD(2) [OF g] by simp
    note IH = Cons.IH [OF i1 _ this]
    have lift: "acts f bs d1 r d' \<Longrightarrow> acts f (b # bs) d r d'" for r d'
      using acts_skip [OF acts_moved [OF m, of bs f r d'] None] Cons.prems(3) by auto
    show ?thesis using IH Cons.prems(2) A None vbb lift by (auto simp: case_prod_beta)
  qed
qed

lemma Get4Buckets_distinct:
  assumes "geometry d"
  shows "distinct (Get4Buckets d h1 h2)" and "length (Get4Buckets d h1 h2) = 4"
proof -
  obtain q where q: "0 < q" "dpu_bl_capacity d = 4 * q" "dpu_addr_capacity d = 8 * q"
    using assms by (auto simp: geometry_def)
  have dv: "8 * q div 2 = 4 * q" "8 * q div 4 = 2 * q" by simp_all
  define x1 x2 y1 y2 where "x1 = unat h1 mod (4 * q)" and "x2 = unat h2 mod (4 * q)"
    and "y1 = unat h1 mod (2 * q)" and "y2 = unat h2 mod (2 * q)"
  note defs = this
  have "x1 < 4 * q" "y1 < 2 * q" "y2 < 2 * q" using q(1) unfolding defs by simp_all
  then show "distinct (Get4Buckets d h1 h2)"
    unfolding Get4Buckets_def Let_def q dv defs [symmetric] by auto
  show "length (Get4Buckets d h1 h2) = 4" by (simp add: Get4Buckets_def Let_def)
qed

lemma acts_append:
  assumes m: "acts f bs d None d1" and "acts f cs d1 r d'" and "set bs \<union> set cs = set xs"
    and "\<And>b. b \<in> set xs \<Longrightarrow> valid_id d b"
  shows "acts f xs d r d'"
proof -
  have "moves_only d d1" using m by (simp add: acts_def)
  then have "acts f cs d r d'" using acts_moved [of d d1 cs f r d'] assms by auto
  then show ?thesis using m assms(3) by (auto simp: acts_def split: if_splits)
qed

text \<open>After the cached buckets have been tried, the others are fetched.\<close>

lemma fetch_missing:
  assumes coh: "coherent d" and f: "op_ok f" and tc: "try_cached f d (Get4Buckets d h1 h2) [] = (None, tf, d1)"
  obtains ts d2 hit where "fetch_all reliable d1 tf = (map (Pair True) ts, d2)" "length ts = length tf" "distinct tf"
    "cache_inv (length tf) (zip tf ts) d2" "acts f hit d None d2" "set hit \<union> set tf = set (Get4Buckets d h1 h2)"
    "\<And>b. b \<in> set tf \<Longrightarrow> valid_id d2 b"
proof -
  let ?bs = "Get4Buckets d h1 h2"
  let ?hit = "filter (\<lambda>b. bucket_table d b \<noteq> None) ?bs"
  have geo: "geometry d" using coh by (simp add: coherent_def cache_inv_def)
  have valid: "\<And>b. b \<in> set ?bs \<Longrightarrow> valid_id d b" by (rule Get4Buckets_valid [OF geo])
  note c = try_cached_ok [OF coh f valid, of ?bs "[]", unfolded tc, simplified]
  then have tf: "tf = filter (\<lambda>b. bucket_table d b = None) ?bs" and a1: "acts f ?hit d None d1"
    and t1: "bucket_table d1 = bucket_table d" and i1: "cache_inv 0 [] d1" by (simp_all add: coherent_def)
  have m1: "moves_only d d1" and g1: "valid_id d1 = valid_id d"
    using a1 same_geometryD(2) [of d d1] by (simp_all add: acts_def)
  have dis: "distinct tf" and len: "0 + length tf \<le> CACHE_SIZE"
    using Get4Buckets_distinct [OF geo] length_filter_le [of "\<lambda>b. bucket_table d b = None" ?bs] by (simp_all add: tf)
  have ok: "valid_id d1 b \<and> bucket_table d1 b = None" if "b \<in> set tf" for b using that valid g1 t1 by (simp add: tf)
  from fetch_all_ok [OF i1 len dis ok]
  obtain ts d2 where F: "fetch_all reliable d1 tf = (map (Pair True) ts, d2)" "length ts = length tf"
    and i2: "cache_inv (length tf) (zip tf ts) d2" and m2: "moves_only d1 d2" by auto
  have a2: "acts f ?hit d None d2"
    using a1 moves_only_trans [OF m1 m2] by (simp add: acts_def moves_only_def)
  have "\<And>b. b \<in> set tf \<Longrightarrow> valid_id d2 b" using ok m2 same_geometryD(2) [of d1 d2] by (simp add: moves_only_def)
  moreover have "set ?hit \<union> set tf = set ?bs" unfolding tf by auto
  ultimately show thesis using that [OF F dis i2 a2] by blast
qed

text \<open>Deletion and update: the cached buckets first, then the others.\<close>

lemma process_with_ok:
  assumes coh: "coherent d" and f: "op_ok f"
  shows "case process_with f reliable d request of (r, d') \<Rightarrow>
    acts f (Get4Buckets d (hash1 request) (hash2 request)) d (if r then Some () else None) d' \<and>
    (\<exists>k ps. cache_inv k ps d') \<and> (\<not> r \<longrightarrow> coherent d')"
proof -
  let ?bs = "Get4Buckets d (hash1 request) (hash2 request)"
  have geo: "geometry d" using coh by (simp add: coherent_def cache_inv_def)
  have valid: "\<And>b. b \<in> set ?bs \<Longrightarrow> valid_id d b" by (rule Get4Buckets_valid [OF geo])
  obtain r1 tf d1 where tc: "try_cached f d ?bs [] = (r1, tf, d1)" by (cases "try_cached f d ?bs []") blast
  show ?thesis
  proof (cases r1)
    case (Some u)
    then show ?thesis
      using try_cached_ok [OF coh f valid, of ?bs "[]"] tc by (auto simp: process_with_def coherent_def)
  next
    case None
    obtain ts d2 hit where F: "fetch_all reliable d1 tf = (map (Pair True) ts, d2)" "length ts = length tf"
      and dis: "distinct tf" and i2: "cache_inv (length tf) (zip tf ts) d2" and a2: "acts f hit d None d2"
      and un: "set hit \<union> set tf = set ?bs" and v2: "\<And>b. b \<in> set tf \<Longrightarrow> valid_id d2 b"
      by (rule fetch_missing [OF coh f tc [unfolded None]]) blast
    obtain r d3 where T: "try_fetched f d2 (zip tf (map (Pair True) ts)) = (r, d3)" by fastforce
    note tf2 = try_fetched_ok [OF f i2 F(2) dis v2, unfolded T, simplified]
    then have "acts f ?bs d r d3" using acts_append [OF a2 _ un valid, of r d3] by simp
    then show ?thesis using tf2 T F tc None by (cases r) (auto simp: process_with_def)
  qed
qed

lemma search_fetched_ok:
  assumes "cache_inv k (zip bs ts) d" and "length ts = length bs" and "distinct bs" and "\<And>b. b \<in> set bs \<Longrightarrow> valid_id d b"
  shows "case search_fetched key d (zip bs (map (Pair True) ts)) s of (r, d') \<Rightarrow> coherent d' \<and> moves_only d d' \<and>
    (if s \<noteq> None then r = s
     else case r of None \<Rightarrow> \<forall>b \<in> set bs. SearchSlot (bucket_view d b) key = None
          | Some v \<Rightarrow> \<exists>b \<in> set bs. SearchSlot (bucket_view d b) key = Some v)"
  using assms(2,1,3,4)
proof (induction ts bs arbitrary: d s rule: list_induct2)
  case Nil
  then show ?case by (auto simp: cache_inv_coherent)
next
  case (Cons t ts b bs)
  let ?d = "set_table d b t"
  have "b \<notin> fst ` set (zip bs ts)" "set (zip (b # bs) (t # ts)) = insert (b, t) (set (zip bs ts))"
    using Cons.prems(2) by (auto dest: set_zip_leftD)
  note st = set_table_ok [OF Cons.prems(1) this(2,1)]
  have g: "valid_id ?d = valid_id d" using st(2) same_geometryD(2) [of d ?d] by (simp add: moves_only_def)
  have v: "bucket_view ?d b' = bucket_view d b'" if "b' \<in> set (b # bs)" for b'
    using st(2) Cons.prems(3) [OF that] by (simp add: moves_only_def)
  have fa: "frame_at d t = bucket_view d b"
    using v [of b] st(3) by (simp add: bucket_view_def set_table_def frame_at_def)
  let ?s = "if s = None then SearchSlot (frame_at d t) key else s"
  obtain r d' where R: "search_fetched key ?d (zip bs (map (Pair True) ts)) ?s = (r, d')" by fastforce
  have IH: "coherent d'" "moves_only ?d d'" "if ?s \<noteq> None then r = ?s
     else case r of None \<Rightarrow> \<forall>b \<in> set bs. SearchSlot (bucket_view ?d b) key = None
          | Some v \<Rightarrow> \<exists>b \<in> set bs. SearchSlot (bucket_view ?d b) key = Some v"
    using Cons.IH [OF st(1), of ?s] Cons.prems(2,3) R g by auto
  have res: "search_fetched key d (zip (b # bs) (map (Pair True) (t # ts))) s = (r, d')" using R by simp
  show ?case
    unfolding res using IH moves_only_trans [OF st(2) IH(2)] v fa by (auto split: if_splits option.splits)
qed

lemma op_ok_search: "op_ok (search_op key)"
  by (simp add: op_ok_def search_op_def op_res_def op_bucket_def)

lemma op_ok_delete: "op_ok (delete_op key)"
  by (auto simp: op_ok_def delete_op_def op_res_def op_bucket_def DeleteSlot_def split: option.splits)

lemma op_ok_update: "op_ok (update_op key val)"
  by (auto simp: op_ok_def update_op_def op_res_def op_bucket_def UpdateSlot_def split: option.splits)

lemma op_ok_insert: "op_ok (insert_op key val)"
  by (auto simp: op_ok_def insert_op_def op_res_def op_bucket_def InsertSlot_def split: option.splits)

lemma op_res_search: "op_res (search_op key) x = SearchSlot x key"
  by (simp add: op_res_def search_op_def)

lemma ProcessSearch_ok:
  assumes coh: "coherent d"
  shows "case ProcessSearch reliable d request of (r, d') \<Rightarrow> coherent d' \<and> moves_only d d' \<and>
    (case r of
       None \<Rightarrow> \<forall>b \<in> set (Get4Buckets d (hash1 request) (hash2 request)). SearchSlot (bucket_view d b) (req_key request) = None
     | Some s \<Rightarrow> \<exists>b \<in> set (Get4Buckets d (hash1 request) (hash2 request)). \<exists>v.
         SearchSlot (bucket_view d b) (req_key request) = Some v \<and> s = ToString 15 v)"
proof -
  let ?bs = "Get4Buckets d (hash1 request) (hash2 request)"
  let ?f = "search_op (req_key request)"
  have geo: "geometry d" using coh by (simp add: coherent_def cache_inv_def)
  have valid: "\<And>b. b \<in> set ?bs \<Longrightarrow> valid_id d b" by (rule Get4Buckets_valid [OF geo])
  obtain r1 tf d1 where tc: "try_cached ?f d ?bs [] = (r1, tf, d1)"
    by (cases "try_cached ?f d ?bs []") blast
  show ?thesis
  proof (cases r1)
    case (Some v)
    then have "acts ?f ?bs d (Some v) d1" "coherent d1"
      using try_cached_ok [OF coh op_ok_search [of "req_key request"] valid, of ?bs "[]"] tc by auto
    then obtain b where "b \<in> set ?bs" "SearchSlot (bucket_view d b) (req_key request) = Some v" "coherent d1" "moves_only d d1"
      by (auto simp: acts_def op_res_search op_bucket_def search_op_def moves_only_def)
    then show ?thesis using tc Some by (auto simp: ProcessSearch_def)
  next
    case None
    obtain ts d2 hit where F: "fetch_all reliable d1 tf = (map (Pair True) ts, d2)" "length ts = length tf"
      and dis: "distinct tf" and i2: "cache_inv (length tf) (zip tf ts) d2" and a2: "acts ?f hit d None d2"
      and un: "set hit \<union> set tf = set ?bs" and v2: "\<And>b. b \<in> set tf \<Longrightarrow> valid_id d2 b"
      by (rule fetch_missing [OF coh op_ok_search tc [unfolded None]]) blast
    obtain r d3 where S: "search_fetched (req_key request) d2 (zip tf (map (Pair True) ts)) None = (r, d3)" by fastforce
    note s = search_fetched_ok [OF i2 F(2) dis v2, where key = "req_key request" and s = None, unfolded S, simplified]
    have m2: "moves_only d d2" and n2: "\<And>b. b \<in> set hit \<Longrightarrow> SearchSlot (bucket_view d b) (req_key request) = None"
      using a2 by (simp_all add: acts_def op_res_search)
    have m3: "moves_only d d3" using moves_only_trans [OF m2] s by auto
    have v: "bucket_view d2 b = bucket_view d b" if "b \<in> set tf" for b
      using m2 valid that un by (auto simp: moves_only_def)
    have "case r of None \<Rightarrow> \<forall>b \<in> set ?bs. SearchSlot (bucket_view d b) (req_key request) = None
        | Some v \<Rightarrow> \<exists>b \<in> set ?bs. SearchSlot (bucket_view d b) (req_key request) = Some v"
    proof (cases r)
      case None
      then show ?thesis using s n2 v un by (auto simp flip: un)
    next
      case (Some w)
      then show ?thesis using s v un by (auto simp flip: un)
    qed
    moreover have "ProcessSearch reliable d request = (map_option (ToString 15) r, d3)"
      using tc None F(1) S by (simp add: ProcessSearch_def)
    ultimately show ?thesis using s m3 by (cases r) auto
  qed
qed

section \<open>Insertion into one of two buckets\<close>

text \<open>What is pending for a bucket after \<open>frame_or_fetch\<close>.\<close>

definition awaits :: "bucket_id \<Rightarrow> bool option \<times> frame_id \<Rightarrow> (bucket_id \<times> frame_id) list" where
  "awaits b p = (if fst p = None then [] else [(b, snd p)])"

definition located :: "nat \<Rightarrow> Dpu \<Rightarrow> bucket_id \<Rightarrow> bool option \<times> frame_id \<Rightarrow> bool" where
  "located k d b p \<longleftrightarrow> fst p \<noteq> Some False \<and> (fst p = None \<longrightarrow> pinned k d b (snd p))"

lemma frame_or_fetch_ok:
  assumes inv: "cache_inv k ps d" and k: "k < CACHE_SIZE" and b: "valid_id d b"
  obtains p d1 where "frame_or_fetch reliable d b = (p, d1)" "cache_inv (Suc k) (awaits b p @ ps) d1" "located (Suc k) d1 b p"
    "moves_only d d1" "\<And>b' p'. located k d b' p' \<Longrightarrow> located (Suc k) d1 b' p'"
proof (cases "bucket_table d b")
  case (Some f)
  show ?thesis
  proof (rule that)
    show "frame_or_fetch reliable d b = ((None, f), record_access d f)" by (simp add: frame_or_fetch_def Some)
    show "cache_inv (Suc k) (awaits b (None, f) @ ps) (record_access d f)"
      using record_access_ok(1) [OF inv Some] by (simp add: awaits_def)
    show "located (Suc k) (record_access d f) b (None, f)" using record_access_ok(3) [OF inv Some] by (simp add: located_def)
    show "moves_only d (record_access d f)" by (rule moves_only_access [OF inv Some])
    show "\<And>b' p'. located k d b' p' \<Longrightarrow> located (Suc k) (record_access d f) b' p'"
      using record_access_ok(4) [OF inv Some] by (simp add: located_def)
  qed
next
  case None
  obtain t d1 where F: "FetchBucket reliable d b = ((True, t), d1)" and i: "cache_inv (Suc k) ((b, t) # ps) d1"
    and m: "moves_only d d1" and P: "\<And>b' f. pinned k d b' f \<Longrightarrow> pinned (Suc k) d1 b' f"
    by (rule FetchBucket_ok [OF inv k b None]) blast
  show ?thesis
    by (rule that [of "(Some True, t)" d1])
      (use F i m P None in \<open>simp_all add: frame_or_fetch_def awaits_def located_def\<close>)
qed

lemma settle_ok:
  assumes inv: "cache_inv k qs d" and qs: "set qs = set (awaits b p) \<union> set ps" and loc: "located k d b p"
    and b: "b \<notin> fst ` set ps"
  obtains d1 where "settle d b p = Some d1" "cache_inv k ps d1" "pinned k d1 b (snd p)" "moves_only d d1"
    "\<And>b' f. pinned k d b' f \<Longrightarrow> pinned k d1 b' f"
proof (cases "fst p")
  case None
  show ?thesis
    by (rule that [of d]) (use None loc inv qs cache_inv_set [of qs ps k d] in
        \<open>simp_all add: settle_def located_def awaits_def case_prod_beta\<close>)
next
  case (Some s)
  then have p: "p = (Some True, snd p)" using loc by (cases p) (auto simp: located_def)
  have "set qs = insert (b, snd p) (set ps)" using qs Some by (simp add: awaits_def)
  note st = set_table_ok [OF inv this b]
  show ?thesis
    by (rule that [OF _ st(1,4,2)]) (subst p, simp add: settle_def, rule st(5))
qed

lemma located_pinned: "located k d b p \<Longrightarrow> (\<And>f. pinned k d b f \<Longrightarrow> pinned k d1 b f) \<Longrightarrow> located k d1 b p"
  by (simp add: located_def)

lemma two_buckets:
  assumes coh: "coherent d" and b: "valid_id d b0" "valid_id d b1" "b0 \<noteq> b1"
  obtains p0 p1 d1 d2 d3 d4 where "frame_or_fetch reliable d b0 = (p0, d1)" "frame_or_fetch reliable d1 b1 = (p1, d2)"
    "settle d2 b0 p0 = Some d3" "settle d3 b1 p1 = Some d4" "coherent d4" "moves_only d d4"
    "bucket_table d4 b0 = Some (snd p0)" "bucket_table d4 b1 = Some (snd p1)"
proof -
  have i0: "cache_inv 0 [] d" and c: "0 < CACHE_SIZE" "Suc 0 < CACHE_SIZE" using coh by (simp_all add: coherent_def)
  obtain p0 d1 where F0: "frame_or_fetch reliable d b0 = (p0, d1)" and i1: "cache_inv (Suc 0) (awaits b0 p0 @ []) d1"
    and l1: "located (Suc 0) d1 b0 p0" and m1: "moves_only d d1"
    by (rule frame_or_fetch_ok [OF i0 c(1) b(1)]) blast
  have v1: "valid_id d1 b1" using m1 same_geometryD(2) [of d d1] b(2) by (simp add: moves_only_def)
  obtain p1 d2 where F1: "frame_or_fetch reliable d1 b1 = (p1, d2)"
    and i2: "cache_inv (Suc (Suc 0)) (awaits b1 p1 @ awaits b0 p0 @ []) d2"
    and l2: "located (Suc (Suc 0)) d2 b1 p1" "located (Suc (Suc 0)) d2 b0 p0" and m2: "moves_only d1 d2"
    by (rule frame_or_fetch_ok [OF i1 c(2) v1]) (blast intro: l1)
  have s0: "set (awaits b1 p1 @ awaits b0 p0 @ []) = set (awaits b0 p0) \<union> set (awaits b1 p1)" by auto
  have n0: "b0 \<notin> fst ` set (awaits b1 p1)" using b(3) by (auto simp: awaits_def)
  obtain d3 where S0: "settle d2 b0 p0 = Some d3" and i3: "cache_inv (Suc (Suc 0)) (awaits b1 p1) d3"
    and q3: "pinned (Suc (Suc 0)) d3 b0 (snd p0)" and m3: "moves_only d2 d3"
    and P3: "\<And>b' f. pinned (Suc (Suc 0)) d2 b' f \<Longrightarrow> pinned (Suc (Suc 0)) d3 b' f"
    by (rule settle_ok [OF i2 s0 l2(2) n0]) blast
  have l3: "located (Suc (Suc 0)) d3 b1 p1" by (rule located_pinned [OF l2(1) P3])
  have s1: "set (awaits b1 p1) = set (awaits b1 p1) \<union> set []" by simp
  have n1: "b1 \<notin> fst ` set []" by simp
  obtain d4 where S1: "settle d3 b1 p1 = Some d4" and i4: "cache_inv (Suc (Suc 0)) [] d4"
    and q4: "pinned (Suc (Suc 0)) d4 b1 (snd p1)" and m4: "moves_only d3 d4"
    and P4: "\<And>b' f. pinned (Suc (Suc 0)) d3 b' f \<Longrightarrow> pinned (Suc (Suc 0)) d4 b' f"
    by (rule settle_ok [OF i3 s1 l3 n1]) blast
  have "moves_only d d4" by (rule moves_only_trans [OF moves_only_trans [OF moves_only_trans [OF m1 m2] m3] m4])
  moreover have "coherent d4" using i4 by (simp add: cache_inv_coherent)
  moreover have "bucket_table d4 b0 = Some (snd p0)" "bucket_table d4 b1 = Some (snd p1)"
    using P4 [OF q3] q4 by (simp_all add: pinned_def)
  ultimately show thesis using that F0 F1 S0 S1 by blast
qed

lemma tryInsert_ok:
  fixes request :: Request
  assumes coh: "coherent d" and b: "valid_id d b0" "valid_id d b1" "b0 \<noteq> b1"
  defines "b \<equiv> if Count (bucket_view d b0) > Count (bucket_view d b1) then b1 else b0"
  defines "f \<equiv> insert_op (req_key request) (req_value request)"
  shows "case tryInsertInto2Buckets reliable d request b0 b1 of (r, d') \<Rightarrow>
    coherent d' \<and> same_geometry d d' \<and> r = (op_res f (bucket_view d b) \<noteq> None) \<and>
    (\<forall>b'. valid_id d b' \<longrightarrow> bucket_view d' b' = (if b' = b then op_bucket f (bucket_view d b) else bucket_view d b'))"
proof -
  obtain p0 p1 d1 d2 d3 d4 where F: "frame_or_fetch reliable d b0 = (p0, d1)" "frame_or_fetch reliable d1 b1 = (p1, d2)"
    and S: "settle d2 b0 p0 = Some d3" "settle d3 b1 p1 = Some d4" and c4: "coherent d4" and m4: "moves_only d d4"
    and t4: "bucket_table d4 b0 = Some (snd p0)" "bucket_table d4 b1 = Some (snd p1)"
    by (rule two_buckets [OF coh b]) blast
  have v4: "bucket_view d4 b' = bucket_view d b'" if "valid_id d b'" for b' using m4 that by (simp add: moves_only_def)
  have fr: "frame_at d4 (snd p0) = bucket_view d b0" "frame_at d4 (snd p1) = bucket_view d b1"
    using v4 [OF b(1)] v4 [OF b(2)] t4 by (simp_all add: bucket_view_def)
  let ?fr = "if Count (frame_at d4 (snd p0)) > Count (frame_at d4 (snd p1)) then snd p1 else snd p0"
  have tb: "bucket_table d4 b = Some ?fr" unfolding b_def fr using t4 by simp
  have vb: "valid_id d b" using b by (simp add: b_def)
  have i4: "cache_inv 0 [] d4" using c4 by (simp add: coherent_def)
  obtain d5 where A: "apply_frame f d4 ?fr = (op_res f (bucket_view d4 b), d5)" and i5: "cache_inv 0 [] d5"
    and g5: "same_geometry d4 d5" and v5: "bucket_view d5 = (bucket_view d4)(b := op_bucket f (bucket_view d4 b))"
    by (rule apply_frame_ok [OF i4 op_ok_insert [of "req_key request" "req_value request", folded f_def] tb]) blast
  have R: "tryInsertInto2Buckets reliable d request b0 b1 = (op_res f (bucket_view d b) \<noteq> None, d5)"
    using A v4 [OF vb] unfolding tryInsertInto2Buckets_def F S f_def [symmetric] by (simp add: F S Let_def)
  have "same_geometry d d5" using m4 same_geometry_trans [OF _ g5] by (simp add: moves_only_def)
  then show ?thesis unfolding R using i5 v5 v4 vb by (simp add: coherent_def)
qed

end
