(* ===== verification/DpuProps.thy ===== *)
theory DpuProps
  imports DpuCoherence
begin

text \<open>
  What the store on the DPU promises: the requests of the worker (\<open>DpuCache\<close>) act on the buckets of the
  table as if there were no cache, as long as the transfers succeed.
\<close>

section \<open>Requests on the items\<close>

text \<open>Every bucket of the two levels is well formed.\<close>

definition store_ok :: "Dpu \<Rightarrow> bool" where
  "store_ok d \<longleftrightarrow> (\<forall>b. valid_id d b \<longrightarrow> fixed_ok (bucket_view d b))"

lemma store_okD: "store_ok d \<Longrightarrow> valid_id d b \<Longrightarrow> fixed_ok (bucket_view d b)"
  by (simp add: store_ok_def)

lemma op_delete:
  assumes "fixed_ok x"
  shows "case SearchSlot x key of
      None \<Rightarrow> op_res (delete_op key) x = None
    | Some v \<Rightarrow> op_res (delete_op key) x = Some () \<and>
        fixed_items x = add_mset (key, v) (fixed_items (op_bucket (delete_op key) x)) \<and> fixed_ok (op_bucket (delete_op key) x)"
  using DeleteSlot_ok [OF assms, where key = key and d = False]
  by (auto simp: op_res_def op_bucket_def delete_op_def case_prod_beta split: option.splits)

lemma op_update:
  assumes "fixed_ok x"
  shows "case SearchSlot x key of
      None \<Rightarrow> op_res (update_op key val) x = None
    | Some v \<Rightarrow> op_res (update_op key val) x = Some () \<and>
        add_mset (key, v) (fixed_items (op_bucket (update_op key val) x)) = add_mset (key, val) (fixed_items x) \<and>
        fixed_ok (op_bucket (update_op key val) x)"
  using UpdateSlot_ok [OF assms, where key = key and val = val and d = False]
  by (auto simp: op_res_def op_bucket_def update_op_def case_prod_beta split: option.splits)

lemma op_insert:
  assumes "fixed_ok x"
  shows "if Count x < FIXED_ASSOC
    then op_res (insert_op key val) x = Some () \<and>
      fixed_items (op_bucket (insert_op key val) x) = add_mset (key, val) (fixed_items x) \<and>
      fixed_ok (op_bucket (insert_op key val) x)
    else op_res (insert_op key val) x = None \<and> op_bucket (insert_op key val) x = x"
  using InsertSlot_ok [OF assms, where key = key and val = val and d = False]
  by (auto simp: op_res_def op_bucket_def insert_op_def case_prod_beta split: if_splits)

lemma Get4Buckets_conv:
  assumes "geometry d"
  obtains b0 b1 b2 b3 where "Get4Buckets d h1 h2 = [b0, b1, b2, b3]" "distinct [b0, b1, b2, b3]"
    "valid_id d b0" "valid_id d b1" "valid_id d b2" "valid_id d b3"
proof -
  obtain b0 b1 b2 b3 where b: "Get4Buckets d h1 h2 = [b0, b1, b2, b3]"
    using Get4Buckets_distinct(2) [OF assms, of h1 h2] by (auto simp: length_4_conv)
  then show thesis
    using that [OF b] Get4Buckets_distinct(1) [OF assms, of h1 h2] Get4Buckets_valid [OF assms, of _ h1 h2] by simp
qed

lemma Count_min_full:
  assumes "fixed_ok x" and "fixed_ok y"
  shows "Count (if Count x > Count y then y else x) < FIXED_ASSOC \<longleftrightarrow> Count x < FIXED_ASSOC \<or> Count y < FIXED_ASSOC"
proof -
  have "Count z \<le> FIXED_ASSOC" if "fixed_ok z" for z
    using length_filter_le [of "\<lambda>i. fx_token z ! i = 1" "[0..<FIXED_ASSOC]"] by (simp add: Count_def)
  from this [OF assms(1)] this [OF assms(2)] show ?thesis by auto
qed

text \<open>One item is added to one of the buckets \<open>bs\<close>.\<close>

definition adds_item :: "u8 list \<Rightarrow> u8 list \<Rightarrow> bucket_id list \<Rightarrow> Dpu \<Rightarrow> Dpu \<Rightarrow> bool" where
  "adds_item key val bs d d' \<longleftrightarrow> same_geometry d d' \<and>
     (\<exists>b \<in> set bs. fixed_items (bucket_view d' b) = add_mset (key, val) (fixed_items (bucket_view d b)) \<and>
        fixed_ok (bucket_view d' b) \<and> (\<forall>b'. valid_id d b' \<and> b' \<noteq> b \<longrightarrow> bucket_view d' b' = bucket_view d b'))"

lemma tryInsert_items:
  assumes coh: "coherent d" and st: "store_ok d" and b: "valid_id d b0" "valid_id d b1" "b0 \<noteq> b1"
  shows "case tryInsertInto2Buckets reliable d request b0 b1 of (r, d') \<Rightarrow> coherent d' \<and>
    r = (Count (bucket_view d b0) < FIXED_ASSOC \<or> Count (bucket_view d b1) < FIXED_ASSOC) \<and>
    (if r then adds_item (req_key request) (req_value request) [b0, b1] d d' else moves_only d d')"
proof -
  define c where "c = (if Count (bucket_view d b0) > Count (bucket_view d b1) then b1 else b0)"
  let ?f = "insert_op (req_key request) (req_value request)"
  have vb: "valid_id d c" using b by (simp add: c_def)
  have full: "Count (bucket_view d c) < FIXED_ASSOC \<longleftrightarrow>
      Count (bucket_view d b0) < FIXED_ASSOC \<or> Count (bucket_view d b1) < FIXED_ASSOC"
    using Count_min_full [OF store_okD [OF st b(1)] store_okD [OF st b(2)]] by (simp add: c_def split: if_splits)
  note op = op_insert [OF store_okD [OF st vb], of "req_key request" "req_value request"]
  obtain r d' where R: "tryInsertInto2Buckets reliable d request b0 b1 = (r, d')" by fastforce
  have T: "coherent d'" "same_geometry d d'" "r = (op_res ?f (bucket_view d c) \<noteq> None)"
    "\<And>b'. valid_id d b' \<Longrightarrow> bucket_view d' b' = (if b' = c then op_bucket ?f (bucket_view d c) else bucket_view d b')"
    using tryInsert_ok [OF coh b, of request] R unfolding c_def by auto
  show ?thesis
  proof (cases "Count (bucket_view d c) < FIXED_ASSOC")
    case True
    have mem: "c \<in> set [b0, b1]" by (simp add: c_def)
    have view: "bucket_view d' c = op_bucket ?f (bucket_view d c)" using T(4) [OF vb] by simp
    have others: "\<forall>b'. valid_id d b' \<and> b' \<noteq> c \<longrightarrow> bucket_view d' b' = bucket_view d b'" using T(4) by simp
    have r: "r" using op True T(3) by simp
    have "adds_item (req_key request) (req_value request) [b0, b1] d d'"
      using T(2) mem others op [unfolded if_P [OF True], folded view] unfolding adds_item_def by blast
    then show ?thesis using R T(1) r full True by simp
  next
    case False
    then have "\<not> r" "moves_only d d'" using op T by (auto simp: moves_only_def)
    then show ?thesis using R T(1) full False by auto
  qed
qed

lemma adds_item_mono:
  assumes "moves_only d d1" and "adds_item key val bs d1 d'" and "set bs \<subseteq> set cs" and "\<And>b. b \<in> set bs \<Longrightarrow> valid_id d b"
  shows "adds_item key val cs d d'"
proof -
  have g: "same_geometry d d1" and v: "\<And>b. valid_id d b \<Longrightarrow> bucket_view d1 b = bucket_view d b"
    using assms(1) by (auto simp: moves_only_def)
  obtain b where b: "b \<in> set bs" "fixed_items (bucket_view d' b) = add_mset (key, val) (fixed_items (bucket_view d1 b))"
    "fixed_ok (bucket_view d' b)" "\<And>b'. valid_id d1 b' \<Longrightarrow> b' \<noteq> b \<Longrightarrow> bucket_view d' b' = bucket_view d1 b'" "same_geometry d1 d'"
    using assms(2) by (auto simp: adds_item_def)
  have "same_geometry d d'" using same_geometry_trans [OF g b(5)] .
  moreover have "b \<in> set cs" "bucket_view d1 b = bucket_view d b" using b(1) assms(3) v [OF assms(4)] by auto
  moreover have "bucket_view d' b' = bucket_view d b'" if "valid_id d b'" "b' \<noteq> b" for b'
    using b(4) [of b'] that v same_geometryD(2) [OF g] by simp
  ultimately show ?thesis using b(2,3) unfolding adds_item_def by metis
qed

lemma ProcessInsert_items:
  assumes coh: "coherent d" and st: "store_ok d" and load: "\<not> load_factor_high d"
    and room: "b \<in> set (Get4Buckets d (hash1 request) (hash2 request))" "Count (bucket_view d b) < FIXED_ASSOC"
  shows "case ProcessInsert reliable d request of (r, d') \<Rightarrow> r \<and> coherent d' \<and>
    adds_item (req_key request) (req_value request) (Get4Buckets d (hash1 request) (hash2 request)) d d'"
proof -
  have geo: "geometry d" using coh by (simp add: coherent_def cache_inv_def)
  obtain b0 b1 b2 b3 where B: "Get4Buckets d (hash1 request) (hash2 request) = [b0, b1, b2, b3]" "distinct [b0, b1, b2, b3]"
    and v: "valid_id d b0" "valid_id d b1" "valid_id d b2" "valid_id d b3"
    by (rule Get4Buckets_conv [OF geo])
  obtain r1 d1 where R1: "tryInsertInto2Buckets reliable d request b0 b1 = (r1, d1)" by fastforce
  have n: "b0 \<noteq> b1" "b2 \<noteq> b3" using B(2) by auto
  note T1 = tryInsert_items [OF coh st v(1,2) n(1), of request, unfolded R1 prod.case]
  show ?thesis
  proof (cases r1)
    case True
    then have a: "adds_item (req_key request) (req_value request) [b0, b1] d d1" and c1: "coherent d1" using T1 by auto
    have "adds_item (req_key request) (req_value request) [b0, b1, b2, b3] d d1"
      by (rule adds_item_mono [OF moves_only_refl a]) (use v in auto)
    then show ?thesis using R1 True load c1 by (simp add: ProcessInsert_def B(1))
  next
    case False
    then have c1: "coherent d1" and m1: "moves_only d d1" using T1 by auto
    have g1: "valid_id d1 = valid_id d" and v1: "\<And>b. valid_id d b \<Longrightarrow> bucket_view d1 b = bucket_view d b"
      using m1 same_geometryD(2) [of d d1] by (auto simp: moves_only_def)
    have st1: "store_ok d1" using st g1 v1 by (simp add: store_ok_def)
    obtain r2 d2 where R2: "tryInsertInto2Buckets reliable d1 request b2 b3 = (r2, d2)" by fastforce
    have w: "valid_id d1 b2" "valid_id d1 b3" using v g1 by simp_all
    note T2 = tryInsert_items [OF c1 st1 w n(2), of request, unfolded R2 prod.case]
    have "b = b2 \<or> b = b3" using room False T1 B(1) by auto
    then have "r2" using T2 room(2) v1 v by auto
    then have a: "adds_item (req_key request) (req_value request) [b2, b3] d1 d2" and c2: "coherent d2" using T2 by auto
    have "adds_item (req_key request) (req_value request) [b0, b1, b2, b3] d d2"
      by (rule adds_item_mono [OF m1 a]) (use v in auto)
    then show ?thesis using R1 R2 False \<open>r2\<close> load c2 by (simp add: ProcessInsert_def B(1))
  qed
qed

lemma coherent_Dpu_new:
  assumes "3 \<le> level" and "level \<le> 63"
  shows "coherent (Dpu_new level f s mem)"
proof -
  obtain n where n: "level = n + 3" using assms(1) by (metis le_add_diff_inverse2)
  have "(2::nat) ^ n \<le> 2 ^ 60" using assms(2) n by (intro power_increasing) auto
  then have "geometry (Dpu_new level f s mem)"
    unfolding geometry_def by (intro exI [of _ "2 ^ n"]) (simp add: Dpu_new_def n power_add)
  moreover have "frames_ok 0 [] (Dpu_new level f s mem)"
    using replacer_ok_new recency_new by (simp add: frames_ok_def Dpu_new_def distinct_map image_int_atLeastLessThan del: upt_rec_numeral)
  moreover have "table_ok [] (Dpu_new level f s mem)" using recency_new by (auto simp: table_ok_def Dpu_new_def simp del: upt_rec_numeral)
  ultimately show ?thesis by (simp add: coherent_def cache_inv_def data_ok_def Dpu_new_def)
qed

text \<open>Deletions and updates apply exactly if one of the four buckets has the key.\<close>

lemma process_cases:
  assumes "coherent d" and "store_ok d" and f: "op_ok f" and "process_with f reliable d request = (r, d')"
    and hit: "\<And>x. fixed_ok x \<Longrightarrow> op_res f x = None \<longleftrightarrow> SearchSlot x key = None"
  defines "bs \<equiv> Get4Buckets d (hash1 request) (hash2 request)"
  shows "if r
    then \<exists>b \<in> set bs. \<exists>v. valid_id d b \<and> SearchSlot (bucket_view d b) key = Some v \<and> bucket_view d' b = op_bucket f (bucket_view d b) \<and>
      (\<forall>b'. valid_id d b' \<and> b' \<noteq> b \<longrightarrow> bucket_view d' b' = bucket_view d b')
    else (\<forall>b \<in> set bs. \<forall>v. (key, v) \<notin># fixed_items (bucket_view d b)) \<and>
      (\<forall>b. valid_id d b \<longrightarrow> bucket_view d' b = bucket_view d b) \<and> coherent d'"
proof -
  have geo: "geometry d" using assms(1) by (simp add: coherent_def cache_inv_def)
  have ok: "valid_id d b" "fixed_ok (bucket_view d b)" if "b \<in> set bs" for b
    using that Get4Buckets_valid [OF geo] store_okD [OF assms(2)] unfolding bs_def by blast+
  have A: "acts f bs d (if r then Some () else None) d'" "\<not> r \<Longrightarrow> coherent d'"
    using process_with_ok [OF assms(1) f, of request] assms(4) by (auto simp: bs_def)
  show ?thesis
  proof (cases r)
    case True
    then obtain b where b: "b \<in> set bs" "op_res f (bucket_view d b) = Some ()"
      and v: "\<And>b'. valid_id d b' \<Longrightarrow> bucket_view d' b' = (if b' = b then op_bucket f (bucket_view d b) else bucket_view d b')"
      using A(1) by (auto simp: acts_def)
    obtain w where "SearchSlot (bucket_view d b) key = Some w" using hit [OF ok(2) [OF b(1)]] b(2) by force
    moreover have "bucket_view d' b = op_bucket f (bucket_view d b)" using v [OF ok(1) [OF b(1)]] by simp
    moreover have "\<forall>b'. valid_id d b' \<and> b' \<noteq> b \<longrightarrow> bucket_view d' b' = bucket_view d b'" using v by simp
    ultimately show ?thesis unfolding if_P [OF True] using b(1) ok(1) [OF b(1)] by blast
  next
    case False
    then have "SearchSlot (bucket_view d b) key = None" if "b \<in> set bs" for b
      using A(1) that hit [OF ok(2) [OF that]] by (simp add: acts_def)
    then have "\<forall>b \<in> set bs. \<forall>v. (key, v) \<notin># fixed_items (bucket_view d b)" using SearchSlot_None [OF ok(2)] by blast
    then show ?thesis using False A by (simp add: acts_def moves_only_def)
  qed
qed

text \<open>An item in every bucket of a table of eight top-level buckets.\<close>

definition full_mem :: "nat \<times> nat \<Rightarrow> fixed_bucket" where
  "full_mem = (\<lambda>_. set_fields 0 [1] [2] fixed_zero)"

definition sample_dpu :: Dpu where
  "sample_dpu = Dpu_new 3 0 0 full_mem"

definition sample_request :: "u8 list \<Rightarrow> Request" where
  "sample_request key = \<lparr>request_type = REQ_SEARCH, req_key = key, req_value = [3], hash1 = 5, hash2 = 6\<rparr>"

lemma sample_view: "bucket_view sample_dpu b = set_fields 0 [1] [2] fixed_zero"
  by (simp add: bucket_view_def sample_dpu_def Dpu_new_def full_mem_def)

lemma sample_items: "fixed_items (set_fields 0 [1] [2] fixed_zero) = {#([1], [2])#}"
  by (simp add: fixed_items_def fixed_zero_def slot_item_def set_fields_def numeral_eq_Suc)

lemma sample_ok: "coherent sample_dpu" "store_ok sample_dpu" "\<not> load_factor_high sample_dpu" "geometry sample_dpu"
proof -
  show c: "coherent sample_dpu" unfolding sample_dpu_def by (rule coherent_Dpu_new) simp_all
  then show "geometry sample_dpu" by (simp add: coherent_def cache_inv_def)
  show "\<not> load_factor_high sample_dpu" by (simp add: load_factor_high_def sample_dpu_def Dpu_new_def)
  have "fixed_ok (set_fields 0 [1] [2] fixed_zero)" by (simp add: fixed_ok_def set_fields_def fixed_zero_def numeral_eq_Suc)
  then show "store_ok sample_dpu" by (simp add: store_ok_def sample_view)
qed

lemma sample_Search: "SearchSlot (set_fields 0 [1] [2] fixed_zero) key = (if key = [1] then Some [2] else None)"
  by (simp add: SearchSlot_def match_slot_def set_fields_def fixed_zero_def numeral_eq_Suc upt_rec)

lemma sample_Count: "Count (set_fields 0 [1] [2] fixed_zero) < FIXED_ASSOC"
  by (simp add: Count_def set_fields_def fixed_zero_def numeral_eq_Suc upt_rec)

lemma sample_bucket:
  obtains b where "b \<in> set (Get4Buckets sample_dpu h1 h2)"
  using Get4Buckets_distinct(2) [OF sample_ok(4), of h1 h2] by (cases "Get4Buckets sample_dpu h1 h2") auto

section \<open>Properties\<close>











text \<open>C17: two different buckets of the two levels never share a place in host memory: the client and the
  offset computed from a bucket identifier determine the identifier.\<close>

theorem GetClientBucket_injective:
  assumes "geometry d" and "valid_id d b" and "valid_id d b'"
  shows "GetClientBucket d b = GetClientBucket d b' \<longleftrightarrow> b = b'"
  using GetClientBucket_inj [OF assms] by blast

theorem GetClientBucket_injective_witness:
  "GetClientBucket sample_dpu 3 \<noteq> GetClientBucket sample_dpu 4"
proof -
  have "valid_id sample_dpu 3" "valid_id sample_dpu 4" by (simp_all add: valid_id_def sample_dpu_def Dpu_new_def)
  from GetClientBucket_injective [OF sample_ok(4) this] show ?thesis by simp
qed

text \<open>A store that has just attached to a table of \<open>2 ^ level\<close> top-level buckets is coherent, and
  every bucket is what host memory holds.\<close>

lemma Dpu_new_coherent:
  assumes "3 \<le> level" and "level \<le> 63"
  shows "coherent (Dpu_new level f s mem) \<and>
    (\<forall>b. bucket_view (Dpu_new level f s mem) b = mem (GetClientBucket (Dpu_new level f s mem) b))"
  using coherent_Dpu_new [OF assms] by (simp add: bucket_view_def Dpu_new_def)

lemma Dpu_new_coherent_witness: "coherent (Dpu_new 10 0 0 full_mem)"
  using Dpu_new_coherent [of 10 0 0 full_mem] by simp

end
