(* ===== verification/OctoTx.thy ===== *)
theory OctoTx
  imports Prelude "HOL-Library.Monad_Syntax"
begin

text \<open>
  The transaction log of the Octopus file system, \<^verbatim>\<open>sys/octopus/src/fs/TxManager.cpp\<close>: an array of local log
  entries of 4096 bytes and an array of distributed log entries of 11 bytes in persistent memory, each written
  and then flushed from the cache line by line.

  The memory from the start of a log on is a function from entry numbers, since the code has no bound on the
  entry number. What \<^verbatim>\<open>memcpy\<close> puts into \<open>logData\<close> is a value of type \<open>'d\<close>. The addresses given to the
  \<^verbatim>\<open>clflush\<close> instruction are recorded in \<open>flushedLines\<close>. The mutexes are taken and released in one call.
\<close>

section \<open>Operations\<close>

definition CACHELINE_SIZE :: nat where "CACHELINE_SIZE = 64"

record DistributedLogEntry =
  dl_TxID :: nat
  dl_begin :: bool
  dl_prepare :: bool
  dl_commit :: bool

record 'd LocalLogEntry =
  ll_TxID :: nat
  ll_begin :: bool
  ll_logData :: 'd
  ll_commit :: bool

record 'd TxManager =
  LocalLogAddress :: nat
  DistributedLogAddress :: nat
  LocalLogIndex :: nat
  DistributedLogIndex :: nat
  localLog :: "nat \<Rightarrow> 'd LocalLogEntry"
  distributedLog :: "nat \<Rightarrow> DistributedLogEntry"
  flushedLines :: "nat list"

definition TxManager_new :: "nat \<Rightarrow> nat \<Rightarrow> (nat \<Rightarrow> 'd LocalLogEntry) \<Rightarrow> (nat \<Rightarrow> DistributedLogEntry) \<Rightarrow> 'd TxManager" where
  "TxManager_new lla dla ll dl =
     \<lparr>LocalLogAddress = lla, DistributedLogAddress = dla, LocalLogIndex = 0, DistributedLogIndex = 0,
      localLog = ll, distributedLog = dl, flushedLines = []\<rparr>"

text \<open>The counter of the loop has 32 bits and the bound 64, so the loop need not end.\<close>

partial_function (option) flush_loop :: "nat \<Rightarrow> nat \<Rightarrow> nat \<Rightarrow> nat list \<Rightarrow> nat list option" where
  "flush_loop address sz i acc =
     (if i < sz then flush_loop address sz ((i + CACHELINE_SIZE) mod 2 ^ 32) (acc @ [address + i]) else Some acc)"

definition flush_lines :: "nat \<Rightarrow> nat \<Rightarrow> nat list option" where
  "flush_lines address sz = flush_loop address (sz + address mod CACHELINE_SIZE) 0 []"

definition FlushData :: "'d TxManager \<Rightarrow> nat \<Rightarrow> nat \<Rightarrow> 'd TxManager option" where
  "FlushData tm address sz =
     do { ls \<leftarrow> flush_lines address sz; Some (tm\<lparr>flushedLines := flushedLines tm @ ls\<rparr>) }"

definition local_entry :: "'d TxManager \<Rightarrow> nat \<Rightarrow> nat" where
  "local_entry tm n = LocalLogAddress tm + 4096 * n"

definition distributed_entry :: "'d TxManager \<Rightarrow> nat \<Rightarrow> nat" where
  "distributed_entry tm n = DistributedLogAddress tm + 11 * n"

definition TxLocalBegin :: "'d TxManager \<Rightarrow> (nat \<times> 'd TxManager) option" where
  "TxLocalBegin tm =
     (let n = LocalLogIndex tm;
          tm1 = tm\<lparr>localLog := (localLog tm)(n := (localLog tm n)\<lparr>ll_TxID := n, ll_begin := True\<rparr>)\<rparr>
      in do { tm2 \<leftarrow> FlushData tm1 (local_entry tm n) CACHELINE_SIZE;
              Some (n, tm2\<lparr>LocalLogIndex := n + 1\<rparr>) })"

definition TxWriteData :: "'d TxManager \<Rightarrow> nat \<Rightarrow> 'd \<Rightarrow> nat \<Rightarrow> 'd TxManager option" where
  "TxWriteData tm TxID buffer sz =
     FlushData (tm\<lparr>localLog := (localLog tm)(TxID := (localLog tm TxID)\<lparr>ll_logData := buffer\<rparr>)\<rparr>)
       (local_entry tm TxID + 9) sz"

definition getTxWriteDataAddress :: "'d TxManager \<Rightarrow> nat \<Rightarrow> nat" where
  "getTxWriteDataAddress tm TxID = local_entry tm TxID + 9"

definition TxLocalCommit :: "'d TxManager \<Rightarrow> nat \<Rightarrow> bool \<Rightarrow> 'd TxManager option" where
  "TxLocalCommit tm TxID action =
     FlushData (tm\<lparr>localLog := (localLog tm)(TxID := (localLog tm TxID)\<lparr>ll_commit := action\<rparr>)\<rparr>)
       (local_entry tm TxID + 4095) CACHELINE_SIZE"

definition TxDistributedBegin :: "'d TxManager \<Rightarrow> (nat \<times> 'd TxManager) option" where
  "TxDistributedBegin tm =
     (let n = DistributedLogIndex tm;
          tm1 = tm\<lparr>distributedLog := (distributedLog tm)(n := (distributedLog tm n)\<lparr>dl_TxID := n, dl_begin := True\<rparr>)\<rparr>
      in do { tm2 \<leftarrow> FlushData tm1 (distributed_entry tm n) CACHELINE_SIZE;
              Some (n, tm2\<lparr>DistributedLogIndex := n + 1\<rparr>) })"

definition TxDistributedPrepare :: "'d TxManager \<Rightarrow> nat \<Rightarrow> bool \<Rightarrow> 'd TxManager option" where
  "TxDistributedPrepare tm TxID action =
     FlushData (tm\<lparr>distributedLog := (distributedLog tm)(TxID := (distributedLog tm TxID)\<lparr>dl_prepare := action\<rparr>)\<rparr>)
       (distributed_entry tm TxID + 9) CACHELINE_SIZE"

definition TxDistributedCommit :: "'d TxManager \<Rightarrow> nat \<Rightarrow> bool \<Rightarrow> 'd TxManager option" where
  "TxDistributedCommit tm TxID action =
     FlushData (tm\<lparr>distributedLog := (distributedLog tm)(TxID := (distributedLog tm TxID)\<lparr>dl_commit := action\<rparr>)\<rparr>)
       (distributed_entry tm TxID + 10) CACHELINE_SIZE"

section \<open>Flushing\<close>

lemma flush_loop_lines:
  assumes "sz + CACHELINE_SIZE \<le> 2 ^ 32"
  shows "flush_loop address sz i acc =
    Some (acc @ map (\<lambda>k. address + i + CACHELINE_SIZE * k) [0..<(sz - i + 63) div CACHELINE_SIZE])"
proof (induction "sz - i" arbitrary: i acc rule: less_induct)
  case less
  show ?case
  proof (cases "i < sz")
    case False
    then show ?thesis by (simp add: flush_loop.simps CACHELINE_SIZE_def)
  next
    case True
    define n where "n = (sz - (i + 64) + 63) div 64"
    have i: "(i + 64) mod 2 ^ 32 = i + 64" using assms True by (simp add: CACHELINE_SIZE_def)
    have n: "(sz - i + 63) div 64 = Suc n"
    proof (cases "i + 64 \<le> sz")
      case True
      then have "(sz - i + 63) div 64 = (sz - (i + 64) + 63 + 64) div 64" by (intro arg_cong [where f = "\<lambda>m. m div 64"]) linarith
      also have "\<dots> = Suc n" unfolding n_def by (subst div_add_self2) simp_all
      finally show ?thesis .
    next
      case False
      then have "64 \<le> sz - i + 63" "sz - i + 63 < 128" "sz - (i + 64) = 0" using \<open>i < sz\<close> by simp_all
      then show ?thesis by (simp add: n_def)
    qed
    have "flush_loop address sz i acc = flush_loop address sz (i + 64) (acc @ [address + i])"
      using True i by (simp add: flush_loop.simps [of _ _ i] CACHELINE_SIZE_def)
    also have "\<dots> = Some ((acc @ [address + i]) @ map (\<lambda>k. address + (i + 64) + 64 * k) [0..<n])"
      using less [of "i + 64"] True by (simp add: CACHELINE_SIZE_def n_def)
    also have "map (\<lambda>k. address + (i + 64) + 64 * k) [0..<n] = map (\<lambda>k. address + i + 64 * k) [1..<Suc n]"
      by (simp add: map_Suc_upt [symmetric] del: map_Suc_upt upt_Suc)
    finally show ?thesis by (simp add: CACHELINE_SIZE_def n upt_conv_Cons del: upt_Suc)
  qed
qed

definition covered :: "nat list \<Rightarrow> nat \<Rightarrow> bool" where
  "covered ls b \<longleftrightarrow> (\<exists>a \<in> set ls. a div CACHELINE_SIZE = b div CACHELINE_SIZE)"

lemma flush_lines_ok:
  assumes "sz + 127 \<le> 2 ^ 32"
  obtains ls where "flush_lines address sz = Some ls" and "\<And>b. address \<le> b \<Longrightarrow> b < address + sz \<Longrightarrow> covered ls b"
proof -
  define off where "off = address mod 64"
  define n where "n = (sz + off + 63) div 64"
  have off: "off < 64" by (simp add: off_def)
  have ls: "flush_lines address sz = Some (map (\<lambda>k. address + 64 * k) [0..<n])"
    using assms off by (simp add: flush_lines_def flush_loop_lines CACHELINE_SIZE_def off_def n_def)
  have "covered (map (\<lambda>k. address + 64 * k) [0..<n]) b" if b: "address \<le> b" "b < address + sz" for b
  proof -
    define k where "k = b div 64 - address div 64"
    have le: "address div 64 \<le> b div 64" using b(1) by (rule div_le_mono)
    have a: "address = 64 * (address div 64) + off" by (simp add: off_def)
    have "64 * (b div 64) \<le> b" by simp
    then have "64 * k + 64 * (address div 64) \<le> b" using le by (simp add: k_def diff_mult_distrib2)
    then have "64 * k < sz + off" using b(2) a by linarith
    then have "k < n" by (simp add: n_def less_eq_div_iff_mult_less_eq Suc_le_eq [symmetric])
    moreover have "(address + 64 * k) div 64 = b div 64" using le by (simp add: k_def)
    moreover have "address + 64 * k \<in> set (map (\<lambda>k. address + 64 * k) [0..<n])" using \<open>k < n\<close> by simp
    ultimately show ?thesis unfolding covered_def CACHELINE_SIZE_def by (intro bexI)
  qed
  then show thesis by (rule that [OF ls])
qed


lemma FlushData_ok:
  assumes "sz + 127 \<le> 2 ^ 32"
  obtains ls where "FlushData tm address sz = Some (tm\<lparr>flushedLines := flushedLines tm @ ls\<rparr>)"
    and "\<And>b. address \<le> b \<Longrightarrow> b < address + sz \<Longrightarrow> covered ls b"
proof -
  obtain ls where "flush_lines address sz = Some ls" and cov: "\<And>b. address \<le> b \<Longrightarrow> b < address + sz \<Longrightarrow> covered ls b"
    using flush_lines_ok [OF assms] by blast
  then show thesis using that [of ls] by (simp add: FlushData_def)
qed

lemma covered_append: "covered (xs @ ys) b \<longleftrightarrow> covered xs b \<or> covered ys b"
  by (auto simp: covered_def)

text \<open>What the operations of the local log do when they return, and that they return.\<close>

lemma TxLocalBegin_ok:
  obtains ls where "TxLocalBegin tm = Some (LocalLogIndex tm,
      tm\<lparr>localLog := (localLog tm)(LocalLogIndex tm := (localLog tm (LocalLogIndex tm))\<lparr>ll_TxID := LocalLogIndex tm, ll_begin := True\<rparr>),
         flushedLines := flushedLines tm @ ls, LocalLogIndex := LocalLogIndex tm + 1\<rparr>)"
    and "\<And>b. local_entry tm (LocalLogIndex tm) \<le> b \<Longrightarrow> b < local_entry tm (LocalLogIndex tm) + 64 \<Longrightarrow> covered ls b"
proof -
  let ?tm = "tm\<lparr>localLog := (localLog tm)(LocalLogIndex tm := (localLog tm (LocalLogIndex tm))\<lparr>ll_TxID := LocalLogIndex tm, ll_begin := True\<rparr>)\<rparr>"
  obtain ls where "FlushData ?tm (local_entry tm (LocalLogIndex tm)) 64 = Some (?tm\<lparr>flushedLines := flushedLines ?tm @ ls\<rparr>)"
    and cov: "\<And>b. local_entry tm (LocalLogIndex tm) \<le> b \<Longrightarrow> b < local_entry tm (LocalLogIndex tm) + 64 \<Longrightarrow> covered ls b"
    using FlushData_ok [of 64 ?tm "local_entry tm (LocalLogIndex tm)"] by auto
  then show thesis using that [of ls] by (simp add: TxLocalBegin_def Let_def CACHELINE_SIZE_def)
qed

lemma TxWriteData_ok:
  assumes "sz + 127 \<le> 2 ^ 32"
  obtains ls where "TxWriteData tm TxID d sz = Some
      (tm\<lparr>localLog := (localLog tm)(TxID := (localLog tm TxID)\<lparr>ll_logData := d\<rparr>), flushedLines := flushedLines tm @ ls\<rparr>)"
    and "\<And>b. local_entry tm TxID + 9 \<le> b \<Longrightarrow> b < local_entry tm TxID + 9 + sz \<Longrightarrow> covered ls b"
proof -
  let ?tm = "tm\<lparr>localLog := (localLog tm)(TxID := (localLog tm TxID)\<lparr>ll_logData := d\<rparr>)\<rparr>"
  obtain ls where "FlushData ?tm (local_entry tm TxID + 9) sz = Some (?tm\<lparr>flushedLines := flushedLines ?tm @ ls\<rparr>)"
    and "\<And>b. local_entry tm TxID + 9 \<le> b \<Longrightarrow> b < local_entry tm TxID + 9 + sz \<Longrightarrow> covered ls b"
    using FlushData_ok [OF assms, of ?tm "local_entry tm TxID + 9"] by auto
  then show thesis using that [of ls] by (simp add: TxWriteData_def)
qed

lemma TxLocalCommit_ok:
  obtains ls where "TxLocalCommit tm TxID a = Some
      (tm\<lparr>localLog := (localLog tm)(TxID := (localLog tm TxID)\<lparr>ll_commit := a\<rparr>), flushedLines := flushedLines tm @ ls\<rparr>)"
    and "covered ls (local_entry tm TxID + 4095)"
proof -
  let ?tm = "tm\<lparr>localLog := (localLog tm)(TxID := (localLog tm TxID)\<lparr>ll_commit := a\<rparr>)\<rparr>"
  obtain ls where "FlushData ?tm (local_entry tm TxID + 4095) 64 = Some (?tm\<lparr>flushedLines := flushedLines ?tm @ ls\<rparr>)"
    and "\<And>b. local_entry tm TxID + 4095 \<le> b \<Longrightarrow> b < local_entry tm TxID + 4095 + 64 \<Longrightarrow> covered ls b"
    using FlushData_ok [of 64 ?tm "local_entry tm TxID + 4095"] by auto
  then show thesis using that [of ls] by (simp add: TxLocalCommit_def CACHELINE_SIZE_def)
qed

section \<open>Properties\<close>

text \<open>A local transaction as the file system runs it.\<close>

definition run_local :: "'d TxManager \<Rightarrow> 'd \<Rightarrow> nat \<Rightarrow> bool \<Rightarrow> (nat \<times> 'd TxManager) option" where
  "run_local tm d sz action =
     do { (TxID, tm1) \<leftarrow> TxLocalBegin tm; tm2 \<leftarrow> TxWriteData tm1 TxID d sz; tm3 \<leftarrow> TxLocalCommit tm2 TxID action; Some (TxID, tm3) }"


definition sample_log :: "nat TxManager" where
  "sample_log = TxManager_new 4096 8192 (\<lambda>_. \<lparr>ll_TxID = 0, ll_begin = False, ll_logData = 0, ll_commit = False\<rparr>)
     (\<lambda>_. \<lparr>dl_TxID = 0, dl_begin = False, dl_prepare = False, dl_commit = False\<rparr>)"


end
