(* ===== verification/OctoMem.thy ===== *)
theory OctoMem
  imports OctoTx
begin

text \<open>
  The memory of an Octopus server, \<^verbatim>\<open>sys/octopus/src/net/mempool.cpp\<close>: one region with the message slots of the
  clients and of the servers, the metadata, the data blocks and the two logs. Addresses are integers; the sizes in use are far
  below the point where 64-bit addresses would wrap. The map from threads to worker numbers gives 0 for a thread that has not
  been registered, as \<^verbatim>\<open>operator[]\<close> does.
\<close>

section \<open>Layout\<close>

definition CLIENT_MESSAGE_SIZE :: int where "CLIENT_MESSAGE_SIZE = 4096"
definition MAX_CLIENT_NUMBER :: int where "MAX_CLIENT_NUMBER = 32"
definition SERVER_MASSAGE_SIZE :: int where "SERVER_MASSAGE_SIZE = CLIENT_MESSAGE_SIZE"
definition SERVER_MASSAGE_NUM :: int where "SERVER_MASSAGE_NUM = 32"
definition METADATA_SIZE :: int where "METADATA_SIZE = 1024 * 1024 * 1024"
definition LOCALLOGSIZE :: int where "LOCALLOGSIZE = 40 * 1024 * 1024"
definition DISTRIBUTEDLOGSIZE :: int where "DISTRIBUTEDLOGSIZE = 1024 * 1024"

lemmas size_defs = CLIENT_MESSAGE_SIZE_def MAX_CLIENT_NUMBER_def SERVER_MASSAGE_SIZE_def SERVER_MASSAGE_NUM_def METADATA_SIZE_def
  LOCALLOGSIZE_def DISTRIBUTEDLOGSIZE_def

record MemoryManager =
  ServerCount :: int
  MemoryBaseAddress :: int
  ClientBaseAddress :: int
  ServerSendBaseAddress :: int
  ServerRecvBaseAddress :: int
  MetadataBaseAddress :: int
  DataBaseAddress :: int
  DMFSTotalSize :: int
  mm_LocalLogAddress :: int
  mm_DistributedLogAddress :: int
  th2id :: "nat \<Rightarrow> int"

text \<open>The constructor: \<open>mapped\<close> is the address of the region it allocates and clears when the first argument is 0. Given an
  address, it leaves the total size unset, here \<open>unset\<close>.\<close>

definition MemoryManager_new :: "int \<Rightarrow> int \<Rightarrow> int \<Rightarrow> int \<Rightarrow> int \<Rightarrow> MemoryManager" where
  "MemoryManager_new mapped unset mm servers DataSize =
     (let total = DataSize * 1024 * 1024 * 1024 + METADATA_SIZE + CLIENT_MESSAGE_SIZE * MAX_CLIENT_NUMBER +
                  SERVER_MASSAGE_SIZE * SERVER_MASSAGE_NUM * servers;
          base = (if mm = 0 then mapped else mm);
          send = base + CLIENT_MESSAGE_SIZE * MAX_CLIENT_NUMBER;
          recv = send + SERVER_MASSAGE_SIZE * SERVER_MASSAGE_NUM * servers;
          data = recv + METADATA_SIZE;
          llog = DataSize * (1024 * 1024 * 1024) + data
      in \<lparr>ServerCount = servers, MemoryBaseAddress = base, ClientBaseAddress = base, ServerSendBaseAddress = send,
          ServerRecvBaseAddress = recv, MetadataBaseAddress = recv + SERVER_MASSAGE_SIZE * SERVER_MASSAGE_NUM * servers,
          DataBaseAddress = data, DMFSTotalSize = (if mm = 0 then total else unset),
          mm_LocalLogAddress = llog, mm_DistributedLogAddress = llog + LOCALLOGSIZE, th2id = (\<lambda>_. 0)\<rparr>)"

definition getServerSendAddress :: "MemoryManager \<Rightarrow> nat \<Rightarrow> int \<Rightarrow> int \<times> int" where
  "getServerSendAddress mm tid NodeID =
     (let offset = th2id mm tid
      in (offset, ServerSendBaseAddress mm + (NodeID - 1) * SERVER_MASSAGE_SIZE * SERVER_MASSAGE_NUM + offset * SERVER_MASSAGE_SIZE))"

definition getServerRecvAddress :: "MemoryManager \<Rightarrow> int \<Rightarrow> int \<Rightarrow> int" where
  "getServerRecvAddress mm NodeID offset =
     ServerRecvBaseAddress mm + (NodeID - 1) * SERVER_MASSAGE_SIZE * SERVER_MASSAGE_NUM + offset * SERVER_MASSAGE_SIZE"

definition getClientMessageAddress :: "MemoryManager \<Rightarrow> int \<Rightarrow> int" where
  "getClientMessageAddress mm NodeID = ClientBaseAddress mm + (NodeID - ServerCount mm - 1) * CLIENT_MESSAGE_SIZE"

definition setID :: "MemoryManager \<Rightarrow> nat \<Rightarrow> int \<Rightarrow> MemoryManager" where
  "setID mm tid ID = mm\<lparr>th2id := (th2id mm)(tid := ID)\<rparr>"

section \<open>Message slots\<close>

text \<open>The slots of a server: nodes \<open>1 .. servers\<close>, worker numbers \<open>0 .. 31\<close>.\<close>

datatype slot_id = Client_slot int | Send_slot int int | Recv_slot int int

definition slot_address :: "MemoryManager \<Rightarrow> slot_id \<Rightarrow> int" where
  "slot_address mm s = (case s of
     Client_slot n \<Rightarrow> getClientMessageAddress mm n
   | Send_slot n w \<Rightarrow> snd (getServerSendAddress (setID mm 0 w) 0 n)
   | Recv_slot n w \<Rightarrow> getServerRecvAddress mm n w)"

definition slot_ok :: "int \<Rightarrow> slot_id \<Rightarrow> bool" where
  "slot_ok servers s = (case s of
     Client_slot n \<Rightarrow> servers < n \<and> n \<le> servers + MAX_CLIENT_NUMBER
   | Send_slot n w \<Rightarrow> 1 \<le> n \<and> n \<le> servers \<and> 0 \<le> w \<and> w < SERVER_MASSAGE_NUM
   | Recv_slot n w \<Rightarrow> 1 \<le> n \<and> n \<le> servers \<and> 0 \<le> w \<and> w < SERVER_MASSAGE_NUM)"

text \<open>Every slot is a multiple of the slot size away from the base, and the multiple determines the slot.\<close>

definition slot_number :: "int \<Rightarrow> slot_id \<Rightarrow> int" where
  "slot_number servers s = (case s of
     Client_slot n \<Rightarrow> n - servers - 1
   | Send_slot n w \<Rightarrow> 32 + (n - 1) * 32 + w
   | Recv_slot n w \<Rightarrow> 32 + 32 * servers + (n - 1) * 32 + w)"

lemma slot_address_number:
  "slot_address (MemoryManager_new mapped unset mm servers sz) s =
     MemoryBaseAddress (MemoryManager_new mapped unset mm servers sz) + 4096 * slot_number servers s"
  by (cases s) (simp_all add: slot_address_def slot_number_def MemoryManager_new_def Let_def getServerSendAddress_def
    getServerRecvAddress_def getClientMessageAddress_def setID_def size_defs algebra_simps)

lemma node_worker:
  assumes "(n - 1) * 32 + w = (n' - 1) * 32 + (w' :: int)" "0 \<le> w" "w < 32" "0 \<le> w'" "w' < 32"
  shows "n = n' \<and> w = w'"
proof -
  have "((n - 1) * 32 + w) div 32 = n - 1" "((n' - 1) * 32 + w') div 32 = n' - 1" using assms(2-5) by simp_all
  then have "n = n'" using assms(1) by simp
  then show ?thesis using assms(1) by simp
qed

lemma node_worker_range: "1 \<le> n \<Longrightarrow> n \<le> m \<Longrightarrow> 0 \<le> w \<Longrightarrow> w < 32 \<Longrightarrow> 0 \<le> (n - 1) * 32 + w \<and> (n - 1) * 32 + w < 32 * (m :: int)"
  by auto

lemma slot_number_range:
  assumes "slot_ok servers s" and "0 \<le> servers"
  shows "0 \<le> slot_number servers s \<and> slot_number servers s < 32 + 64 * servers"
proof (cases s)
  case (Client_slot n)
  then show ?thesis using assms by (auto simp: slot_ok_def slot_number_def size_defs)
qed (use assms in \<open>auto simp: slot_ok_def slot_number_def size_defs\<close>)

lemma slot_number_inj:
  assumes "slot_ok servers s" and "slot_ok servers s'" and "slot_number servers s = slot_number servers s'"
  shows "s = s'"
proof (cases s; cases s')
  fix n w n' w'
  assume "s = Send_slot n w" "s' = Send_slot n' w'"
  then show ?thesis using assms node_worker [of n w n' w'] by (simp add: slot_ok_def slot_number_def size_defs)
next
  fix n w n' w'
  assume "s = Recv_slot n w" "s' = Recv_slot n' w'"
  then show ?thesis using assms node_worker [of n w n' w'] by (simp add: slot_ok_def slot_number_def size_defs)
qed (use assms in \<open>auto simp: slot_ok_def slot_number_def size_defs\<close>)

section \<open>Properties\<close>




definition sample_memory :: MemoryManager where
  "sample_memory = MemoryManager_new 0 0 4096 2 2"

definition long_log :: "nat TxManager" where
  "long_log = sample_log\<lparr>LocalLogAddress := nat (mm_LocalLogAddress sample_memory), LocalLogIndex := 10240\<rparr>"


end
