(* ===== verification/OctoBitmap.thy ===== *)
theory OctoBitmap
  imports Prelude
begin

text \<open>
  The bitmap of the Octopus file system, \<^verbatim>\<open>sys/octopus/src/fs/bitmap.cpp\<close>: the bits of a byte array that
  the caller owns, the most significant bit of a byte first, and a count of the clear bits. Positions and
  counts are \<^verbatim>\<open>uint64_t\<close>; the wrap-around of the count is written out. The scanning loops use a 32-bit
  index, which does not wrap below \<open>2 ^ 35\<close> bits; the position \<^verbatim>\<open>findFree\<close> computes from it has 32 bits.
  A failing constructor leaves the program.

  The locale \<open>bit_array\<close> is what the tables built on the bitmap rely on.
\<close>

datatype octo_exit =
    Bitmap_null_buffer | Bitmap_count_alignment
  | Table_null_buffer | Table_count_alignment
  | HashTable_null_buffer | HashTable_bitmap_set | HashTable_bitmap_exit octo_exit

section \<open>Operations\<close>

record Bitmap =
  bm_bytes :: "u8 list"
  varCountFree :: nat
  varCountTotal :: nat

definition inc64 :: "nat \<Rightarrow> nat" where
  "inc64 n = (n + 1) mod 2 ^ 64"

definition dec64 :: "nat \<Rightarrow> nat" where
  "dec64 n = (n + (2 ^ 64 - 1)) mod 2 ^ 64"

lemma dec64_Suc: "n < 2 ^ 64 \<Longrightarrow> dec64 (Suc n) = n"
  by (simp add: dec64_def)

text \<open>\<^verbatim>\<open>bytes[index] & (1 << (7 - offset))\<close>.\<close>

definition bit_mask :: "nat \<Rightarrow> u8" where
  "bit_mask offset = push_bit (7 - offset) 1"

definition byte_bit :: "u8 list \<Rightarrow> nat \<Rightarrow> bool" where
  "byte_bit bs pos \<longleftrightarrow> bs ! (pos div 8) AND bit_mask (pos mod 8) \<noteq> 0"

definition bitmap_get :: "Bitmap \<Rightarrow> nat \<Rightarrow> bool option" where
  "bitmap_get bm pos = (if pos < varCountTotal bm then Some (byte_bit (bm_bytes bm) pos) else None)"

definition bitmap_set :: "Bitmap \<Rightarrow> nat \<Rightarrow> bool \<times> Bitmap" where
  "bitmap_set bm pos =
     (if pos < varCountTotal bm then
        (let index = pos div 8; offset = pos mod 8
         in (True,
             if bm_bytes bm ! index AND bit_mask offset \<noteq> 0 then bm
             else bm\<lparr>bm_bytes := (bm_bytes bm)[index := bm_bytes bm ! index OR bit_mask offset],
                     varCountFree := dec64 (varCountFree bm)\<rparr>))
      else (False, bm))"

definition bitmap_clear :: "Bitmap \<Rightarrow> nat \<Rightarrow> bool \<times> Bitmap" where
  "bitmap_clear bm pos =
     (if pos < varCountTotal bm then
        (let index = pos div 8; offset = pos mod 8
         in (True,
             if bm_bytes bm ! index AND bit_mask offset \<noteq> 0
             then bm\<lparr>bm_bytes := (bm_bytes bm)[index := bm_bytes bm ! index AND NOT (bit_mask offset)],
                     varCountFree := inc64 (varCountFree bm)\<rparr>
             else bm))
      else (False, bm))"

text \<open>The two nested loops visit the positions of the whole bytes in order.\<close>

definition scan_positions :: "Bitmap \<Rightarrow> nat list" where
  "scan_positions bm = concat (map (\<lambda>index. map (\<lambda>offset. index * 8 + offset) [0..<8]) [0..<varCountTotal bm div 8])"

definition findFree :: "Bitmap \<Rightarrow> nat option" where
  "findFree bm =
     (if varCountFree bm > 0
      then map_option (\<lambda>pos. pos mod 2 ^ 32) (find (\<lambda>pos. \<not> byte_bit (bm_bytes bm) pos) (scan_positions bm))
      else None)"

definition countFree :: "Bitmap \<Rightarrow> nat" where
  "countFree bm = varCountFree bm"

definition countTotal :: "Bitmap \<Rightarrow> nat" where
  "countTotal bm = varCountTotal bm"

text \<open>The bitmap takes the first \<open>cnt div 8\<close> bytes of the buffer.\<close>

definition Bitmap_new :: "nat \<Rightarrow> u8 list option \<Rightarrow> octo_exit + Bitmap" where
  "Bitmap_new cnt buffer =
     (if cnt mod 8 = 0 then
        (case buffer of
           Some buf \<Rightarrow>
             (let bm = \<lparr>bm_bytes = take (cnt div 8) buf, varCountFree = 0, varCountTotal = cnt\<rparr>
              in Inr (bm\<lparr>varCountFree :=
                   foldl (\<lambda>n pos. if byte_bit (bm_bytes bm) pos then n else inc64 n) 0 (scan_positions bm)\<rparr>))
         | None \<Rightarrow> Inl Bitmap_null_buffer)
      else Inl Bitmap_count_alignment)"

section \<open>Bits\<close>

lemma bit_mask_bit: "bit (bit_mask offset) k \<longleftrightarrow> k = 7 - offset"
  by (auto simp: bit_mask_def bit_exp_iff)

lemma byte_bit_iff: "byte_bit bs pos \<longleftrightarrow> bit (bs ! (pos div 8)) (7 - pos mod 8)"
proof -
  have "w AND bit_mask n \<noteq> 0 \<longleftrightarrow> bit w (7 - n)" for w :: u8 and n
    using bit_eq_iff [of "w AND bit_mask n" 0] diff_le_self [of 7 n] by (auto simp: bit_and_iff bit_mask_bit)
  then show ?thesis by (simp add: byte_bit_def)
qed

lemma offset_eq: "7 - p mod 8 = 7 - q mod (8::nat) \<longleftrightarrow> p mod 8 = q mod 8"
  using mod_less_divisor [of 8 p] mod_less_divisor [of 8 q] by linarith

lemma pos_eq: "p div 8 = q div 8 \<Longrightarrow> p mod 8 = q mod (8::nat) \<Longrightarrow> p = q"
  by (metis div_mult_mod_eq)

lemma byte_bit_set:
  assumes "pos div 8 < length bs"
  shows "byte_bit (bs[pos div 8 := bs ! (pos div 8) OR bit_mask (pos mod 8)]) q \<longleftrightarrow> q = pos \<or> byte_bit bs q"
  using assms pos_eq [of q pos]
  by (auto simp: byte_bit_iff nth_list_update bit_or_iff bit_mask_bit offset_eq)

lemma byte_bit_clear:
  assumes "pos div 8 < length bs"
  shows "byte_bit (bs[pos div 8 := bs ! (pos div 8) AND NOT (bit_mask (pos mod 8))]) q \<longleftrightarrow> q \<noteq> pos \<and> byte_bit bs q"
proof -
  have "7 - q mod 8 < (8::nat)" by simp
  then show ?thesis
    using assms pos_eq [of q pos]
    by (auto simp: byte_bit_iff nth_list_update bit_and_iff bit_not_iff bit_mask_bit offset_eq)
qed

lemma scan_positions_upt: "varCountTotal bm mod 8 = 0 \<Longrightarrow> scan_positions bm = [0..<varCountTotal bm]"
proof -
  have "concat (map (\<lambda>index. map (\<lambda>offset. index * 8 + offset) [0..<8]) [0..<n]) = [0..<n * 8]" for n :: nat
  proof (induction n)
    case (Suc n)
    have "[0..<Suc n * 8] = [0..<n * 8] @ [n * 8..<n * 8 + 8]" using upt_add_eq_append [of 0 "n * 8" 8] by (simp add: add.commute)
    moreover have "map (\<lambda>offset. n * 8 + offset) [0..<8] = [n * 8..<n * 8 + 8]"
      using map_add_upt [of "n * 8" 8] by (simp add: add.commute)
    ultimately show ?case using Suc by simp
  qed simp
  then show "varCountTotal bm mod 8 = 0 \<Longrightarrow> scan_positions bm = [0..<varCountTotal bm]"
    by (auto simp: scan_positions_def)
qed

section \<open>Invariant\<close>

definition clear_bits :: "Bitmap \<Rightarrow> nat list" where
  "clear_bits bm = filter (\<lambda>pos. \<not> byte_bit (bm_bytes bm) pos) [0..<varCountTotal bm]"

definition bitmap_ok :: "Bitmap \<Rightarrow> bool" where
  "bitmap_ok bm \<longleftrightarrow> varCountTotal bm mod 8 = 0 \<and> length (bm_bytes bm) = varCountTotal bm div 8 \<and>
     varCountTotal bm < 2 ^ 35 \<and> varCountFree bm = length (clear_bits bm)"

definition is_set :: "Bitmap \<Rightarrow> nat \<Rightarrow> bool" where
  "is_set bm pos \<longleftrightarrow> pos < varCountTotal bm \<and> byte_bit (bm_bytes bm) pos"

lemma clear_bits_length: "length (clear_bits bm) \<le> varCountTotal bm"
  using length_filter_le [of "\<lambda>pos. \<not> byte_bit (bm_bytes bm) pos" "[0..<varCountTotal bm]"] by (simp add: clear_bits_def)

lemma pos_in_bytes: "bitmap_ok bm \<Longrightarrow> pos < varCountTotal bm \<Longrightarrow> pos div 8 < length (bm_bytes bm)"
  by (auto simp: bitmap_ok_def)

lemma card_clear: "card {p. p < varCountTotal bm \<and> \<not> is_set bm p} = length (clear_bits bm)"
proof -
  have "{p. p < varCountTotal bm \<and> \<not> is_set bm p} = set (clear_bits bm)" by (auto simp: clear_bits_def is_set_def)
  moreover have "card (set (clear_bits bm)) = length (clear_bits bm)" by (rule distinct_card) (simp add: clear_bits_def)
  ultimately show ?thesis by simp
qed

text \<open>The count follows when one bit changes.\<close>

lemma count_changed:
  assumes "pos < varCountTotal bm" and "varCountTotal bm' = varCountTotal bm"
    and "\<And>q. is_set bm' q \<longleftrightarrow> (if q = pos then \<not> is_set bm pos else is_set bm q)"
  shows "if is_set bm pos then length (clear_bits bm') = Suc (length (clear_bits bm))
    else Suc (length (clear_bits bm')) = length (clear_bits bm)"
proof -
  let ?A = "\<lambda>bm. {p. p < varCountTotal bm \<and> \<not> is_set bm p}"
  have fin: "finite (?A bm)" "finite (?A bm')" by auto
  show ?thesis
  proof (cases "is_set bm pos")
    case True
    then have "?A bm' = insert pos (?A bm)" "pos \<notin> ?A bm" using assms by auto
    then show ?thesis using True fin card_clear [of bm] card_clear [of bm'] by simp
  next
    case False
    then have "?A bm = insert pos (?A bm')" "pos \<notin> ?A bm'" using assms by auto
    then show ?thesis using False fin card_clear [of bm] card_clear [of bm'] by simp
  qed
qed

lemma bitmap_set_ok:
  assumes ok: "bitmap_ok bm" and pos: "pos < varCountTotal bm"
  shows "fst (bitmap_set bm pos)" and "bitmap_ok (snd (bitmap_set bm pos))"
    and "varCountTotal (snd (bitmap_set bm pos)) = varCountTotal bm"
    and "is_set (snd (bitmap_set bm pos)) q \<longleftrightarrow> q = pos \<or> is_set bm q"
proof -
  let ?bm = "snd (bitmap_set bm pos)"
  show "fst (bitmap_set bm pos)" and tot: "varCountTotal ?bm = varCountTotal bm"
    using pos by (simp_all add: bitmap_set_def Let_def)
  show set: "is_set ?bm q \<longleftrightarrow> q = pos \<or> is_set bm q" for q
    using pos byte_bit_set [OF pos_in_bytes [OF ok pos], of q]
    by (auto simp: is_set_def bitmap_set_def Let_def byte_bit_def [of "bm_bytes bm" pos])
  show "bitmap_ok ?bm"
  proof (cases "is_set bm pos")
    case True
    then show ?thesis using ok pos by (simp add: bitmap_set_def Let_def is_set_def byte_bit_def)
  next
    case False
    then have "Suc (length (clear_bits ?bm)) = varCountFree bm"
      using count_changed [OF pos tot] set ok by (auto simp: bitmap_ok_def)
    moreover have "varCountFree ?bm = dec64 (varCountFree bm)"
      using False pos by (simp add: bitmap_set_def Let_def is_set_def byte_bit_def)
    moreover have "varCountFree bm \<le> varCountTotal bm" "varCountTotal bm < 2 ^ 35"
      using ok clear_bits_length [of bm] by (auto simp: bitmap_ok_def)
    ultimately have "varCountFree ?bm = length (clear_bits ?bm)" using dec64_Suc [of "length (clear_bits ?bm)"] by simp
    then show ?thesis using ok tot pos by (auto simp: bitmap_ok_def bitmap_set_def Let_def)
  qed
qed

lemma bitmap_clear_ok:
  assumes ok: "bitmap_ok bm" and pos: "pos < varCountTotal bm"
  shows "fst (bitmap_clear bm pos)" and "bitmap_ok (snd (bitmap_clear bm pos))"
    and "varCountTotal (snd (bitmap_clear bm pos)) = varCountTotal bm"
    and "is_set (snd (bitmap_clear bm pos)) q \<longleftrightarrow> q \<noteq> pos \<and> is_set bm q"
proof -
  let ?bm = "snd (bitmap_clear bm pos)"
  show "fst (bitmap_clear bm pos)" and tot: "varCountTotal ?bm = varCountTotal bm"
    using pos by (simp_all add: bitmap_clear_def Let_def)
  show set: "is_set ?bm q \<longleftrightarrow> q \<noteq> pos \<and> is_set bm q" for q
    using pos byte_bit_clear [OF pos_in_bytes [OF ok pos], of q]
    by (auto simp: is_set_def bitmap_clear_def Let_def byte_bit_def [of "bm_bytes bm" pos])
  show "bitmap_ok ?bm"
  proof (cases "is_set bm pos")
    case False
    then show ?thesis using ok pos by (simp add: bitmap_clear_def Let_def is_set_def byte_bit_def)
  next
    case True
    then have "length (clear_bits ?bm) = Suc (varCountFree bm)"
      using count_changed [OF pos tot] set ok by (auto simp: bitmap_ok_def)
    moreover have "varCountFree ?bm = inc64 (varCountFree bm)"
      using True pos by (simp add: bitmap_clear_def Let_def is_set_def byte_bit_def)
    moreover have "varCountFree bm \<le> varCountTotal bm" "varCountTotal bm < 2 ^ 35"
      using ok clear_bits_length [of bm] by (auto simp: bitmap_ok_def)
    ultimately have "varCountFree ?bm = length (clear_bits ?bm)" by (simp add: inc64_def)
    then show ?thesis using ok tot pos by (auto simp: bitmap_ok_def bitmap_clear_def Let_def)
  qed
qed

lemma bitmap_get_ok: "bitmap_get bm pos = (if pos < varCountTotal bm then Some (is_set bm pos) else None)"
  by (simp add: bitmap_get_def is_set_def)

lemma count_clear_loop:
  "length xs + n < 2 ^ 64 \<Longrightarrow> foldl (\<lambda>n pos. if P pos then n else inc64 n) n xs = n + length (filter (\<lambda>p. \<not> P p) xs)"
  by (induction xs arbitrary: n) (auto simp: inc64_def)

lemma Bitmap_new_ok:
  assumes "cnt mod 8 = 0" and "cnt < 2 ^ 35" and "cnt div 8 \<le> length buf"
  obtains bm where "Bitmap_new cnt (Some buf) = Inr bm" "bitmap_ok bm" "varCountTotal bm = cnt"
    "\<And>pos. is_set bm pos \<longleftrightarrow> pos < cnt \<and> byte_bit buf pos"
proof -
  let ?bm = "\<lparr>bm_bytes = take (cnt div 8) buf, varCountFree = 0, varCountTotal = cnt\<rparr>"
  let ?n = "foldl (\<lambda>n pos. if byte_bit (take (cnt div 8) buf) pos then n else inc64 n) 0 [0..<cnt]"
  have pos: "byte_bit (take (cnt div 8) buf) p = byte_bit buf p" if "p < cnt" for p
    using that assms(1) by (auto simp: byte_bit_def)
  have "?n = length (filter (\<lambda>p. \<not> byte_bit (take (cnt div 8) buf) p) [0..<cnt])"
    using count_clear_loop [of "[0..<cnt]" 0 "byte_bit (take (cnt div 8) buf)"] assms(2) by simp
  then have "bitmap_ok (?bm\<lparr>varCountFree := ?n\<rparr>)" using assms by (simp add: bitmap_ok_def clear_bits_def)
  moreover have "Bitmap_new cnt (Some buf) = Inr (?bm\<lparr>varCountFree := ?n\<rparr>)"
    using assms(1) scan_positions_upt [of ?bm] by (simp add: Bitmap_new_def Let_def)
  ultimately show thesis using that pos by (auto simp: is_set_def)
qed

section \<open>The contract of a bit array\<close>

locale bit_array =
  fixes ok :: "'b \<Rightarrow> bool"
    and size_of :: "'b \<Rightarrow> nat"
    and bits :: "'b \<Rightarrow> nat \<Rightarrow> bool"
    and get :: "'b \<Rightarrow> nat \<Rightarrow> bool option"
    and set_bit :: "'b \<Rightarrow> nat \<Rightarrow> bool \<times> 'b"
    and clear_bit :: "'b \<Rightarrow> nat \<Rightarrow> bool \<times> 'b"
    and free_count :: "'b \<Rightarrow> nat"
  assumes get_spec: "get b p = (if p < size_of b then Some (bits b p) else None)"
    and set_spec: "ok b \<Longrightarrow> p < size_of b \<Longrightarrow>
      fst (set_bit b p) \<and> ok (snd (set_bit b p)) \<and> size_of (snd (set_bit b p)) = size_of b \<and>
      bits (snd (set_bit b p)) = (bits b)(p := True)"
    and clear_spec: "ok b \<Longrightarrow> p < size_of b \<Longrightarrow>
      fst (clear_bit b p) \<and> ok (snd (clear_bit b p)) \<and> size_of (snd (clear_bit b p)) = size_of b \<and>
      bits (snd (clear_bit b p)) = (bits b)(p := False)"
    and free_spec: "ok b \<Longrightarrow> free_count b = card {p. p < size_of b \<and> \<not> bits b p}"
begin

text \<open>A list of the free positions stays one when its head is taken and when a position is returned.\<close>

definition free_list_of :: "'b \<Rightarrow> nat list \<Rightarrow> bool" where
  "free_list_of b fs \<longleftrightarrow> distinct fs \<and> set fs = {p. p < size_of b \<and> \<not> bits b p}"

lemma take_free:
  assumes "ok b" and "free_list_of b (p # fs)"
  shows "p < size_of b" "\<not> bits b p" "free_list_of (snd (set_bit b p)) fs"
proof -
  have d: "distinct fs" "p \<notin> set fs" and s: "insert p (set fs) = {q. q < size_of b \<and> \<not> bits b q}"
    using assms(2) by (simp_all add: free_list_of_def)
  then show p: "p < size_of b" "\<not> bits b p" by blast+
  have "set fs = {q. q < size_of b \<and> \<not> bits b q} - {p}" using s d(2) by blast
  then show "free_list_of (snd (set_bit b p)) fs"
    using d(1) set_spec [OF assms(1) p(1)] by (auto simp: free_list_of_def)
qed

lemma return_free:
  assumes "ok b" and "free_list_of b fs" and "p < size_of b" and "bits b p"
  shows "free_list_of (snd (clear_bit b p)) (p # fs)"
  using assms clear_spec [of b p] by (auto simp: free_list_of_def)

lemma free_count_list:
  assumes "ok b" and "free_list_of b fs"
  shows "free_count b = length fs"
  using assms free_spec distinct_card [of fs] by (simp add: free_list_of_def)

end

interpretation bmp: bit_array bitmap_ok varCountTotal is_set bitmap_get bitmap_set bitmap_clear countFree
proof
  show "bitmap_get b p = (if p < varCountTotal b then Some (is_set b p) else None)" for b p by (rule bitmap_get_ok)
  show "fst (bitmap_set b p) \<and> bitmap_ok (snd (bitmap_set b p)) \<and> varCountTotal (snd (bitmap_set b p)) = varCountTotal b \<and>
    is_set (snd (bitmap_set b p)) = (is_set b)(p := True)" if "bitmap_ok b" "p < varCountTotal b" for b p
    using bitmap_set_ok [OF that] by (auto simp: fun_eq_iff)
  show "fst (bitmap_clear b p) \<and> bitmap_ok (snd (bitmap_clear b p)) \<and> varCountTotal (snd (bitmap_clear b p)) = varCountTotal b \<and>
    is_set (snd (bitmap_clear b p)) = (is_set b)(p := False)" if "bitmap_ok b" "p < varCountTotal b" for b p
    using bitmap_clear_ok [OF that] by (auto simp: fun_eq_iff)
  show "countFree b = card {p. p < varCountTotal b \<and> \<not> is_set b p}" if "bitmap_ok b" for b
    using that card_clear [of b] by (simp add: countFree_def bitmap_ok_def)
qed

section \<open>Properties\<close>

text \<open>With at most \<open>2 ^ 32\<close> bits, the search for a free bit returns the first clear position, and
  returns nothing exactly if every bit is set.\<close>

lemma findFree_first:
  assumes "bitmap_ok bm" and "varCountTotal bm \<le> 2 ^ 32"
  shows "case findFree bm of
      Some pos \<Rightarrow> pos < varCountTotal bm \<and> bitmap_get bm pos = Some False \<and> (\<forall>q < pos. bitmap_get bm q = Some True)
    | None \<Rightarrow> \<forall>pos < varCountTotal bm. bitmap_get bm pos = Some True"
proof -
  have scan: "scan_positions bm = [0..<varCountTotal bm]" using assms(1) by (simp add: scan_positions_upt bitmap_ok_def)
  let ?find = "find (\<lambda>pos. \<not> byte_bit (bm_bytes bm) pos) [0..<varCountTotal bm]"
  have none: "varCountFree bm = 0 \<longleftrightarrow> ?find = None"
    using assms(1) by (auto simp: bitmap_ok_def clear_bits_def find_None_iff filter_empty_conv)
  show ?thesis
  proof (cases ?find)
    case None
    then show ?thesis using none by (auto simp: findFree_def scan bitmap_get_def find_None_iff)
  next
    case (Some pos)
    then have p: "pos < varCountTotal bm" "\<not> byte_bit (bm_bytes bm) pos" "\<forall>q < pos. byte_bit (bm_bytes bm) q"
      by (auto simp: find_Some_iff)
    then show ?thesis using none Some assms(2) by (simp add: findFree_def scan bitmap_get_def)
  qed
qed

lemma findFree_first_witness:
  "bitmap_ok \<lparr>bm_bytes = [0xC0], varCountFree = 6, varCountTotal = 8\<rparr> \<and>
   findFree \<lparr>bm_bytes = [0xC0], varCountFree = 6, varCountTotal = 8\<rparr> = Some 2 \<and>
   bitmap_get \<lparr>bm_bytes = [0xC0], varCountFree = 6, varCountTotal = 8\<rparr> 1 = Some True"
proof -
  let ?bm = "\<lparr>bm_bytes = [0xC0], varCountFree = 6, varCountTotal = 8\<rparr>"
  have ok: "bitmap_ok ?bm"
    by (simp add: bitmap_ok_def clear_bits_def byte_bit_def bit_mask_def upt_rec)
  moreover have f: "findFree ?bm = Some 2"
    by (simp add: findFree_def scan_positions_def byte_bit_def bit_mask_def upt_rec)
  ultimately show ?thesis using findFree_first [OF ok] by simp
qed

end
