(* ===== verification/OctoTable.thy ===== *)
theory OctoTable
  imports OctoBitmap
begin

text \<open>
  The table of fixed-size items of the Octopus file system, \<^verbatim>\<open>sys/octopus/include/table.hpp\<close>: an array of
  items, a bitmap that says which of them exist, and a chain of the free positions.

  Every operation takes the mutex of the table. An operation that would wait for a mutex nobody releases
  does not return: \<open>None\<close>. In an operation that returns, the inner option is the item that was read. The
  null checks on the result pointers have no counterpart.
\<close>

section \<open>Operations\<close>

record 'a Table =
  bitmapItems :: Bitmap
  table_items :: "'a list"
  headFreeBit :: "nat list"
  mutexBitmapItems :: bool

text \<open>\<^verbatim>\<open>create(index)\<close>: the result and the index written. The function returns without releasing the mutex
  when there is no free position.\<close>

definition Table_create :: "'a Table \<Rightarrow> ((bool \<times> nat option) \<times> 'a Table) option" where
  "Table_create t =
     (if mutexBitmapItems t then None
      else case headFreeBit t of
             [] \<Rightarrow> Some ((False, None), t\<lparr>mutexBitmapItems := True\<rparr>)
           | index # chain \<Rightarrow>
               (case bitmap_set (bitmapItems t) index of
                  (result, bm) \<Rightarrow> Some ((result, Some index), t\<lparr>bitmapItems := bm, headFreeBit := chain\<rparr>)))"

text \<open>\<^verbatim>\<open>create(index, item)\<close>.\<close>

definition Table_create_item :: "'a Table \<Rightarrow> 'a \<Rightarrow> ((bool \<times> nat option) \<times> 'a Table) option" where
  "Table_create_item t item =
     (if mutexBitmapItems t then None
      else case headFreeBit t of
             [] \<Rightarrow> Some ((False, None), t\<lparr>mutexBitmapItems := True\<rparr>)
           | index # chain \<Rightarrow>
               (case bitmap_set (bitmapItems t) index of
                  (result, bm) \<Rightarrow>
                    (let t1 = t\<lparr>bitmapItems := bm, headFreeBit := chain\<rparr>
                     in Some ((result, Some index),
                          if result then t1\<lparr>table_items := (table_items t1)[index := item]\<rparr> else t1))))"

definition Table_get :: "'a Table \<Rightarrow> nat \<Rightarrow> 'a option option" where
  "Table_get t index =
     (if mutexBitmapItems t then None
      else Some (case bitmap_get (bitmapItems t) index of
                   None \<Rightarrow> None
                 | Some status \<Rightarrow> if status then Some (table_items t ! index) else None))"

text \<open>The variants that also give the address of the item, for an array at \<open>base\<close> with items of \<open>sz\<close> bytes.
  The second one only looks up the address and stores nothing.\<close>

definition Table_get_address :: "nat \<Rightarrow> nat \<Rightarrow> 'a Table \<Rightarrow> nat \<Rightarrow> ('a \<times> nat) option option" where
  "Table_get_address base sz t index =
     (if mutexBitmapItems t then None
      else Some (case bitmap_get (bitmapItems t) index of
                   None \<Rightarrow> None
                 | Some status \<Rightarrow> if status then Some (table_items t ! index, base + index * sz) else None))"

definition Table_put :: "'a Table \<Rightarrow> nat \<Rightarrow> 'a \<Rightarrow> (bool \<times> 'a Table) option" where
  "Table_put t index item =
     (if mutexBitmapItems t then None
      else Some (case bitmap_get (bitmapItems t) index of
                   None \<Rightarrow> (False, t)
                 | Some status \<Rightarrow>
                     if status then (True, t\<lparr>table_items := (table_items t)[index := item]\<rparr>) else (False, t)))"

definition Table_put_address :: "nat \<Rightarrow> nat \<Rightarrow> 'a Table \<Rightarrow> nat \<Rightarrow> nat option option" where
  "Table_put_address base sz t index =
     (if mutexBitmapItems t then None
      else Some (case bitmap_get (bitmapItems t) index of
                   None \<Rightarrow> None
                 | Some status \<Rightarrow> if status then Some (base + index * sz) else None))"

definition Table_remove :: "'a Table \<Rightarrow> nat \<Rightarrow> (bool \<times> 'a Table) option" where
  "Table_remove t index =
     (if mutexBitmapItems t then None
      else Some (case bitmap_get (bitmapItems t) index of
                   None \<Rightarrow> (False, t)
                 | Some status \<Rightarrow>
                     if status then
                       (case bitmap_clear (bitmapItems t) index of
                          (result, bm) \<Rightarrow>
                            if result then (True, t\<lparr>bitmapItems := bm, headFreeBit := index # headFreeBit t\<rparr>)
                            else (False, t\<lparr>bitmapItems := bm\<rparr>))
                     else (False, t)))"

definition countSavedItems :: "'a Table \<Rightarrow> nat" where
  "countSavedItems t = (countTotal (bitmapItems t) + (2 ^ 64 - countFree (bitmapItems t))) mod 2 ^ 64"

definition countTotalItems :: "'a Table \<Rightarrow> nat" where
  "countTotalItems t = countTotal (bitmapItems t)"

text \<open>
  The constructor puts the items first and the bitmap behind them, but fills the free chain from the bits
  of the first bytes of the buffer. \<open>decode\<close> reads an item of \<open>sz\<close> bytes. The two loops run backwards and
  push to the front, so the chain has the positions in increasing order.
\<close>

definition Table_new :: "(u8 list \<Rightarrow> 'a) \<Rightarrow> nat \<Rightarrow> u8 list option \<Rightarrow> nat \<Rightarrow> octo_exit + 'a Table" where
  "Table_new decode sz buffer cnt =
     (case buffer of
        None \<Rightarrow> Inl Table_null_buffer
      | Some buf \<Rightarrow>
          if cnt mod 8 \<noteq> 0 then Inl Table_count_alignment
          else (case Bitmap_new cnt (Some (drop (cnt * sz) buf)) of
                  Inl e \<Rightarrow> Inl e
                | Inr bm \<Rightarrow>
                    Inr \<lparr>bitmapItems = bm,
                         table_items = map (\<lambda>i. decode (take sz (drop (i * sz) buf))) [0..<cnt],
                         headFreeBit = filter (\<lambda>pos. \<not> byte_bit buf pos) [0..<cnt],
                         mutexBitmapItems = False\<rparr>))"

section \<open>Invariant and contents\<close>

definition table_inv :: "'a Table \<Rightarrow> bool" where
  "table_inv t \<longleftrightarrow> bitmap_ok (bitmapItems t) \<and> length (table_items t) = varCountTotal (bitmapItems t) \<and>
     bmp.free_list_of (bitmapItems t) (headFreeBit t) \<and> \<not> mutexBitmapItems t"

definition saved :: "'a Table \<Rightarrow> nat \<Rightarrow> 'a option" where
  "saved t index = (if is_set (bitmapItems t) index then Some (table_items t ! index) else None)"

lemma is_set_range: "is_set bm i \<Longrightarrow> i < varCountTotal bm"
  by (simp add: is_set_def)

lemma Table_create_ok:
  assumes "table_inv t" and "headFreeBit t = index # chain"
  obtains t' where "Table_create t = Some ((True, Some index), t')" "table_inv t'" "saved t index = None"
    "saved t' = (saved t)(index \<mapsto> table_items t ! index)" "headFreeBit t' = chain"
proof -
  let ?bm = "snd (bitmap_set (bitmapItems t) index)"
  have ok: "bitmap_ok (bitmapItems t)" and fl: "bmp.free_list_of (bitmapItems t) (index # chain)"
    using assms by (auto simp: table_inv_def)
  note free = bmp.take_free [OF ok fl] and st = bmp.set_spec [OF ok bmp.take_free(1) [OF ok fl]]
  have "Table_create t = Some ((True, Some index), t\<lparr>bitmapItems := ?bm, headFreeBit := chain\<rparr>)"
    using assms st by (simp add: Table_create_def table_inv_def case_prod_beta)
  moreover have "table_inv (t\<lparr>bitmapItems := ?bm, headFreeBit := chain\<rparr>)"
    using assms(1) st free(3) by (simp add: table_inv_def)
  moreover have "saved t index = None" using free(2) by (simp add: saved_def)
  moreover have "saved (t\<lparr>bitmapItems := ?bm, headFreeBit := chain\<rparr>) = (saved t)(index \<mapsto> table_items t ! index)"
    using st by (auto simp: saved_def fun_eq_iff)
  ultimately show thesis using that by simp
qed

lemma Table_create_item_ok:
  assumes "table_inv t" and "headFreeBit t = index # chain"
  obtains t' where "Table_create_item t item = Some ((True, Some index), t')" "table_inv t'" "saved t index = None"
    "saved t' = (saved t)(index \<mapsto> item)" "headFreeBit t' = chain"
proof -
  let ?bm = "snd (bitmap_set (bitmapItems t) index)"
  let ?t = "t\<lparr>bitmapItems := ?bm, headFreeBit := chain, table_items := (table_items t)[index := item]\<rparr>"
  have ok: "bitmap_ok (bitmapItems t)" and fl: "bmp.free_list_of (bitmapItems t) (index # chain)"
    and len: "length (table_items t) = varCountTotal (bitmapItems t)"
    using assms by (auto simp: table_inv_def)
  note free = bmp.take_free [OF ok fl] and st = bmp.set_spec [OF ok bmp.take_free(1) [OF ok fl]]
  have "Table_create_item t item = Some ((True, Some index), ?t)"
    using assms st by (simp add: Table_create_item_def table_inv_def case_prod_beta Let_def)
  moreover have "table_inv ?t" using assms(1) st free(3) by (simp add: table_inv_def)
  moreover have "saved t index = None" using free(2) by (simp add: saved_def)
  moreover have "saved ?t = (saved t)(index \<mapsto> item)"
    using st free(1) len by (auto simp: saved_def fun_eq_iff)
  ultimately show thesis using that by simp
qed

lemma Table_get_ok: "table_inv t \<Longrightarrow> Table_get t index = Some (saved t index)"
  by (auto simp: Table_get_def table_inv_def bmp.get_spec saved_def dest: is_set_range)

lemma Table_put_ok:
  assumes "table_inv t"
  obtains t' where "Table_put t index item = Some (saved t index \<noteq> None, t')" "table_inv t'" "headFreeBit t' = headFreeBit t"
    "saved t' = (if saved t index = None then saved t else (saved t)(index \<mapsto> item))"
proof -
  let ?t = "t\<lparr>table_items := (table_items t)[index := item]\<rparr>"
  have un: "\<not> mutexBitmapItems t" and len: "length (table_items t) = varCountTotal (bitmapItems t)"
    using assms by (simp_all add: table_inv_def)
  show thesis
  proof (cases "is_set (bitmapItems t) index")
    case True
    note r = is_set_range [OF True]
    have "Table_put t index item = Some (True, ?t)" using un True r by (simp add: Table_put_def bmp.get_spec)
    moreover have "table_inv ?t" using assms by (simp add: table_inv_def)
    moreover have "saved ?t = (saved t)(index \<mapsto> item)" using True r len by (auto simp: saved_def fun_eq_iff)
    moreover have "saved t index \<noteq> None" using True by (simp add: saved_def)
    ultimately show thesis using that [of ?t] by auto
  next
    case False
    then have "Table_put t index item = Some (False, t)" "saved t index = None"
      using un by (simp_all add: Table_put_def bmp.get_spec saved_def)
    then show thesis using that [of t] assms by simp
  qed
qed

lemma Table_remove_ok:
  assumes "table_inv t"
  obtains t' where "Table_remove t index = Some (saved t index \<noteq> None, t')" "table_inv t'"
    "saved t' = (saved t)(index := None)"
    "headFreeBit t' = (if saved t index = None then headFreeBit t else index # headFreeBit t)"
proof -
  let ?bm = "snd (bitmap_clear (bitmapItems t) index)"
  let ?t = "t\<lparr>bitmapItems := ?bm, headFreeBit := index # headFreeBit t\<rparr>"
  have ok: "bitmap_ok (bitmapItems t)" and un: "\<not> mutexBitmapItems t"
    and fl: "bmp.free_list_of (bitmapItems t) (headFreeBit t)" using assms by (simp_all add: table_inv_def)
  show thesis
  proof (cases "is_set (bitmapItems t) index")
    case True
    note r = is_set_range [OF True]
    note cl = bmp.clear_spec [OF ok r]
    have "Table_remove t index = Some (True, ?t)"
      using un True r cl by (simp add: Table_remove_def bmp.get_spec case_prod_beta)
    moreover have "table_inv ?t" using assms cl bmp.return_free [OF ok fl r True] by (simp add: table_inv_def)
    moreover have "saved ?t = (saved t)(index := None)" using cl by (auto simp: saved_def fun_eq_iff)
    moreover have "saved t index \<noteq> None" using True by (simp add: saved_def)
    ultimately show thesis using that [of ?t] by simp
  next
    case False
    then have "Table_remove t index = Some (False, t)" "saved t index = None"
      using un by (simp_all add: Table_remove_def bmp.get_spec saved_def)
    moreover from this(2) have "saved t = (saved t)(index := None)" by (simp add: fun_upd_idem)
    ultimately show thesis using that [of t] assms by simp
  qed
qed

lemma Table_new_ok:
  assumes "cnt mod 8 = 0" and "cnt < 2 ^ 35" and "cnt * sz + cnt div 8 \<le> length buf"
    and "\<And>pos. pos < cnt \<Longrightarrow> byte_bit buf pos \<longleftrightarrow> byte_bit (drop (cnt * sz) buf) pos"
  obtains t where "Table_new decode sz (Some buf) cnt = Inr t" "table_inv t" "varCountTotal (bitmapItems t) = cnt"
    "saved t = (\<lambda>i. if i < cnt \<and> byte_bit buf i then Some (decode (take sz (drop (i * sz) buf))) else None)"
proof -
  have len: "cnt div 8 \<le> length (drop (cnt * sz) buf)" using assms(3) by simp
  obtain bm where bm: "Bitmap_new cnt (Some (drop (cnt * sz) buf)) = Inr bm" "bitmap_ok bm" "varCountTotal bm = cnt"
    "\<And>pos. is_set bm pos \<longleftrightarrow> pos < cnt \<and> byte_bit (drop (cnt * sz) buf) pos"
    using Bitmap_new_ok [OF assms(1,2) len] by blast
  let ?t = "\<lparr>bitmapItems = bm, table_items = map (\<lambda>i. decode (take sz (drop (i * sz) buf))) [0..<cnt],
      headFreeBit = filter (\<lambda>pos. \<not> byte_bit buf pos) [0..<cnt], mutexBitmapItems = False\<rparr>"
  have set: "is_set bm i \<longleftrightarrow> i < cnt \<and> byte_bit buf i" for i using bm(4) assms(4) by auto
  have "Table_new decode sz (Some buf) cnt = Inr ?t" using assms(1) bm(1) by (simp add: Table_new_def)
  moreover have "table_inv ?t" using bm(2,3) set by (auto simp: table_inv_def bmp.free_list_of_def)
  moreover have "saved ?t = (\<lambda>i. if i < cnt \<and> byte_bit buf i then Some (decode (take sz (drop (i * sz) buf))) else None)"
    using set by (simp add: saved_def fun_eq_iff)
  ultimately show thesis using that bm(3) by simp
qed

text \<open>On zeroed memory the table is empty.\<close>

lemma byte_bit_zero: "pos div 8 < n \<Longrightarrow> \<not> byte_bit (replicate n 0) pos"
  by (simp add: byte_bit_def)

lemma Table_new_zero:
  assumes "cnt mod 8 = 0" and "cnt < 2 ^ 35" and "cnt * sz + cnt div 8 \<le> n"
  obtains t where "Table_new decode sz (Some (replicate n 0)) cnt = Inr t" and "table_inv t" and "saved t = (\<lambda>_. None)"
    and "length (headFreeBit t) = cnt"
proof -
  have len: "cnt * sz + cnt div 8 \<le> length (replicate n (0::u8))" using assms(3) by simp
  have zero: "\<not> byte_bit (replicate m 0) pos" if "pos < cnt" "cnt div 8 \<le> m" for pos m
    using that assms(1) by (intro byte_bit_zero) auto
  obtain t where t: "Table_new decode sz (Some (replicate n 0)) cnt = Inr t" "table_inv t" "varCountTotal (bitmapItems t) = cnt"
      "saved t = (\<lambda>i. if i < cnt \<and> byte_bit (replicate n 0) i then Some (decode (take sz (drop (i * sz) (replicate n 0)))) else None)"
    by (rule Table_new_ok [OF assms(1,2) len, where decode = decode]) (use assms(3) zero in auto)
  have none: "saved t = (\<lambda>_. None)" using zero assms(3) by (auto simp: t(4) fun_eq_iff)
  then have "\<not> is_set (bitmapItems t) i" for i by (metis option.distinct(1) saved_def)
  then have "set (headFreeBit t) = {..<cnt}" "distinct (headFreeBit t)" using t(2,3) by (auto simp: table_inv_def bmp.free_list_of_def)
  then have "length (headFreeBit t) = cnt" using distinct_card [of "headFreeBit t"] by simp
  then show thesis using that t(1,2) none by blast
qed

section \<open>The contract of an item table\<close>

locale item_table =
  fixes inv :: "'t \<Rightarrow> bool"
    and view :: "'t \<Rightarrow> nat \<Rightarrow> 'a option"
    and room :: "'t \<Rightarrow> bool"
    and create :: "'t \<Rightarrow> 'a \<Rightarrow> ((bool \<times> nat option) \<times> 't) option"
    and get :: "'t \<Rightarrow> nat \<Rightarrow> 'a option option"
    and put :: "'t \<Rightarrow> nat \<Rightarrow> 'a \<Rightarrow> (bool \<times> 't) option"
    and remove :: "'t \<Rightarrow> nat \<Rightarrow> (bool \<times> 't) option"
  assumes create_spec: "inv t \<Longrightarrow> room t \<Longrightarrow>
      \<exists>i t'. create t x = Some ((True, Some i), t') \<and> inv t' \<and> view t i = None \<and> view t' = (view t)(i \<mapsto> x)"
    and get_spec: "inv t \<Longrightarrow> get t i = Some (view t i)"
    and put_spec: "inv t \<Longrightarrow>
      \<exists>t'. put t i x = Some (view t i \<noteq> None, t') \<and> inv t' \<and> room t' = room t \<and>
        view t' = (if view t i = None then view t else (view t)(i \<mapsto> x))"
    and remove_spec: "inv t \<Longrightarrow>
      \<exists>t'. remove t i = Some (view t i \<noteq> None, t') \<and> inv t' \<and> view t' = (view t)(i := None) \<and>
        (room t \<or> view t i \<noteq> None \<longrightarrow> room t')"
begin

lemma create_then_get:
  assumes "inv t" and "room t" and "create t x = Some ((r, oi), t')"
  shows "\<exists>i. r \<and> oi = Some i \<and> get t i = Some None \<and> get t' i = Some (Some x) \<and> (\<forall>j. j \<noteq> i \<longrightarrow> get t' j = get t j)"
  using create_spec [OF assms(1,2), of x] assms(1,3) by (auto simp: get_spec)

lemma put_then_get:
  assumes "inv t" and "put t i x = Some (r, t')"
  shows "get t' j = (if j = i \<and> r then Some (Some x) else get t j) \<and> r = (get t i \<noteq> Some None) \<and> inv t'"
  using put_spec [OF assms(1), of i x] assms by (auto simp: get_spec)

lemma remove_then_get:
  assumes "inv t" and "remove t i = Some (r, t')"
  shows "get t' j = (if j = i then Some None else get t j) \<and> r = (get t i \<noteq> Some None) \<and> inv t'"
  using remove_spec [OF assms(1), of i] assms by (auto simp: get_spec)

text \<open>A position that has been removed can be given out again.\<close>

lemma remove_makes_room:
  assumes "inv t" and "view t i \<noteq> None"
  shows "\<exists>t' j t''. remove t i = Some (True, t') \<and> create t' x = Some ((True, Some j), t'')"
  using remove_spec [OF assms(1), of i] create_spec assms(2) by fastforce

end

interpretation tbl: item_table table_inv saved "\<lambda>t. headFreeBit t \<noteq> []" Table_create_item Table_get Table_put Table_remove
proof
  fix t :: "'a Table" and x :: 'a and i :: nat
  assume inv: "table_inv t"
  show "Table_get t i = Some (saved t i)" by (rule Table_get_ok [OF inv])
  show "\<exists>t'. Table_put t i x = Some (saved t i \<noteq> None, t') \<and> table_inv t' \<and> (headFreeBit t' \<noteq> []) = (headFreeBit t \<noteq> []) \<and>
    saved t' = (if saved t i = None then saved t else (saved t)(i \<mapsto> x))"
    by (rule Table_put_ok [OF inv, of i x]) simp
  show "\<exists>t'. Table_remove t i = Some (saved t i \<noteq> None, t') \<and> table_inv t' \<and> saved t' = (saved t)(i := None) \<and>
    (headFreeBit t \<noteq> [] \<or> saved t i \<noteq> None \<longrightarrow> headFreeBit t' \<noteq> [])"
    by (rule Table_remove_ok [OF inv, of i]) auto
  assume "headFreeBit t \<noteq> []"
  then obtain index chain where "headFreeBit t = index # chain" by (cases "headFreeBit t") auto
  then show "\<exists>i t'. Table_create_item t x = Some ((True, Some i), t') \<and> table_inv t' \<and> saved t i = None \<and>
    saved t' = (saved t)(i \<mapsto> x)"
    using Table_create_item_ok [OF inv, of index chain x] by blast
qed

section \<open>Properties\<close>

text \<open>A table of eight numbers, one of them saved.\<close>

definition sample_table :: "nat Table" where
  "sample_table = \<lparr>bitmapItems = \<lparr>bm_bytes = [0x80], varCountFree = 7, varCountTotal = 8\<rparr>,
     table_items = [9, 0, 0, 0, 0, 0, 0, 0], headFreeBit = [1, 2, 3, 4, 5, 6, 7], mutexBitmapItems = False\<rparr>"

lemma sample_table_inv: "table_inv sample_table"
proof -
  have bits: "is_set (bitmapItems sample_table) p \<longleftrightarrow> p = 0" for p
  proof (cases "p < 8")
    case True
    then have "p \<in> set [0, 1, 2, 3, 4, 5, 6, 7]" by auto
    then show ?thesis by (auto simp: is_set_def sample_table_def byte_bit_def bit_mask_def)
  qed (auto simp: is_set_def sample_table_def)
  have "{p. p < 8 \<and> p \<noteq> 0} = {1, 2, 3, 4, 5, 6, 7 :: nat}" by auto
  then have "bmp.free_list_of (bitmapItems sample_table) (headFreeBit sample_table)"
    unfolding bmp.free_list_of_def using bits by (simp add: sample_table_def)
  then show ?thesis
    by (simp add: table_inv_def sample_table_def bitmap_ok_def clear_bits_def byte_bit_def bit_mask_def upt_rec)
qed

text \<open>C37: with a free position, creating an item succeeds and gives the index of an item that did not
  exist; the new item is read back under this index, and every other index reads as before.\<close>

theorem Table_create_then_get:
  assumes "table_inv t" and "headFreeBit t \<noteq> []" and "Table_create_item t x = Some ((r, oi), t')"
  shows "\<exists>i. r \<and> oi = Some i \<and> Table_get t i = Some None \<and> Table_get t' i = Some (Some x) \<and>
    (\<forall>j. j \<noteq> i \<longrightarrow> Table_get t' j = Table_get t j)"
  by (rule tbl.create_then_get [OF assms])

theorem Table_create_then_get_witness:
  "table_inv sample_table \<and> (\<exists>r i t'. Table_create_item sample_table 5 = Some ((r, Some i), t') \<and> Table_get t' i = Some (Some 5))"
proof -
  have ne: "headFreeBit sample_table \<noteq> []" by (simp add: sample_table_def)
  obtain i t' where "Table_create_item sample_table 5 = Some ((True, Some i), t')"
    using tbl.create_spec [OF sample_table_inv ne] by blast
  with Table_create_then_get [OF sample_table_inv ne this] sample_table_inv show ?thesis by auto
qed

text \<open>C38: removing an item makes exactly its index unreadable, fails exactly if there is no item, and
  keeps the table valid.\<close>

theorem Table_remove_then_get:
  assumes "table_inv t" and "Table_remove t i = Some (r, t')"
  shows "Table_get t' j = (if j = i then Some None else Table_get t j) \<and> r = (Table_get t i \<noteq> Some None) \<and> table_inv t'"
  by (rule tbl.remove_then_get [OF assms])

theorem Table_remove_then_get_witness:
  "table_inv sample_table \<and> (\<exists>r t'. Table_remove sample_table 0 = Some (r, t') \<and> Table_get t' 0 = Some None)"
proof -
  obtain r t' where "Table_remove sample_table 0 = Some (r, t')" using tbl.remove_spec [OF sample_table_inv] by blast
  with Table_remove_then_get [OF sample_table_inv this, of 0] sample_table_inv show ?thesis by auto
qed



text \<open>C40: the constructor fills the free chain from the item bytes and not from the bitmap. On a buffer
  whose first bytes are zero, a table that reports an item as saved gives its index out again and
  overwrites it.\<close>

theorem Table_new_forgets_saved:
  assumes "Table_new decode sz (Some buf) cnt = Inr t" and "0 < cnt" and "sz * cnt < length buf"
    and "\<forall>pos < cnt. \<not> byte_bit buf pos" and "byte_bit (drop (cnt * sz) buf) 0" and "8 \<le> cnt"
  shows "Table_get t 0 = Some (Some (decode (take sz buf))) \<and>
    (\<exists>t'. Table_create_item t x = Some ((True, Some 0), t') \<and> Table_get t' 0 = Some (Some x))"
proof -
  have "cnt mod 8 = 0" using assms(1) by (auto simp: Table_new_def split: if_splits)
  then obtain bm where bm: "Bitmap_new cnt (Some (drop (cnt * sz) buf)) = Inr bm"
    and t: "t = \<lparr>bitmapItems = bm, table_items = map (\<lambda>i. decode (take sz (drop (i * sz) buf))) [0..<cnt],
      headFreeBit = filter (\<lambda>pos. \<not> byte_bit buf pos) [0..<cnt], mutexBitmapItems = False\<rparr>"
    using assms(1) by (auto simp: Table_new_def split: sum.splits)
  have b: "varCountTotal bm = cnt" "bm_bytes bm = take (cnt div 8) (drop (cnt * sz) buf)"
    using bm by (auto simp: Bitmap_new_def Let_def split: if_splits)
  have "0 < cnt div 8" using assms(6) by (simp add: div_greater_zero_iff)
  then have set: "byte_bit (bm_bytes bm) 0" using assms(5) b(2) by (simp add: byte_bit_def)
  have chain: "headFreeBit t = 0 # [1..<cnt]"
    using assms(2,4) by (auto simp: t upt_conv_Cons filter_id_conv)
  have "Table_get t 0 = Some (Some (decode (take sz buf)))"
    using set b(1) assms(2) by (simp add: Table_get_def t bitmap_get_def)
  moreover have "bitmap_set bm 0 = (True, bm)" using set b(1) assms(2) by (simp add: bitmap_set_def byte_bit_def)
  then have "Table_create_item t x = Some ((True, Some 0), t\<lparr>headFreeBit := [1..<cnt], table_items := (table_items t)[0 := x]\<rparr>)"
    using chain by (simp add: Table_create_item_def t)
  moreover have "Table_get (t\<lparr>headFreeBit := [1..<cnt], table_items := (table_items t)[0 := x]\<rparr>) 0 = Some (Some x)"
    using set b(1) assms(2) by (simp add: Table_get_def t bitmap_get_def upt_conv_Cons)
  ultimately show ?thesis by blast
qed

theorem Table_new_forgets_saved_witness:
  "\<exists>t t'. Table_new hd 1 (Some ([0, 0, 0, 0, 0, 0, 0, 0, 0x80] :: u8 list)) 8 = Inr t \<and>
    Table_create_item t 7 = Some ((True, Some 0), t') \<and> Table_get t 0 = Some (Some 0)"
proof -
  let ?buf = "[0, 0, 0, 0, 0, 0, 0, 0, 0x80] :: u8 list"
  have z: "\<forall>pos < 8. \<not> byte_bit ?buf pos" by (simp add: byte_bit_def)
  have b: "byte_bit (drop (8 * 1) ?buf) 0" by (simp add: byte_bit_def bit_mask_def)
  obtain bm where "Bitmap_new 8 (Some (drop (8 * 1) ?buf)) = Inr bm"
    using Bitmap_new_ok [of 8 "drop (8 * 1) ?buf"] by auto
  then obtain t where t: "Table_new hd 1 (Some ?buf) 8 = Inr t" by (auto simp: Table_new_def)
  have s: "(0::nat) < 8" "1 * 8 < length ?buf" "(8::nat) \<le> 8" by simp_all
  from Table_new_forgets_saved [OF t s(1,2) z b s(3), of 7] t show ?thesis by auto
qed

end
