(* ===== verification/OctoHash.thy ===== *)
theory OctoHash
  imports OctoTable
begin

text \<open>
  The path index of the Octopus file system, \<^verbatim>\<open>sys/octopus/src/fs/hashtable.cpp\<close>: \<open>2 ^ 20\<close> hash items that
  head chains of chained items, which are linked by index (0 ends a chain) and allocated from a bitmap
  and a chain of free positions. A path is identified by its SHA-256 digest; the digest function is that
  of the Crypto++ library and a parameter here.

  Walking a chain is a loop over links in memory that need not end; \<open>None\<close> stands for that. The invariant
  \<open>hash_inv\<close> says that the chains are finite, disjoint and cover the allocated items. The operations take
  and release the mutex of the table on every path.
\<close>

section \<open>Data\<close>

definition HASH_ADDRESS_BITS :: nat where [simp]: "HASH_ADDRESS_BITS = 20"
definition HASH_ITEMS_COUNT :: nat where "HASH_ITEMS_COUNT = 2 ^ HASH_ADDRESS_BITS"

type_synonym UniqueHash = "u64 list"

record HashItem =
  hash_key_lock :: u64
  indexHead :: nat

record ChainedItem =
  indexNext :: nat
  indexMeta :: nat
  isDirectory :: bool
  hashUnique :: UniqueHash

record HashTable =
  bitmapChainedItems :: Bitmap
  itemsHash :: "nat \<Rightarrow> HashItem"
  itemsChained :: "ChainedItem list"
  freeChained :: "nat list"

type_synonym digest = "u8 list \<Rightarrow> UniqueHash"

definition getUniqueHash :: "digest \<Rightarrow> u8 list \<Rightarrow> nat \<Rightarrow> UniqueHash" where
  "getUniqueHash sha256 buf len = sha256 (take len buf)"

definition getAddressHash :: "UniqueHash \<Rightarrow> nat" where
  "getAddressHash h = unat (h ! 0 AND 0xFFFFF)"

definition getAddressHash_buf :: "digest \<Rightarrow> u8 list \<Rightarrow> nat \<Rightarrow> nat" where
  "getAddressHash_buf sha256 buf len = unat (sha256 (take len buf) ! 0 AND 0xFFFFF)"

section \<open>Operations\<close>

text \<open>The loops over a chain: found or not, the item before, and the item found.\<close>

partial_function (option) chain_walk :: "ChainedItem list \<Rightarrow> UniqueHash \<Rightarrow> nat \<Rightarrow> nat \<Rightarrow> (bool \<times> nat \<times> nat) option" where
  "chain_walk its h indexBeforeCurrent indexCurrent =
     (if indexCurrent = 0 then Some (False, indexBeforeCurrent, 0)
      else if hashUnique (its ! indexCurrent) = h then Some (True, indexBeforeCurrent, indexCurrent)
      else chain_walk its h indexCurrent (indexNext (its ! indexCurrent)))"

definition HashTable_get :: "HashTable \<Rightarrow> UniqueHash \<Rightarrow> (nat \<times> bool) option option" where
  "HashTable_get t h =
     (let head = indexHead (itemsHash t (getAddressHash h))
      in if head = 0 then Some None
         else case chain_walk (itemsChained t) h 0 head of
                None \<Rightarrow> None
              | Some (found, _, cur) \<Rightarrow>
                  Some (if found then Some (indexMeta (itemsChained t ! cur), isDirectory (itemsChained t ! cur)) else None))"

definition HashTable_get_path :: "digest \<Rightarrow> HashTable \<Rightarrow> u8 list \<Rightarrow> (nat \<times> bool) option option" where
  "HashTable_get_path sha256 t path = HashTable_get t (getUniqueHash sha256 path (strlen path))"

text \<open>A chained item is taken from the chain of free positions and filled; the index is the one taken.\<close>

definition new_chained :: "HashTable \<Rightarrow> UniqueHash \<Rightarrow> nat \<Rightarrow> bool \<Rightarrow> (bool \<times> nat) \<times> HashTable" where
  "new_chained t h meta dir =
     (case freeChained t of
        [] \<Rightarrow> ((False, 0), t)
      | index # chain \<Rightarrow>
          (case bitmap_set (bitmapChainedItems t) index of
             (result, bm) \<Rightarrow>
               (let t1 = t\<lparr>bitmapChainedItems := bm, freeChained := chain\<rparr>;
                    item = \<lparr>indexNext = 0, indexMeta = meta, isDirectory = dir, hashUnique = h\<rparr>
                in ((result, index),
                    if result then t1\<lparr>itemsChained := (itemsChained t1)[index := item]\<rparr> else t1))))"

definition put_at :: "HashTable \<Rightarrow> nat \<Rightarrow> UniqueHash \<Rightarrow> nat \<Rightarrow> bool \<Rightarrow> (bool \<times> HashTable) option" where
  "put_at t addr h meta dir =
     (let head = indexHead (itemsHash t addr)
      in if head = 0 then
           (case new_chained t h meta dir of
              ((result, index), t1) \<Rightarrow>
                Some (result,
                  if result then t1\<lparr>itemsHash := (itemsHash t1)(addr := (itemsHash t1 addr)\<lparr>indexHead := index\<rparr>)\<rparr> else t1))
         else
           (case chain_walk (itemsChained t) h 0 head of
              None \<Rightarrow> None
            | Some (found, before, cur) \<Rightarrow>
                if found then
                  Some (True, t\<lparr>itemsChained := (itemsChained t)[cur := (itemsChained t ! cur)\<lparr>indexMeta := meta, isDirectory := dir\<rparr>]\<rparr>)
                else
                  (case new_chained t h meta dir of
                     ((result, index), t1) \<Rightarrow>
                       Some (result,
                         if result
                         then t1\<lparr>itemsChained := (itemsChained t1)[before := (itemsChained t1 ! before)\<lparr>indexNext := index\<rparr>]\<rparr>
                         else t1))))"

definition HashTable_put :: "HashTable \<Rightarrow> UniqueHash \<Rightarrow> nat \<Rightarrow> bool \<Rightarrow> (bool \<times> HashTable) option" where
  "HashTable_put t h meta dir = put_at t (getAddressHash h) h meta dir"

definition HashTable_put_path :: "digest \<Rightarrow> HashTable \<Rightarrow> u8 list \<Rightarrow> nat \<Rightarrow> bool \<Rightarrow> (bool \<times> HashTable) option" where
  "HashTable_put_path sha256 t path meta dir =
     put_at t (getAddressHash_buf sha256 path (strlen path)) (getUniqueHash sha256 path (strlen path)) meta dir"

text \<open>A chained item is returned to the chain of free positions.\<close>

definition drop_chained :: "HashTable \<Rightarrow> nat \<Rightarrow> bool \<times> HashTable" where
  "drop_chained t index =
     (case bitmap_clear (bitmapChainedItems t) index of
        (result, bm) \<Rightarrow>
          (result, if result then t\<lparr>bitmapChainedItems := bm, freeChained := index # freeChained t\<rparr>
                   else t\<lparr>bitmapChainedItems := bm\<rparr>))"

definition del_at :: "HashTable \<Rightarrow> nat \<Rightarrow> UniqueHash \<Rightarrow> (bool \<times> HashTable) option" where
  "del_at t addr h =
     (let head = indexHead (itemsHash t addr)
      in if head = 0 then Some (False, t)
         else if hashUnique (itemsChained t ! head) = h then
           (case drop_chained t head of
              (result, t1) \<Rightarrow>
                Some (result,
                  if result
                  then t1\<lparr>itemsHash := (itemsHash t1)(addr := (itemsHash t1 addr)\<lparr>indexHead := indexNext (itemsChained t1 ! head)\<rparr>)\<rparr>
                  else t1))
         else
           (case chain_walk (itemsChained t) h head (indexNext (itemsChained t ! head)) of
              None \<Rightarrow> None
            | Some (found, before, cur) \<Rightarrow>
                if \<not> found then Some (True, t)
                else
                  (case drop_chained t cur of
                     (result, t1) \<Rightarrow>
                       Some (result,
                         if result
                         then t1\<lparr>itemsChained := (itemsChained t1)[before :=
                                (itemsChained t1 ! before)\<lparr>indexNext := indexNext (itemsChained t1 ! cur)\<rparr>]\<rparr>
                         else t1))))"

definition HashTable_del :: "HashTable \<Rightarrow> UniqueHash \<Rightarrow> (bool \<times> HashTable) option" where
  "HashTable_del t h = del_at t (getAddressHash h) h"

definition HashTable_del_path :: "digest \<Rightarrow> HashTable \<Rightarrow> u8 list \<Rightarrow> (bool \<times> HashTable) option" where
  "HashTable_del_path sha256 t path =
     del_at t (getAddressHash_buf sha256 path (strlen path)) (getUniqueHash sha256 path (strlen path))"

definition getSavedHashItemsCount :: "HashTable \<Rightarrow> nat" where
  "getSavedHashItemsCount t = length (filter (\<lambda>i. indexHead (itemsHash t i) \<noteq> 0) [0..<HASH_ITEMS_COUNT])"

definition getSavedChainedItemsCount :: "HashTable \<Rightarrow> nat" where
  "getSavedChainedItemsCount t =
     nat ((int (countTotal (bitmapChainedItems t)) - int (countFree (bitmapChainedItems t)) - 1) mod 2 ^ 64)"

definition getTotalHashItemsCount :: "HashTable \<Rightarrow> nat" where
  "getTotalHashItemsCount t = HASH_ITEMS_COUNT"

definition getTotalChainedItemsCount :: "HashTable \<Rightarrow> nat" where
  "getTotalChainedItemsCount t = nat ((int (countTotal (bitmapChainedItems t)) - 1) mod 2 ^ 64)"

partial_function (option) chain_length :: "ChainedItem list \<Rightarrow> nat \<Rightarrow> nat \<Rightarrow> nat option" where
  "chain_length its n indexCurrent =
     (if indexCurrent = 0 then Some n else chain_length its (inc64 n) (indexNext (its ! indexCurrent)))"

fun max_chain :: "HashTable \<Rightarrow> nat \<Rightarrow> nat list \<Rightarrow> nat option" where
  "max_chain t m [] = Some m"
| "max_chain t m (i # is) =
     (if indexHead (itemsHash t i) \<noteq> 0 then
        (case chain_length (itemsChained t) 0 (indexHead (itemsHash t i)) of
           None \<Rightarrow> None
         | Some len \<Rightarrow> max_chain t (if len > m then len else m) is)
      else max_chain t m is)"

definition getMaxLengthOfChain :: "HashTable \<Rightarrow> nat option" where
  "getMaxLengthOfChain t = max_chain t 0 [0..<HASH_ITEMS_COUNT]"

text \<open>The constructor on a buffer: hash items of 16 bytes, the bitmap, then chained items of 56 bytes (the
  boolean is padded to eight). Integers are little-endian. The chain of free positions gets every position
  but 0, whatever the bitmap says.\<close>

definition read_u64 :: "u8 list \<Rightarrow> nat \<Rightarrow> u64" where
  "read_u64 buf off = foldr (\<lambda>b acc. acc * 256 + ucast b) (take 8 (drop off buf)) 0"

definition read_HashItem :: "u8 list \<Rightarrow> nat \<Rightarrow> HashItem" where
  "read_HashItem buf off = \<lparr>hash_key_lock = read_u64 buf off, indexHead = unat (read_u64 buf (off + 8))\<rparr>"

definition read_ChainedItem :: "u8 list \<Rightarrow> nat \<Rightarrow> ChainedItem" where
  "read_ChainedItem buf off =
     \<lparr>indexNext = unat (read_u64 buf off), indexMeta = unat (read_u64 buf (off + 8)),
      isDirectory = (take 1 (drop (off + 16) buf) \<noteq> [0]),
      hashUnique = map (\<lambda>k. read_u64 buf (off + 24 + 8 * k)) [0..<4]\<rparr>"

definition HASH_ITEMS_SIZE :: nat where
  "HASH_ITEMS_SIZE = HASH_ITEMS_COUNT * 16"

definition HashTable_new :: "u8 list option \<Rightarrow> nat \<Rightarrow> octo_exit + HashTable" where
  "HashTable_new buffer cnt =
     (case buffer of
        None \<Rightarrow> Inl HashTable_null_buffer
      | Some buf \<Rightarrow>
          (case Bitmap_new cnt (Some (drop HASH_ITEMS_SIZE buf)) of
             Inl e \<Rightarrow> Inl (HashTable_bitmap_exit e)
           | Inr bm \<Rightarrow>
               (case bitmap_set bm 0 of
                  (result, bm') \<Rightarrow>
                    if \<not> result then Inl HashTable_bitmap_set
                    else Inr \<lparr>bitmapChainedItems = bm',
                              itemsHash = (\<lambda>i. read_HashItem buf (i * 16)),
                              itemsChained = map (\<lambda>i. read_ChainedItem buf (HASH_ITEMS_SIZE + cnt div 8 + i * 56)) [0..<cnt],
                              freeChained = rev [1..<cnt]\<rparr>)))"

end
