(* ===== verification/OctoIndex.thy ===== *)
theory OctoIndex
  imports OctoHash
begin

text \<open>
  Correctness of the path index: under the invariant \<open>hash_inv\<close> every operation returns, and the table
  behaves as a finite map from digests to meta index and kind of a path.
\<close>

section \<open>Chains\<close>

text \<open>Following the links from \<open>i\<close> visits \<open>xs\<close> and arrives at \<open>j\<close>.\<close>

fun is_path :: "ChainedItem list \<Rightarrow> nat \<Rightarrow> nat list \<Rightarrow> nat \<Rightarrow> bool" where
  "is_path its i [] j \<longleftrightarrow> i = j"
| "is_path its i (x # xs) j \<longleftrightarrow> i = x \<and> x \<noteq> 0 \<and> x < length its \<and> is_path its (indexNext (its ! x)) xs j"

lemma is_path_append: "is_path its i (xs @ ys) k \<longleftrightarrow> (\<exists>j. is_path its i xs j \<and> is_path its j ys k)"
  by (induction xs arbitrary: i) auto

lemma is_path_update: "l \<notin> set xs \<Longrightarrow> is_path (its[l := e]) i xs j = is_path its i xs j"
  by (induction xs arbitrary: i) auto

lemma is_path_keep_next:
  assumes "indexNext e = indexNext (its ! l)"
  shows "is_path (its[l := e]) i xs j = is_path its i xs j"
proof (induction xs arbitrary: i)
  case (Cons x xs)
  have "indexNext (its[l := e] ! x) = indexNext (its ! x)" if "x < length its" using that assms by (cases "x = l") simp_all
  then show ?case using Cons.IH [of "indexNext (its ! x)"] by (cases "x < length its") simp_all
qed simp

lemma is_path_range: "is_path its i xs j \<Longrightarrow> x \<in> set xs \<Longrightarrow> x \<noteq> 0 \<and> x < length its"
  by (induction xs arbitrary: i) auto

lemma is_path_nonempty: "is_path its i xs 0 \<Longrightarrow> (i = 0 \<longleftrightarrow> xs = []) \<and> (xs \<noteq> [] \<longrightarrow> hd xs = i)"
  by (cases xs) auto

text \<open>The walk along a known chain.\<close>

fun walk_list :: "ChainedItem list \<Rightarrow> UniqueHash \<Rightarrow> nat \<Rightarrow> nat list \<Rightarrow> bool \<times> nat \<times> nat" where
  "walk_list its h before [] = (False, before, 0)"
| "walk_list its h before (x # xs) =
     (if hashUnique (its ! x) = h then (True, before, x) else walk_list its h x xs)"

lemma chain_walk_list: "is_path its i xs 0 \<Longrightarrow> chain_walk its h before i = Some (walk_list its h before xs)"
proof (induction xs arbitrary: i before)
  case Nil
  then show ?case by (subst chain_walk.simps) simp
next
  case (Cons x xs)
  then show ?case by (subst chain_walk.simps) simp
qed

lemma walk_list_None:
  "(\<forall>x \<in> set xs. hashUnique (its ! x) \<noteq> h) \<Longrightarrow> walk_list its h before xs = (False, last (before # xs), 0)"
  by (induction xs arbitrary: before) auto

lemma walk_list_Some:
  "(\<forall>x \<in> set ys. hashUnique (its ! x) \<noteq> h) \<Longrightarrow> hashUnique (its ! x) = h \<Longrightarrow>
   walk_list its h before (ys @ x # zs) = (True, last (before # ys), x)"
  by (induction ys arbitrary: before) auto

lemma chain_split:
  assumes "\<exists>x \<in> set xs. hashUnique (its ! x) = h"
  obtains ys x zs where "xs = ys @ x # zs" "hashUnique (its ! x) = h" "\<forall>y \<in> set ys. hashUnique (its ! y) \<noteq> h"
  using split_list_first_prop [OF assms] by blast

section \<open>Invariant\<close>

definition used :: "HashTable \<Rightarrow> nat set" where
  "used t = {i. i \<noteq> 0 \<and> is_set (bitmapChainedItems t) i}"

text \<open>\<open>ch\<close> gives the chain of every hash item.\<close>

definition chains :: "HashTable \<Rightarrow> (nat \<Rightarrow> nat list) \<Rightarrow> bool" where
  "chains t ch \<longleftrightarrow>
     (\<forall>a < HASH_ITEMS_COUNT. is_path (itemsChained t) (indexHead (itemsHash t a)) (ch a) 0 \<and>
        distinct (map (\<lambda>i. hashUnique (itemsChained t ! i)) (ch a)) \<and>
        (\<forall>i \<in> set (ch a). getAddressHash (hashUnique (itemsChained t ! i)) = a)) \<and>
     (\<Union>a \<in> {..<HASH_ITEMS_COUNT}. set (ch a)) = used t"

definition alloc_inv :: "HashTable \<Rightarrow> bool" where
  "alloc_inv t \<longleftrightarrow> bitmap_ok (bitmapChainedItems t) \<and> length (itemsChained t) = varCountTotal (bitmapChainedItems t) \<and>
     bmp.free_list_of (bitmapChainedItems t) (freeChained t) \<and> is_set (bitmapChainedItems t) 0"

definition hash_inv :: "HashTable \<Rightarrow> bool" where
  "hash_inv t \<longleftrightarrow> alloc_inv t \<and> (\<exists>ch. chains t ch)"

lemma getAddressHash_less: "getAddressHash h < HASH_ITEMS_COUNT"
proof -
  have "w AND 0xFFFFF = take_bit 20 w" for w :: u64
    by (simp add: take_bit_eq_mask mask_eq_exp_minus_1)
  then have "getAddressHash h = unat (take_bit 20 (h ! 0))" by (simp add: getAddressHash_def)
  also have "\<dots> = take_bit 20 (unat (h ! 0))" by (simp add: unsigned_take_bit_eq)
  also have "\<dots> < 2 ^ 20" by (rule take_bit_nat_less_exp)
  finally show ?thesis by (simp add: HASH_ITEMS_COUNT_def)
qed

lemma chainsD:
  assumes "chains t ch" and "a < HASH_ITEMS_COUNT"
  shows "is_path (itemsChained t) (indexHead (itemsHash t a)) (ch a) 0"
    and "distinct (map (\<lambda>i. hashUnique (itemsChained t ! i)) (ch a))"
    and "i \<in> set (ch a) \<Longrightarrow> getAddressHash (hashUnique (itemsChained t ! i)) = a"
    and "i \<in> set (ch a) \<Longrightarrow> i \<in> used t"
  using assms by (auto simp: chains_def)

text \<open>An allocated item is in the chain of its address, and a digest belongs to one item.\<close>

lemma used_in_chain:
  assumes "chains t ch" and "i \<in> used t"
  shows "i \<in> set (ch (getAddressHash (hashUnique (itemsChained t ! i))))"
proof -
  have "(\<Union>a \<in> {..<HASH_ITEMS_COUNT}. set (ch a)) = used t" using assms(1) by (simp add: chains_def)
  with assms(2) have "i \<in> (\<Union>a \<in> {..<HASH_ITEMS_COUNT}. set (ch a))" by simp
  then obtain a where a: "a < HASH_ITEMS_COUNT" "i \<in> set (ch a)" by auto
  then show ?thesis using chainsD(3) [OF assms(1) a] by simp
qed

lemma used_hash_unique:
  assumes "chains t ch" and "i \<in> used t" and "j \<in> used t"
    and "hashUnique (itemsChained t ! i) = hashUnique (itemsChained t ! j)"
  shows "i = j"
proof -
  let ?a = "getAddressHash (hashUnique (itemsChained t ! i))"
  have "i \<in> set (ch ?a)" "j \<in> set (ch ?a)"
    using used_in_chain [OF assms(1,2)] used_in_chain [OF assms(1,3)] assms(4) by simp_all
  then show ?thesis
    using chainsD(2) [OF assms(1) getAddressHash_less [of "hashUnique (itemsChained t ! i)"]] assms(4)
    by (auto simp: distinct_map inj_on_def)
qed

lemma in_chain_iff:
  assumes "chains t ch"
  shows "x \<in> set (ch (getAddressHash h)) \<and> hashUnique (itemsChained t ! x) = h \<longleftrightarrow> x \<in> used t \<and> hashUnique (itemsChained t ! x) = h"
  using used_in_chain [OF assms, of x] chainsD(4) [OF assms getAddressHash_less [of h], of x] by auto

section \<open>The map\<close>

lemma option_eqI: "(\<And>v. a = Some v \<longleftrightarrow> b = Some v) \<Longrightarrow> a = b"
  by (cases a; cases b) auto

definition index_map :: "HashTable \<Rightarrow> UniqueHash \<Rightarrow> (nat \<times> bool) option" where
  "index_map t h = (case HashTable_get t h of Some r \<Rightarrow> r | None \<Rightarrow> None)"

definition item_value :: "ChainedItem \<Rightarrow> nat \<times> bool" where
  "item_value c = (indexMeta c, isDirectory c)"

lemma HashTable_get_chain:
  assumes "chains t ch"
  shows "HashTable_get t h = Some (case walk_list (itemsChained t) h 0 (ch (getAddressHash h)) of
    (found, _, cur) \<Rightarrow> if found then Some (item_value (itemsChained t ! cur)) else None)"
proof -
  let ?a = "getAddressHash h"
  note path = chainsD(1) [OF assms getAddressHash_less [of h]]
  show ?thesis
  proof (cases "indexHead (itemsHash t ?a) = 0")
    case True
    then have "ch ?a = []" using is_path_nonempty [OF path] by simp
    then show ?thesis using True by (simp add: HashTable_get_def)
  next
    case False
    then show ?thesis using chain_walk_list [OF path, of h 0] by (simp add: HashTable_get_def item_value_def case_prod_beta)
  qed
qed

lemma get_iff:
  assumes "hash_inv t"
  shows "HashTable_get t h = Some (index_map t h)"
    and "index_map t h = Some v \<longleftrightarrow> (\<exists>i \<in> used t. hashUnique (itemsChained t ! i) = h \<and> item_value (itemsChained t ! i) = v)"
proof -
  from assms obtain ch where ch: "chains t ch" by (auto simp: hash_inv_def)
  note get = HashTable_get_chain [OF ch, of h]
  then show "HashTable_get t h = Some (index_map t h)" by (simp add: index_map_def)
  show "index_map t h = Some v \<longleftrightarrow> (\<exists>i \<in> used t. hashUnique (itemsChained t ! i) = h \<and> item_value (itemsChained t ! i) = v)"
  proof (cases "\<exists>x \<in> set (ch (getAddressHash h)). hashUnique (itemsChained t ! x) = h")
    case True
    obtain ys x zs where xs: "ch (getAddressHash h) = ys @ x # zs" "hashUnique (itemsChained t ! x) = h"
      "\<forall>y \<in> set ys. hashUnique (itemsChained t ! y) \<noteq> h" by (rule chain_split [OF True])
    have "walk_list (itemsChained t) h 0 (ch (getAddressHash h)) = (True, last (0 # ys), x)"
      unfolding xs(1) by (rule walk_list_Some [OF xs(3,2)])
    then have "index_map t h = Some (item_value (itemsChained t ! x))" using get by (simp add: index_map_def)
    moreover have x: "x \<in> used t" using in_chain_iff [OF ch, of x h] xs by auto
    moreover have only: "i = x" if "i \<in> used t" "hashUnique (itemsChained t ! i) = h" for i
      using used_hash_unique [OF ch that(1) x] that(2) xs(2) by simp
    have "(\<exists>i \<in> used t. hashUnique (itemsChained t ! i) = h \<and> item_value (itemsChained t ! i) = v) \<longleftrightarrow> item_value (itemsChained t ! x) = v"
      using only x xs(2) by (intro iffI) (blast, blast)
    with calculation show ?thesis by simp
  next
    case False
    then have "index_map t h = None" using get walk_list_None [of "ch (getAddressHash h)"] by (simp add: index_map_def)
    moreover have "\<not> (\<exists>i \<in> used t. hashUnique (itemsChained t ! i) = h)" using False in_chain_iff [OF ch] by blast
    ultimately show ?thesis by auto
  qed
qed

lemma index_map_None:
  assumes "hash_inv t"
  shows "index_map t h = None \<longleftrightarrow> (\<forall>i \<in> used t. hashUnique (itemsChained t ! i) \<noteq> h)"
proof
  assume "index_map t h = None"
  then show "\<forall>i \<in> used t. hashUnique (itemsChained t ! i) \<noteq> h"
    using get_iff(2) [OF assms, of h "item_value (itemsChained t ! _)"] by fastforce
next
  assume "\<forall>i \<in> used t. hashUnique (itemsChained t ! i) \<noteq> h"
  then show "index_map t h = None"
    using get_iff(2) [OF assms, of h "the (index_map t h)"] by (cases "index_map t h") auto
qed

lemma index_map_eqI:
  assumes "hash_inv t"
    and "\<And>v. m h = Some v \<longleftrightarrow> (\<exists>i \<in> used t. hashUnique (itemsChained t ! i) = h \<and> item_value (itemsChained t ! i) = v)"
  shows "index_map t h = m h"
proof -
  have "index_map t h = Some v \<longleftrightarrow> m h = Some v" for v using assms(2) get_iff(2) [OF assms(1), of h v] by simp
  then show ?thesis by (rule option_eqI)
qed

section \<open>Insertion\<close>

lemma new_chained_ok:
  assumes al: "alloc_inv t" and fr: "freeChained t = n # fs"
  obtains t1 where "new_chained t h m d = ((True, n), t1)" "alloc_inv t1" "used t1 = insert n (used t)" "n \<notin> used t"
    "n \<noteq> 0" "n < length (itemsChained t)" "itemsHash t1 = itemsHash t"
    "itemsChained t1 = (itemsChained t)[n := \<lparr>indexNext = 0, indexMeta = m, isDirectory = d, hashUnique = h\<rparr>]"
proof -
  let ?bm = "snd (bitmap_set (bitmapChainedItems t) n)"
  let ?t = "t\<lparr>bitmapChainedItems := ?bm, freeChained := fs,
      itemsChained := (itemsChained t)[n := \<lparr>indexNext = 0, indexMeta = m, isDirectory = d, hashUnique = h\<rparr>]\<rparr>"
  have ok: "bitmap_ok (bitmapChainedItems t)" and fl: "bmp.free_list_of (bitmapChainedItems t) (n # fs)"
    and len: "length (itemsChained t) = varCountTotal (bitmapChainedItems t)" and z: "is_set (bitmapChainedItems t) 0"
    using al fr by (simp_all add: alloc_inv_def)
  note free = bmp.take_free [OF ok fl] and st = bmp.set_spec [OF ok bmp.take_free(1) [OF ok fl]]
  have "new_chained t h m d = ((True, n), ?t)" using fr st by (simp add: new_chained_def case_prod_beta Let_def)
  moreover have "alloc_inv ?t" using al st free(3) by (simp add: alloc_inv_def)
  moreover have "n \<noteq> 0" using free(2) z by metis
  moreover from this have "used ?t = insert n (used t)" using st by (auto simp: used_def)
  moreover have "n \<notin> used t" "n < length (itemsChained t)" using free len by (auto simp: used_def)
  ultimately show thesis using that by simp
qed

text \<open>A new item at the end of its chain.\<close>

lemma chains_extend:
  assumes ch: "chains t ch" and u: "used t' = insert n (used t)" and a: "a = getAddressHash h"
    and same: "\<And>i. i \<noteq> n \<Longrightarrow> hashUnique (itemsChained t' ! i) = hashUnique (itemsChained t ! i)"
    and new: "hashUnique (itemsChained t' ! n) = h" "n \<notin> used t" "\<forall>i \<in> set (ch a). hashUnique (itemsChained t ! i) \<noteq> h"
    and path: "is_path (itemsChained t') (indexHead (itemsHash t' a)) (ch a @ [n]) 0"
    and paths: "\<And>b. b < HASH_ITEMS_COUNT \<Longrightarrow> b \<noteq> a \<Longrightarrow> is_path (itemsChained t') (indexHead (itemsHash t' b)) (ch b) 0"
  shows "chains t' (ch(a := ch a @ [n]))"
proof -
  have less: "a < HASH_ITEMS_COUNT" unfolding a by (rule getAddressHash_less)
  have hash: "hashUnique (itemsChained t' ! i) = hashUnique (itemsChained t ! i)" if "b < HASH_ITEMS_COUNT" "i \<in> set (ch b)" for b i
    using same chainsD(4) [OF ch that] new(2) by metis
  have maps: "map (\<lambda>i. hashUnique (itemsChained t' ! i)) (ch b) = map (\<lambda>i. hashUnique (itemsChained t ! i)) (ch b)"
    if "b < HASH_ITEMS_COUNT" for b using hash [OF that] by simp
  have "is_path (itemsChained t') (indexHead (itemsHash t' b)) ((ch(a := ch a @ [n])) b) 0 \<and>
      distinct (map (\<lambda>i. hashUnique (itemsChained t' ! i)) ((ch(a := ch a @ [n])) b)) \<and>
      (\<forall>i \<in> set ((ch(a := ch a @ [n])) b). getAddressHash (hashUnique (itemsChained t' ! i)) = b)"
    if b: "b < HASH_ITEMS_COUNT" for b
  proof (cases "b = a")
    case True
    have eq: "map (\<lambda>i. hashUnique (itemsChained t' ! i)) (ch a @ [n]) = map (\<lambda>i. hashUnique (itemsChained t ! i)) (ch a) @ [h]"
      unfolding map_append maps [OF less] by (simp add: new(1))
    have "distinct (map (\<lambda>i. hashUnique (itemsChained t' ! i)) (ch a @ [n]))"
      unfolding eq distinct_append using chainsD(2) [OF ch less] new(3) by auto
    moreover have "\<forall>i \<in> set (ch a @ [n]). getAddressHash (hashUnique (itemsChained t' ! i)) = a"
      using hash [OF less] chainsD(3) [OF ch less] new(1) a by simp
    ultimately show ?thesis using path True by simp
  next
    case False
    have "distinct (map (\<lambda>i. hashUnique (itemsChained t' ! i)) (ch b))" unfolding maps [OF b] by (rule chainsD(2) [OF ch b])
    then show ?thesis using False paths [OF b False] chainsD(3) [OF ch b] hash [OF b] by simp
  qed
  moreover have "(\<Union>b \<in> {..<HASH_ITEMS_COUNT}. set ((ch(a := ch a @ [n])) b)) = insert n (\<Union>b \<in> {..<HASH_ITEMS_COUNT}. set (ch b))"
    using less by (auto split: if_splits)
  ultimately show ?thesis using ch u unfolding chains_def by simp
qed

lemma index_map_extend:
  assumes inv: "hash_inv t" "hash_inv t'" and u: "used t' = insert n (used t)" and n: "n \<notin> used t"
    and same: "\<And>i. i \<noteq> n \<Longrightarrow> hashUnique (itemsChained t' ! i) = hashUnique (itemsChained t ! i) \<and>
      item_value (itemsChained t' ! i) = item_value (itemsChained t ! i)"
    and new: "hashUnique (itemsChained t' ! n) = h" "item_value (itemsChained t' ! n) = v"
    and fresh: "\<forall>i \<in> used t. hashUnique (itemsChained t ! i) \<noteq> h"
  shows "index_map t' = (index_map t)(h \<mapsto> v)"
proof (rule ext)
  fix k
  show "index_map t' k = ((index_map t)(h \<mapsto> v)) k"
  proof (rule index_map_eqI [OF inv(2)])
    fix w
    have "(\<exists>i \<in> used t'. hashUnique (itemsChained t' ! i) = k \<and> item_value (itemsChained t' ! i) = w) \<longleftrightarrow>
        h = k \<and> v = w \<or> (\<exists>i \<in> used t. hashUnique (itemsChained t ! i) = k \<and> item_value (itemsChained t ! i) = w)"
      using same n new unfolding u by (metis insert_iff)
    then show "((index_map t)(h \<mapsto> v)) k = Some w \<longleftrightarrow>
        (\<exists>i \<in> used t'. hashUnique (itemsChained t' ! i) = k \<and> item_value (itemsChained t' ! i) = w)"
      using fresh get_iff(2) [OF inv(1), of k w] by auto
  qed
qed

text \<open>Linking the new item, behind the last one or as the first.\<close>

lemma path_append_item:
  assumes p: "is_path its i xs 0" and xs: "xs \<noteq> []" and n: "n \<notin> set xs" "n \<noteq> 0" "n < length its" "indexNext e = 0"
    and d: "distinct xs"
  shows "is_path ((its[n := e])[last xs := (its[n := e] ! last xs)\<lparr>indexNext := n\<rparr>]) i (xs @ [n]) 0"
proof -
  obtain ys l where ys: "xs = ys @ [l]" using xs by (cases xs rule: rev_cases) auto
  have l: "l \<noteq> n" "l \<notin> set ys" "n \<notin> set ys" using n(1) d unfolding ys by auto
  from p have "is_path its i ys l" "l \<noteq> 0" "l < length its" unfolding ys is_path_append by auto
  moreover from this(1) have "is_path ((its[n := e])[l := (its[n := e] ! l)\<lparr>indexNext := n\<rparr>]) i ys l"
    using l is_path_update by simp
  moreover have "is_path ((its[n := e])[l := (its[n := e] ! l)\<lparr>indexNext := n\<rparr>]) l [l, n] 0"
    using calculation(2,3) n l by simp
  ultimately show ?thesis unfolding ys using is_path_append [of _ i ys "[l, n]" 0] by simp
qed

lemma distinct_chain: "chains t ch \<Longrightarrow> a < HASH_ITEMS_COUNT \<Longrightarrow> distinct (ch a)"
  using chainsD(2) [of t ch a] by (simp add: distinct_map)

lemma put_at_found:
  assumes inv: "hash_inv t" and hit: "index_map t h \<noteq> None"
  obtains t' where "HashTable_put t h m d = Some (True, t')" "hash_inv t'" "index_map t' = (index_map t)(h \<mapsto> (m, d))"
    "freeChained t' = freeChained t"
proof -
  let ?a = "getAddressHash h"
  from inv obtain ch where ch: "chains t ch" and al: "alloc_inv t" by (auto simp: hash_inv_def)
  note path = chainsD(1) [OF ch getAddressHash_less [of h]]
  have "\<exists>x \<in> set (ch ?a). hashUnique (itemsChained t ! x) = h"
    using hit get_iff(2) [OF inv, of h] in_chain_iff [OF ch, of _ h] by blast
  then obtain ys x zs where xs: "ch ?a = ys @ x # zs" "hashUnique (itemsChained t ! x) = h"
    "\<forall>y \<in> set ys. hashUnique (itemsChained t ! y) \<noteq> h" by (rule chain_split)
  have x: "x \<in> used t" using chainsD(4) [OF ch getAddressHash_less [of h], of x] xs(1) by simp
  let ?e = "(itemsChained t ! x)\<lparr>indexMeta := m, isDirectory := d\<rparr>"
  let ?t = "t\<lparr>itemsChained := (itemsChained t)[x := ?e]\<rparr>"
  have "indexHead (itemsHash t ?a) \<noteq> 0" using is_path_nonempty [OF path] xs(1) by simp
  moreover have "chain_walk (itemsChained t) h 0 (indexHead (itemsHash t ?a)) = Some (True, last (0 # ys), x)"
    using chain_walk_list [OF path] walk_list_Some [OF xs(3,2)] xs(1) by simp
  ultimately have P: "HashTable_put t h m d = Some (True, ?t)" by (simp add: HashTable_put_def put_at_def)
  have xl: "x < length (itemsChained t)" using is_path_range [OF path, of x] xs(1) by simp
  have hash: "hashUnique ((itemsChained t)[x := ?e] ! i) = hashUnique (itemsChained t ! i)" for i
    using xl by (cases "i = x") auto
  have val: "item_value ((itemsChained t)[x := ?e] ! i) = (if i = x then (m, d) else item_value (itemsChained t ! i))" for i
    using xl by (cases "i = x") (auto simp: item_value_def)
  have "is_path ((itemsChained t)[x := ?e]) i xs j = is_path (itemsChained t) i xs j" for i xs j
    by (rule is_path_keep_next) simp
  then have "chains ?t ch" using ch by (simp add: chains_def hash used_def)
  moreover have "alloc_inv ?t" using al by (simp add: alloc_inv_def)
  ultimately have inv': "hash_inv ?t" by (auto simp: hash_inv_def)
  have "index_map ?t k = ((index_map t)(h \<mapsto> (m, d))) k" for k
  proof (rule index_map_eqI [OF inv'])
    fix v
    have used: "used ?t = used t" by (simp add: used_def)
    have x_only: "i \<in> used t \<Longrightarrow> hashUnique (itemsChained t ! i) = h \<longleftrightarrow> i = x" for i
      using used_hash_unique [OF ch _ x, of i] xs(2) by auto
    show "((index_map t)(h \<mapsto> (m, d))) k = Some v \<longleftrightarrow>
        (\<exists>i \<in> used ?t. hashUnique (itemsChained ?t ! i) = k \<and> item_value (itemsChained ?t ! i) = v)"
    proof (cases "k = h")
      case True
      then show ?thesis using x x_only by (auto simp: used hash val)
    next
      case False
      then have "(\<exists>i \<in> used t. hashUnique (itemsChained t ! i) = k \<and> (if i = x then (m, d) else item_value (itemsChained t ! i)) = v) \<longleftrightarrow>
          (\<exists>i \<in> used t. hashUnique (itemsChained t ! i) = k \<and> item_value (itemsChained t ! i) = v)"
        using xs(2) by auto
      then show ?thesis using False get_iff(2) [OF inv, of k v] by (simp add: used hash val)
    qed
  qed
  then have "index_map ?t = (index_map t)(h \<mapsto> (m, d))" by (rule ext)
  then show thesis using that [OF P inv'] by simp
qed

lemma put_at_new:
  assumes inv: "hash_inv t" and miss: "index_map t h = None" and fr: "freeChained t = n # fs"
  obtains t' where "HashTable_put t h m d = Some (True, t')" "hash_inv t'" "index_map t' = (index_map t)(h \<mapsto> (m, d))"
proof -
  let ?a = "getAddressHash h"
  let ?e = "\<lparr>indexNext = 0, indexMeta = m, isDirectory = d, hashUnique = h\<rparr>"
  from inv obtain ch where ch: "chains t ch" and al: "alloc_inv t" by (auto simp: hash_inv_def)
  note less = getAddressHash_less [of h]
  note path = chainsD(1) [OF ch less]
  have none: "\<forall>i \<in> used t. hashUnique (itemsChained t ! i) \<noteq> h" using miss index_map_None [OF inv] by simp
  then have nin: "\<forall>i \<in> set (ch ?a). hashUnique (itemsChained t ! i) \<noteq> h" using chainsD(4) [OF ch less] by blast
  obtain t1 where N: "new_chained t h m d = ((True, n), t1)" and al1: "alloc_inv t1" and u1: "used t1 = insert n (used t)"
    and n: "n \<notin> used t" "n \<noteq> 0" "n < length (itemsChained t)" and h1: "itemsHash t1 = itemsHash t"
    and c1: "itemsChained t1 = (itemsChained t)[n := ?e]"
    by (rule new_chained_ok [OF al fr])
  have nch: "n \<notin> set (ch b)" if "b < HASH_ITEMS_COUNT" for b using chainsD(4) [OF ch that] n(1) by blast
  obtain t' where P: "HashTable_put t h m d = Some (True, t')" and u: "used t' = used t1" and al': "alloc_inv t'"
    and same: "\<And>i. hashUnique (itemsChained t' ! i) = hashUnique (itemsChained t1 ! i) \<and> item_value (itemsChained t' ! i) = item_value (itemsChained t1 ! i)"
    and pa: "is_path (itemsChained t') (indexHead (itemsHash t' ?a)) (ch ?a @ [n]) 0"
    and pb: "\<And>b. b < HASH_ITEMS_COUNT \<Longrightarrow> b \<noteq> ?a \<Longrightarrow> is_path (itemsChained t') (indexHead (itemsHash t' b)) (ch b) 0"
  proof (cases "ch ?a")
    case Nil
    let ?t = "t1\<lparr>itemsHash := (itemsHash t1)(?a := (itemsHash t1 ?a)\<lparr>indexHead := n\<rparr>)\<rparr>"
    have "indexHead (itemsHash t ?a) = 0" using is_path_nonempty [OF path] Nil by simp
    then have "HashTable_put t h m d = Some (True, ?t)" by (simp add: HashTable_put_def put_at_def N)
    moreover have "is_path (itemsChained ?t) (indexHead (itemsHash ?t b)) (ch b) 0" if "b < HASH_ITEMS_COUNT" "b \<noteq> ?a" for b
      using chainsD(1) [OF ch that(1)] that(2) nch [OF that(1)] is_path_update by (simp add: c1 h1)
    moreover have "is_path (itemsChained ?t) (indexHead (itemsHash ?t ?a)) (ch ?a @ [n]) 0" using Nil n by (simp add: c1)
    moreover have "alloc_inv ?t" using al1 by (simp add: alloc_inv_def)
    ultimately show thesis using that [of ?t] by (simp add: used_def)
  next
    case (Cons y ys)
    let ?l = "last (ch ?a)"
    let ?t = "t1\<lparr>itemsChained := (itemsChained t1)[?l := (itemsChained t1 ! ?l)\<lparr>indexNext := n\<rparr>]\<rparr>"
    have ne: "ch ?a \<noteq> []" using Cons by simp
    have "indexHead (itemsHash t ?a) \<noteq> 0" using is_path_nonempty [OF path] Cons by simp
    moreover have "chain_walk (itemsChained t) h 0 (indexHead (itemsHash t ?a)) = Some (False, ?l, 0)"
      using chain_walk_list [OF path] walk_list_None [OF nin] ne by simp
    ultimately have "HashTable_put t h m d = Some (True, ?t)" by (simp add: HashTable_put_def put_at_def N)
    moreover have "is_path (itemsChained ?t) (indexHead (itemsHash ?t ?a)) (ch ?a @ [n]) 0"
      using path_append_item [OF path ne nch [OF less] n(2,3), of ?e] distinct_chain [OF ch less] by (simp add: c1 h1)
    moreover have "is_path (itemsChained ?t) (indexHead (itemsHash ?t b)) (ch b) 0" if "b < HASH_ITEMS_COUNT" "b \<noteq> ?a" for b
    proof -
      have "?l \<notin> set (ch b)"
        using chainsD(3) [OF ch that(1), of ?l] chainsD(3) [OF ch less, of ?l] ne that(2) by auto
      then show ?thesis using chainsD(1) [OF ch that(1)] nch [OF that(1)] is_path_update by (simp add: c1 h1)
    qed
    moreover have "hashUnique (itemsChained ?t ! i) = hashUnique (itemsChained t1 ! i) \<and> item_value (itemsChained ?t ! i) = item_value (itemsChained t1 ! i)" for i
      by (cases "i = ?l"; cases "?l < length (itemsChained t1)") (auto simp: item_value_def not_less list_update_beyond)
    moreover have "alloc_inv ?t" using al1 by (simp add: alloc_inv_def)
    ultimately show thesis using that [of ?t] by (simp add: used_def)
  qed
  have other: "i \<noteq> n \<Longrightarrow> hashUnique (itemsChained t' ! i) = hashUnique (itemsChained t ! i) \<and> item_value (itemsChained t' ! i) = item_value (itemsChained t ! i)" for i
    using same by (simp add: c1)
  have at_n: "hashUnique (itemsChained t' ! n) = h" "item_value (itemsChained t' ! n) = (m, d)"
    using same n(3) by (simp_all add: c1 item_value_def)
  have "chains t' (ch(?a := ch ?a @ [n]))"
    by (rule chains_extend [OF ch _ refl]) (use u u1 other at_n n(1) nin pa pb in auto)
  then have inv': "hash_inv t'" using al' by (auto simp: hash_inv_def)
  have u': "used t' = insert n (used t)" using u u1 by simp
  show thesis by (rule that [OF P inv' index_map_extend [OF inv inv' u' n(1) other at_n none]])
qed

lemma put_at_full:
  assumes inv: "hash_inv t" and miss: "index_map t h = None" and fr: "freeChained t = []"
  shows "HashTable_put t h m d = Some (False, t)"
proof -
  let ?a = "getAddressHash h"
  from inv obtain ch where ch: "chains t ch" by (auto simp: hash_inv_def)
  note path = chainsD(1) [OF ch getAddressHash_less [of h]]
  have nin: "\<forall>i \<in> set (ch ?a). hashUnique (itemsChained t ! i) \<noteq> h"
    using miss index_map_None [OF inv] chainsD(4) [OF ch getAddressHash_less [of h]] by blast
  have "chain_walk (itemsChained t) h 0 (indexHead (itemsHash t ?a)) = Some (False, last (0 # ch ?a), 0)"
    using chain_walk_list [OF path] walk_list_None [OF nin] by simp
  then show ?thesis by (simp add: HashTable_put_def put_at_def new_chained_def fr Let_def)
qed

section \<open>Deletion\<close>

lemma drop_chained_ok:
  assumes al: "alloc_inv t" and x: "x \<in> used t"
  obtains t1 where "drop_chained t x = (True, t1)" "alloc_inv t1" "used t1 = used t - {x}"
    "itemsHash t1 = itemsHash t" "itemsChained t1 = itemsChained t"
proof -
  let ?t = "t\<lparr>bitmapChainedItems := snd (bitmap_clear (bitmapChainedItems t) x), freeChained := x # freeChained t\<rparr>"
  have ok: "bitmap_ok (bitmapChainedItems t)" and fl: "bmp.free_list_of (bitmapChainedItems t) (freeChained t)"
    using al by (simp_all add: alloc_inv_def)
  have s: "is_set (bitmapChainedItems t) x" "x \<noteq> 0" using x by (auto simp: used_def)
  note r = is_set_range [OF s(1)]
  note cl = bmp.clear_spec [OF ok r]
  have "drop_chained t x = (True, ?t)" using cl by (simp add: drop_chained_def case_prod_beta)
  moreover have "alloc_inv ?t" using al cl bmp.return_free [OF ok fl r s(1)] s(2) by (simp add: alloc_inv_def)
  moreover have "used ?t = used t - {x}" using cl by (auto simp: used_def)
  ultimately show thesis using that by simp
qed

lemma chains_remove:
  assumes ch: "chains t ch" and a: "a < HASH_ITEMS_COUNT" "ch a = ys @ x # zs" and u: "used t' = used t - {x}"
    and same: "\<And>i. hashUnique (itemsChained t' ! i) = hashUnique (itemsChained t ! i)"
    and path: "is_path (itemsChained t') (indexHead (itemsHash t' a)) (ys @ zs) 0"
    and paths: "\<And>b. b < HASH_ITEMS_COUNT \<Longrightarrow> b \<noteq> a \<Longrightarrow> is_path (itemsChained t') (indexHead (itemsHash t' b)) (ch b) 0"
  shows "chains t' (ch(a := ys @ zs))"
proof -
  have "is_path (itemsChained t') (indexHead (itemsHash t' b)) ((ch(a := ys @ zs)) b) 0 \<and>
      distinct (map (\<lambda>i. hashUnique (itemsChained t' ! i)) ((ch(a := ys @ zs)) b)) \<and>
      (\<forall>i \<in> set ((ch(a := ys @ zs)) b). getAddressHash (hashUnique (itemsChained t' ! i)) = b)"
    if b: "b < HASH_ITEMS_COUNT" for b
  proof (cases "b = a")
    case True
    then show ?thesis using path chainsD(2,3) [OF ch a(1)] by (simp add: same a(2))
  next
    case False
    then show ?thesis using paths [OF b False] chainsD(2,3) [OF ch b] by (simp add: same)
  qed
  moreover have "(\<Union>b \<in> {..<HASH_ITEMS_COUNT}. set ((ch(a := ys @ zs)) b)) = (\<Union>b \<in> {..<HASH_ITEMS_COUNT}. set (ch b)) - {x}"
  proof -
    have d: "x \<notin> set ys" "x \<notin> set zs" using distinct_chain [OF ch a(1)] unfolding a(2) by auto
    have o: "x \<notin> set (ch b)" if "b < HASH_ITEMS_COUNT" "b \<noteq> a" for b
      using chainsD(3) [OF ch that(1), of x] chainsD(3) [OF ch a(1), of x] that(2) by (auto simp: a(2))
    have "set ((ch(a := ys @ zs)) b) = set (ch b) - {x}" if "b < HASH_ITEMS_COUNT" for b
      using d o [OF that] by (cases "b = a") (auto simp: a(2))
    then show ?thesis by auto
  qed
  ultimately show ?thesis using ch u unfolding chains_def by simp
qed

lemma index_map_remove:
  assumes inv: "hash_inv t" "hash_inv t'" and x: "x \<in> used t" "hashUnique (itemsChained t ! x) = h" and u: "used t' = used t - {x}"
    and same: "\<And>i. hashUnique (itemsChained t' ! i) = hashUnique (itemsChained t ! i) \<and>
      item_value (itemsChained t' ! i) = item_value (itemsChained t ! i)"
  shows "index_map t' = (index_map t)(h := None)"
proof (rule ext)
  fix k
  from inv(1) obtain ch where ch: "chains t ch" by (auto simp: hash_inv_def)
  have only: "hashUnique (itemsChained t ! i) = h \<longleftrightarrow> i = x" if "i \<in> used t" for i
    using used_hash_unique [OF ch that x(1)] x(2) by auto
  show "index_map t' k = ((index_map t)(h := None)) k"
  proof (rule index_map_eqI [OF inv(2)])
    fix w
    have "(\<exists>i \<in> used t'. hashUnique (itemsChained t' ! i) = k \<and> item_value (itemsChained t' ! i) = w) \<longleftrightarrow>
        (\<exists>i \<in> used t - {x}. hashUnique (itemsChained t ! i) = k \<and> item_value (itemsChained t ! i) = w)"
      using same by (simp add: u)
    also have "\<dots> \<longleftrightarrow> k \<noteq> h \<and> (\<exists>i \<in> used t. hashUnique (itemsChained t ! i) = k \<and> item_value (itemsChained t ! i) = w)"
    proof (cases "k = h")
      case True
      then show ?thesis using only by auto
    next
      case False
      then have "i \<noteq> x" if "hashUnique (itemsChained t ! i) = k" for i using that x(2) by auto
      then show ?thesis using False by auto
    qed
    finally have "(\<exists>i \<in> used t'. hashUnique (itemsChained t' ! i) = k \<and> item_value (itemsChained t' ! i) = w) \<longleftrightarrow>
        k \<noteq> h \<and> (\<exists>i \<in> used t. hashUnique (itemsChained t ! i) = k \<and> item_value (itemsChained t ! i) = w)" .
    then show "((index_map t)(h := None)) k = Some w \<longleftrightarrow>
        (\<exists>i \<in> used t'. hashUnique (itemsChained t' ! i) = k \<and> item_value (itemsChained t' ! i) = w)"
      using get_iff(2) [OF inv(1), of k w] by auto
  qed
qed

text \<open>Unlinking an item that is not the first of its chain.\<close>

lemma path_unlink_item:
  assumes p: "is_path its i (ys @ b # x # zs) 0" and d: "distinct (ys @ b # x # zs)"
  shows "is_path (its[b := (its ! b)\<lparr>indexNext := indexNext (its ! x)\<rparr>]) i (ys @ b # zs) 0"
proof -
  let ?its = "its[b := (its ! b)\<lparr>indexNext := indexNext (its ! x)\<rparr>]"
  from p have p1: "is_path its i ys b" "b \<noteq> 0" "b < length its" "is_path its (indexNext (its ! x)) zs 0"
    unfolding is_path_append by auto
  have "is_path ?its i ys b" "is_path ?its (indexNext (its ! x)) zs 0" using p1 d is_path_update by auto
  then show ?thesis using p1(2,3) unfolding is_path_append by auto
qed

text \<open>A deletion fails exactly if the chain of the digest is empty, even when the digest is absent.\<close>

lemma chain_empty_iff:
  assumes "chains t ch"
  shows "ch (getAddressHash h) = [] \<longleftrightarrow> (\<forall>i \<in> used t. getAddressHash (hashUnique (itemsChained t ! i)) \<noteq> getAddressHash h)"
proof
  assume "ch (getAddressHash h) = []"
  then show "\<forall>i \<in> used t. getAddressHash (hashUnique (itemsChained t ! i)) \<noteq> getAddressHash h"
    using used_in_chain [OF assms] by fastforce
next
  assume "\<forall>i \<in> used t. getAddressHash (hashUnique (itemsChained t ! i)) \<noteq> getAddressHash h"
  then show "ch (getAddressHash h) = []"
    using chainsD(3,4) [OF assms getAddressHash_less [of h]] by (cases "ch (getAddressHash h)") auto
qed

lemma del_absent:
  assumes inv: "hash_inv t" and miss: "index_map t h = None"
  shows "HashTable_del t h = Some (\<exists>i \<in> used t. getAddressHash (hashUnique (itemsChained t ! i)) = getAddressHash h, t)"
proof -
  let ?a = "getAddressHash h"
  from inv obtain ch where ch: "chains t ch" by (auto simp: hash_inv_def)
  note path = chainsD(1) [OF ch getAddressHash_less [of h]]
  have nin: "\<forall>i \<in> set (ch ?a). hashUnique (itemsChained t ! i) \<noteq> h"
    using miss index_map_None [OF inv] chainsD(4) [OF ch getAddressHash_less [of h]] by blast
  show ?thesis
  proof (cases "ch ?a")
    case Nil
    then have "indexHead (itemsHash t ?a) = 0" using is_path_nonempty [OF path] by simp
    then show ?thesis using Nil chain_empty_iff [OF ch, of h] by (simp add: HashTable_del_def del_at_def)
  next
    case (Cons y ys)
    have p: "is_path (itemsChained t) (indexNext (itemsChained t ! y)) ys 0" "indexHead (itemsHash t ?a) = y" "y \<noteq> 0"
      using path Cons by auto
    have "chain_walk (itemsChained t) h y (indexNext (itemsChained t ! y)) = Some (False, last (y # ys), 0)"
      using chain_walk_list [OF p(1)] walk_list_None [of ys] nin Cons by simp
    moreover have "hashUnique (itemsChained t ! y) \<noteq> h" using nin Cons by simp
    ultimately show ?thesis using p Cons chain_empty_iff [OF ch, of h] by (simp add: HashTable_del_def del_at_def)
  qed
qed

lemma del_present:
  assumes inv: "hash_inv t" and hit: "index_map t h \<noteq> None"
  obtains t' where "HashTable_del t h = Some (True, t')" "hash_inv t'" "index_map t' = (index_map t)(h := None)"
proof -
  let ?a = "getAddressHash h"
  from inv obtain ch where ch: "chains t ch" and al: "alloc_inv t" by (auto simp: hash_inv_def)
  note less = getAddressHash_less [of h]
  note path = chainsD(1) [OF ch less]
  from hit obtain i where "i \<in> used t" "hashUnique (itemsChained t ! i) = h" using index_map_None [OF inv, of h] by auto
  then have "i \<in> set (ch ?a) \<and> hashUnique (itemsChained t ! i) = h" using in_chain_iff [OF ch, of i h] by simp
  then have "\<exists>x \<in> set (ch ?a). hashUnique (itemsChained t ! x) = h" by blast
  then obtain ys x zs where xs: "ch ?a = ys @ x # zs" "hashUnique (itemsChained t ! x) = h"
    "\<forall>y \<in> set ys. hashUnique (itemsChained t ! y) \<noteq> h" by (rule chain_split)
  have x: "x \<in> used t" using chainsD(4) [OF ch less, of x] xs(1) by simp
  obtain t1 where D: "drop_chained t x = (True, t1)" and al1: "alloc_inv t1" and u1: "used t1 = used t - {x}"
    and h1: "itemsHash t1 = itemsHash t" and c1: "itemsChained t1 = itemsChained t"
    by (rule drop_chained_ok [OF al x])
  obtain t' where P: "HashTable_del t h = Some (True, t')" and u: "used t' = used t1" and al': "alloc_inv t'"
    and same: "\<And>i. hashUnique (itemsChained t' ! i) = hashUnique (itemsChained t ! i) \<and> item_value (itemsChained t' ! i) = item_value (itemsChained t ! i)"
    and pa: "is_path (itemsChained t') (indexHead (itemsHash t' ?a)) (ys @ zs) 0"
    and pb: "\<And>b. b < HASH_ITEMS_COUNT \<Longrightarrow> b \<noteq> ?a \<Longrightarrow> is_path (itemsChained t') (indexHead (itemsHash t' b)) (ch b) 0"
  proof (cases ys rule: rev_cases)
    case Nil
    let ?t = "t1\<lparr>itemsHash := (itemsHash t1)(?a := (itemsHash t1 ?a)\<lparr>indexHead := indexNext (itemsChained t1 ! x)\<rparr>)\<rparr>"
    have p: "indexHead (itemsHash t ?a) = x" "x \<noteq> 0" "is_path (itemsChained t) (indexNext (itemsChained t ! x)) zs 0"
      using path xs(1) Nil by auto
    then have "HashTable_del t h = Some (True, ?t)" using xs(2) by (simp add: HashTable_del_def del_at_def D Let_def)
    moreover have "alloc_inv ?t" using al1 by (simp add: alloc_inv_def)
    moreover have "is_path (itemsChained ?t) (indexHead (itemsHash ?t b)) (ch b) 0" if "b < HASH_ITEMS_COUNT" "b \<noteq> ?a" for b
      using chainsD(1) [OF ch that(1)] that(2) by (simp add: c1 h1)
    ultimately show thesis using that [of ?t] p Nil by (simp add: used_def c1)
  next
    case (snoc ws b)
    let ?e = "(itemsChained t ! b)\<lparr>indexNext := indexNext (itemsChained t ! x)\<rparr>"
    let ?t = "t1\<lparr>itemsChained := (itemsChained t)[b := ?e]\<rparr>"
    have cha: "ch ?a = ws @ b # x # zs" using xs(1) snoc by simp
    then have "ch ?a \<noteq> []" by simp
    then obtain y rest where yr: "ch ?a = y # rest" unfolding neq_Nil_conv by blast
    have p: "indexHead (itemsHash t ?a) = y" "y \<noteq> 0" "is_path (itemsChained t) (indexNext (itemsChained t ! y)) rest 0"
      using path yr by auto
    have ny: "hashUnique (itemsChained t ! y) \<noteq> h" using xs(3) snoc yr cha by (cases ws) auto
    have "chain_walk (itemsChained t) h y (indexNext (itemsChained t ! y)) = Some (True, b, x)"
    proof (cases ws)
      case Nil
      then have "rest = [] @ x # zs" "y = b" using yr cha by auto
      then show ?thesis using chain_walk_list [OF p(3), of h y] walk_list_Some [of "[]" "itemsChained t" h x y zs] xs(2) by simp
    next
      case (Cons w ws')
      then have r: "rest = (ws' @ [b]) @ x # zs" and yw: "y = w" using yr cha by auto
      have "\<forall>v \<in> set (ws' @ [b]). hashUnique (itemsChained t ! v) \<noteq> h" using xs(3) snoc Cons by simp
      from walk_list_Some [OF this xs(2), of y zs]
      show ?thesis using chain_walk_list [OF p(3), of h y] r by simp
    qed
    then have "HashTable_del t h = Some (True, ?t)" using p ny by (simp add: HashTable_del_def del_at_def D Let_def c1)
    moreover have "alloc_inv ?t" using al1 c1 by (simp add: alloc_inv_def)
    moreover have "hashUnique (itemsChained ?t ! i) = hashUnique (itemsChained t ! i) \<and> item_value (itemsChained ?t ! i) = item_value (itemsChained t ! i)" for i
      by (cases "i = b"; cases "b < length (itemsChained t)") (auto simp: item_value_def not_less list_update_beyond)
    moreover have "is_path (itemsChained ?t) (indexHead (itemsHash ?t ?a)) (ys @ zs) 0"
      using path_unlink_item [of "itemsChained t" _ ws b x zs] path distinct_chain [OF ch less] by (simp add: cha snoc h1)
    moreover have "is_path (itemsChained ?t) (indexHead (itemsHash ?t c)) (ch c) 0" if "c < HASH_ITEMS_COUNT" "c \<noteq> ?a" for c
    proof -
      have "b \<notin> set (ch c)" using chainsD(3) [OF ch that(1), of b] chainsD(3) [OF ch less, of b] that(2) cha by auto
      then show ?thesis using chainsD(1) [OF ch that(1)] is_path_update by (simp add: h1)
    qed
    ultimately show thesis using that [of ?t] by (simp add: used_def)
  qed
  have u': "used t' = used t - {x}" using u u1 by simp
  have hashes: "\<And>i. hashUnique (itemsChained t' ! i) = hashUnique (itemsChained t ! i)" using same by simp
  have "chains t' (ch(?a := ys @ zs))"
    by (rule chains_remove [OF ch less xs(1) u' hashes pa pb])
  then have inv': "hash_inv t'" using al' by (auto simp: hash_inv_def)
  show thesis by (rule that [OF P inv' index_map_remove [OF inv inv' x xs(2) u' same]])
qed

section \<open>Capacity\<close>

lemma HashTable_put_length: "HashTable_put t h m d = Some (r, t') \<Longrightarrow> length (itemsChained t') = length (itemsChained t)"
  by (auto simp: HashTable_put_def put_at_def new_chained_def Let_def split: if_splits list.splits prod.splits option.splits)

lemma HashTable_del_length: "HashTable_del t h = Some (r, t') \<Longrightarrow> length (itemsChained t') = length (itemsChained t)"
  by (auto simp: HashTable_del_def del_at_def drop_chained_def Let_def split: if_splits prod.splits option.splits)

lemma dom_index_map: "hash_inv t \<Longrightarrow> dom (index_map t) = (\<lambda>i. hashUnique (itemsChained t ! i)) ` used t"
  using index_map_None [of t] by (auto simp: dom_def)

lemma capacity:
  assumes inv: "hash_inv t"
  shows "finite (dom (index_map t))"
    and "length (freeChained t) + card (dom (index_map t)) + 1 = length (itemsChained t)"
proof -
  from inv obtain ch where ch: "chains t ch" and al: "alloc_inv t" by (auto simp: hash_inv_def)
  let ?bm = "bitmapChainedItems t"
  have fl: "distinct (freeChained t)" "set (freeChained t) = {p. p < varCountTotal ?bm \<and> \<not> is_set ?bm p}"
    and z: "is_set ?bm 0" and len: "length (itemsChained t) = varCountTotal ?bm"
    using al by (auto simp: alloc_inv_def bmp.free_list_of_def)
  have fin: "finite (used t)" by (rule finite_subset [of _ "{..<varCountTotal ?bm}"]) (auto simp: used_def is_set_def)
  then show "finite (dom (index_map t))" by (simp add: dom_index_map [OF inv])
  have "inj_on (\<lambda>i. hashUnique (itemsChained t ! i)) (used t)"
    by (rule inj_onI) (rule used_hash_unique [OF ch])
  then have c: "card (dom (index_map t)) = card (used t)" by (simp add: dom_index_map [OF inv] card_image)
  have "{..<varCountTotal ?bm} = insert 0 (used t \<union> set (freeChained t))" "0 \<notin> used t \<union> set (freeChained t)"
    "used t \<inter> set (freeChained t) = {}"
    using z unfolding fl(2) by (auto simp: used_def is_set_def)
  then have "card {..<varCountTotal ?bm} = Suc (card (used t) + card (set (freeChained t)))"
    using fin by (simp add: card_Un_disjoint)
  then show "length (freeChained t) + card (dom (index_map t)) + 1 = length (itemsChained t)"
    using c len distinct_card [OF fl(1)] by simp
qed

section \<open>The contract of an index\<close>

text \<open>A map of bounded size. A deletion reports success when anything is stored at the address of the key.\<close>

locale bounded_index =
  fixes ok :: "'t \<Rightarrow> bool"
    and view :: "'t \<Rightarrow> 'k \<Rightarrow> 'v option"
    and cap :: "'t \<Rightarrow> nat"
    and addr :: "'k \<Rightarrow> nat"
    and get :: "'t \<Rightarrow> 'k \<Rightarrow> 'v option option"
    and put :: "'t \<Rightarrow> 'k \<Rightarrow> 'v \<Rightarrow> (bool \<times> 't) option"
    and del :: "'t \<Rightarrow> 'k \<Rightarrow> (bool \<times> 't) option"
  assumes get_spec: "ok t \<Longrightarrow> get t k = Some (view t k)"
    and put_spec: "ok t \<Longrightarrow> \<exists>t'. put t k v = Some (view t k \<noteq> None \<or> card (dom (view t)) < cap t, t') \<and> ok t' \<and> cap t' = cap t \<and>
      view t' = (if view t k \<noteq> None \<or> card (dom (view t)) < cap t then (view t)(k \<mapsto> v) else view t)"
    and del_spec: "ok t \<Longrightarrow> \<exists>t'. del t k = Some (\<exists>k' \<in> dom (view t). addr k' = addr k, t') \<and> ok t' \<and> cap t' = cap t \<and>
      view t' = (view t)(k := None)"
begin

lemma put_then_get:
  assumes "ok t" and "put t k v = Some (r, t')"
  shows "get t' k' = (if r \<and> k' = k then Some (Some v) else get t k') \<and> (\<not> r \<longrightarrow> get t k = Some None)"
  using put_spec [OF assms(1), of k v] assms by (auto simp: get_spec split: if_splits)

lemma del_then_get:
  assumes "ok t" and "del t k = Some (r, t')"
  shows "get t' k' = (if k' = k then Some None else get t k')"
  using del_spec [OF assms(1), of k] assms by (auto simp: get_spec)

end

interpretation hti: bounded_index hash_inv index_map "\<lambda>t. length (itemsChained t) - 1" getAddressHash HashTable_get
  "\<lambda>t h v. HashTable_put t h (fst v) (snd v)" HashTable_del
proof
  fix t h v
  assume inv: "hash_inv t"
  let ?put = "HashTable_put t h (fst v) (snd v)"
  show "HashTable_get t h = Some (index_map t h)" by (rule get_iff(1) [OF inv])
  have room: "freeChained t = [] \<longleftrightarrow> \<not> card (dom (index_map t)) < length (itemsChained t) - 1"
    using capacity(2) [OF inv] by (cases "freeChained t") auto
  show "\<exists>t'. ?put = Some (index_map t h \<noteq> None \<or> card (dom (index_map t)) < length (itemsChained t) - 1, t') \<and> hash_inv t' \<and>
    length (itemsChained t') - 1 = length (itemsChained t) - 1 \<and>
    index_map t' = (if index_map t h \<noteq> None \<or> card (dom (index_map t)) < length (itemsChained t) - 1 then (index_map t)(h \<mapsto> v) else index_map t)"
  proof (cases "index_map t h")
    case (Some w)
    then obtain t' where t': "?put = Some (True, t')" "hash_inv t'" "index_map t' = (index_map t)(h \<mapsto> v)"
      using put_at_found [OF inv, of h "fst v" "snd v"] by auto
    then show ?thesis using Some HashTable_put_length [OF t'(1)] by auto
  next
    case None
    show ?thesis
    proof (cases "freeChained t")
      case Nil
      then have "?put = Some (False, t)" by (rule put_at_full [OF inv None])
      then show ?thesis using None Nil room inv by auto
    next
      case (Cons n fs)
      then obtain t' where t': "?put = Some (True, t')" "hash_inv t'" "index_map t' = (index_map t)(h \<mapsto> v)"
        using put_at_new [OF inv None Cons, of "fst v" "snd v"] by auto
      have "card (dom (index_map t)) < length (itemsChained t) - 1" using Cons room by simp
      then show ?thesis using t' HashTable_put_length [OF t'(1)] by auto
    qed
  qed
  have addr: "(\<exists>i \<in> used t. getAddressHash (hashUnique (itemsChained t ! i)) = getAddressHash h) \<longleftrightarrow>
      (\<exists>k \<in> dom (index_map t). getAddressHash k = getAddressHash h)"
    by (simp add: dom_index_map [OF inv])
  show "\<exists>t'. HashTable_del t h = Some (\<exists>k \<in> dom (index_map t). getAddressHash k = getAddressHash h, t') \<and> hash_inv t' \<and>
    length (itemsChained t') - 1 = length (itemsChained t) - 1 \<and> index_map t' = (index_map t)(h := None)"
  proof (cases "index_map t h")
    case None
    then have "index_map t = (index_map t)(h := None)" by (simp add: fun_upd_idem)
    then show ?thesis using del_absent [OF inv None] addr inv by auto
  next
    case (Some w)
    then obtain t' where t': "HashTable_del t h = Some (True, t')" "hash_inv t'" "index_map t' = (index_map t)(h := None)"
      using del_present [OF inv, of h] by auto
    have "h \<in> dom (index_map t)" using Some by auto
    then show ?thesis using t' HashTable_del_length [OF t'(1)] by auto
  qed
qed

section \<open>Sequences of operations\<close>

datatype index_op = Get_op UniqueHash | Put_op UniqueHash nat bool | Del_op UniqueHash
datatype index_result = Found "(nat \<times> bool) option" | Done bool

definition index_step :: "HashTable \<Rightarrow> index_op \<Rightarrow> (index_result \<times> HashTable) option" where
  "index_step t op =
     (case op of
        Get_op h \<Rightarrow> map_option (\<lambda>r. (Found r, t)) (HashTable_get t h)
      | Put_op h m d \<Rightarrow> map_option (\<lambda>(r, t'). (Done r, t')) (HashTable_put t h m d)
      | Del_op h \<Rightarrow> map_option (\<lambda>(r, t'). (Done r, t')) (HashTable_del t h))"

fun index_run :: "HashTable \<Rightarrow> index_op list \<Rightarrow> (index_result list \<times> HashTable) option" where
  "index_run t [] = Some ([], t)"
| "index_run t (op # ops) =
     (case index_step t op of
        None \<Rightarrow> None
      | Some (r, t') \<Rightarrow> map_option (\<lambda>(rs, t''). (r # rs, t'')) (index_run t' ops))"

text \<open>The specification: a map with room for \<open>c\<close> digests.\<close>

definition map_step :: "nat \<Rightarrow> (UniqueHash \<Rightarrow> (nat \<times> bool) option) \<Rightarrow> index_op \<Rightarrow> index_result \<times> (UniqueHash \<Rightarrow> (nat \<times> bool) option)" where
  "map_step c m op =
     (case op of
        Get_op h \<Rightarrow> (Found (m h), m)
      | Put_op h i d \<Rightarrow> if m h \<noteq> None \<or> card (dom m) < c then (Done True, m(h \<mapsto> (i, d))) else (Done False, m)
      | Del_op h \<Rightarrow> (Done (\<exists>k \<in> dom m. getAddressHash k = getAddressHash h), m(h := None)))"

fun map_run :: "nat \<Rightarrow> (UniqueHash \<Rightarrow> (nat \<times> bool) option) \<Rightarrow> index_op list \<Rightarrow> index_result list" where
  "map_run c m [] = []"
| "map_run c m (op # ops) = (case map_step c m op of (r, m') \<Rightarrow> r # map_run c m' ops)"

lemma index_step_refines:
  assumes "hash_inv t" and "length (itemsChained t) = Suc c"
  obtains t' where "index_step t op = Some (fst (map_step c (index_map t) op), t')" "hash_inv t'"
    "length (itemsChained t') = Suc c" "index_map t' = snd (map_step c (index_map t) op)"
proof (cases op)
  case (Get_op h)
  then show thesis using that assms hti.get_spec [OF assms(1), of h] by (simp add: index_step_def map_step_def)
next
  case (Put_op h m d)
  obtain t' where t': "HashTable_put t h m d = Some (index_map t h \<noteq> None \<or> card (dom (index_map t)) < c, t')" "hash_inv t'"
    "index_map t' = (if index_map t h \<noteq> None \<or> card (dom (index_map t)) < c then (index_map t)(h \<mapsto> (m, d)) else index_map t)"
    using hti.put_spec [OF assms(1), of h "(m, d)"] assms(2) by auto
  have "length (itemsChained t') = Suc c" using HashTable_put_length [OF t'(1)] assms(2) by simp
  then show thesis using that t' Put_op by (simp add: index_step_def map_step_def)
next
  case (Del_op h)
  obtain t' where t': "HashTable_del t h = Some (\<exists>k \<in> dom (index_map t). getAddressHash k = getAddressHash h, t')" "hash_inv t'"
    "index_map t' = (index_map t)(h := None)"
    using hti.del_spec [OF assms(1), of h] by auto
  have "length (itemsChained t') = Suc c" using HashTable_del_length [OF t'(1)] assms(2) by simp
  then show thesis using that t' Del_op by (simp add: index_step_def map_step_def)
qed

lemma index_run_refines:
  "hash_inv t \<Longrightarrow> length (itemsChained t) = Suc c \<Longrightarrow> \<exists>t'. index_run t ops = Some (map_run c (index_map t) ops, t') \<and> hash_inv t'"
proof (induction ops arbitrary: t)
  case (Cons op ops)
  obtain t' where t': "index_step t op = Some (fst (map_step c (index_map t) op), t')" "hash_inv t'"
    "length (itemsChained t') = Suc c" "index_map t' = snd (map_step c (index_map t) op)"
    using index_step_refines [OF Cons.prems] .
  show ?case using Cons.IH [OF t'(2,3)] t'(1,4) by (auto simp: case_prod_beta)
qed simp

section \<open>The table on a zeroed buffer\<close>

lemma read_u64_zero: "read_u64 (replicate n 0) off = 0"
proof -
  have "foldr (\<lambda>b acc. acc * 256 + ucast b) (replicate k (0::u8)) (0::u64) = 0" for k by (induction k) auto
  then show ?thesis by (simp add: read_u64_def take_replicate)
qed

lemma HashTable_new_zero:
  assumes "cnt mod 8 = 0" and "0 < cnt" and "cnt < 2 ^ 35" and "HASH_ITEMS_SIZE + cnt div 8 \<le> n"
  obtains t where "HashTable_new (Some (replicate n 0)) cnt = Inr t" "hash_inv t" "index_map t = (\<lambda>_. None)"
    "length (itemsChained t) = cnt"
proof -
  have "cnt div 8 \<le> length (drop HASH_ITEMS_SIZE (replicate n (0::u8)))" using assms(4) by simp
  from Bitmap_new_ok [OF assms(1,3) this] obtain bm where bm: "Bitmap_new cnt (Some (replicate (n - HASH_ITEMS_SIZE) 0)) = Inr bm"
    "bitmap_ok bm" "varCountTotal bm = cnt" "\<And>p. is_set bm p \<longleftrightarrow> p < cnt \<and> byte_bit (replicate (n - HASH_ITEMS_SIZE) 0) p" by auto
  have "\<not> byte_bit (replicate k 0) p" if "p div 8 < k" for k p using that by (simp add: byte_bit_def)
  then have clear: "\<not> is_set bm p" for p using bm(4) [of p] assms(1,4) by auto
  note st = bmp.set_spec [OF bm(2), of 0, unfolded bm(3), OF assms(2)]
  let ?bm = "snd (bitmap_set bm 0)"
  let ?t = "\<lparr>bitmapChainedItems = ?bm, itemsHash = (\<lambda>i. read_HashItem (replicate n 0) (i * 16)),
      itemsChained = map (\<lambda>i. read_ChainedItem (replicate n 0) (HASH_ITEMS_SIZE + cnt div 8 + i * 56)) [0..<cnt],
      freeChained = rev [1..<cnt]\<rparr>"
  have T: "HashTable_new (Some (replicate n 0)) cnt = Inr ?t"
    using bm(1) st by (simp add: HashTable_new_def case_prod_beta)
  have bits: "is_set ?bm p \<longleftrightarrow> p = 0" for p using st clear by simp
  have "bmp.free_list_of ?bm (rev [1..<cnt])"
    unfolding bmp.free_list_of_def bits using st by (auto simp: bm(3))
  then have "alloc_inv ?t" unfolding alloc_inv_def using st bits [of 0] by (simp add: bm(3))
  moreover have none: "used ?t = {}" unfolding used_def using bits by auto
  have "chains ?t (\<lambda>_. [])" unfolding chains_def none by (simp add: read_HashItem_def read_u64_zero)
  ultimately have inv: "hash_inv ?t" unfolding hash_inv_def by blast
  have "index_map ?t h = None" for h using index_map_None [OF inv, of h] none by simp
  then have "index_map ?t = (\<lambda>_. None)" by (rule ext)
  then show thesis using that [OF T inv] by simp
qed

text \<open>The loop that measures a chain.\<close>

lemma chain_length_list:
  "is_path its i xs 0 \<Longrightarrow> n + length xs < 2 ^ 64 \<Longrightarrow> chain_length its n i = Some (n + length xs)"
proof (induction xs arbitrary: i n)
  case Nil
  then show ?case by (subst chain_length.simps) simp
next
  case (Cons x xs)
  have "inc64 n = Suc n" using Cons.prems(2) by (simp add: inc64_def)
  then show ?case using Cons by (subst chain_length.simps) simp
qed

lemma max_chain_returns:
  assumes "hash_inv t" and "\<forall>i \<in> set is. i < HASH_ITEMS_COUNT"
  shows "\<exists>n. max_chain t m is = Some n \<and> m \<le> n"
  using assms(2)
proof (induction "is" arbitrary: m)
  case (Cons i "is")
  from assms(1) obtain ch where ch: "chains t ch" and al: "alloc_inv t" by (auto simp: hash_inv_def)
  have i: "i < HASH_ITEMS_COUNT" using Cons.prems by simp
  have "set (ch i) \<subseteq> {..<varCountTotal (bitmapChainedItems t)}"
    using chainsD(4) [OF ch i] by (auto simp: used_def is_set_def)
  then have "card (set (ch i)) \<le> varCountTotal (bitmapChainedItems t)" using card_mono [of "{..<varCountTotal (bitmapChainedItems t)}"] by simp
  then have "length (ch i) \<le> varCountTotal (bitmapChainedItems t)" using distinct_card [OF distinct_chain [OF ch i]] by simp
  also have "\<dots> < 2 ^ 35" using al by (simp add: alloc_inv_def bitmap_ok_def)
  finally have "chain_length (itemsChained t) 0 (indexHead (itemsHash t i)) = Some (length (ch i))"
    using chain_length_list [OF chainsD(1) [OF ch i], of 0] by simp
  moreover have "\<exists>n. max_chain t k is = Some n \<and> k \<le> n" for k using Cons.IH Cons.prems by simp
  ultimately show ?case by (auto intro: order_trans) (meson leD nat_le_linear order_trans)
qed simp

section \<open>Properties\<close>



text \<open>C35: under the invariant every operation of the index returns: no walk along a chain runs forever.\<close>

theorem HashTable_operations_return:
  assumes "hash_inv t"
  shows "(\<exists>r. HashTable_get t h = Some r) \<and> (\<exists>r t'. HashTable_put t h m d = Some (r, t') \<and> hash_inv t') \<and>
    (\<exists>r t'. HashTable_del t h = Some (r, t') \<and> hash_inv t') \<and> (\<exists>n. getMaxLengthOfChain t = Some n)"
  using hti.get_spec [OF assms] hti.put_spec [OF assms, of h "(m, d)"] hti.del_spec [OF assms, of h]
    max_chain_returns [OF assms, of "[0..<HASH_ITEMS_COUNT]" 0]
  by (auto simp: getMaxLengthOfChain_def)

theorem HashTable_operations_return_witness:
  "\<exists>t r. HashTable_new (Some (replicate (HASH_ITEMS_SIZE + 1) 0)) 8 = Inr t \<and> HashTable_get t [1, 2, 3, 4] = Some r"
proof -
  obtain t where t: "HashTable_new (Some (replicate (HASH_ITEMS_SIZE + 1) 0)) 8 = Inr t" "hash_inv t"
    using HashTable_new_zero [of 8 "HASH_ITEMS_SIZE + 1"] by auto
  from HashTable_operations_return [OF t(2), of "[1, 2, 3, 4]"] t(1) show ?thesis by blast
qed

text \<open>C36: a path that has been put is found, with the meta index and the kind it was put with, and no
  other digest is affected; a put fails only if the path was absent.\<close>

theorem HashTable_put_path_get_path:
  assumes "hash_inv t" and "HashTable_put_path sha256 t path m d = Some (r, t')"
  shows "(r \<longrightarrow> HashTable_get_path sha256 t' path = Some (Some (m, d))) \<and> (\<not> r \<longrightarrow> HashTable_get_path sha256 t path = Some None) \<and>
    (\<forall>h. h \<noteq> getUniqueHash sha256 path (strlen path) \<longrightarrow> HashTable_get t' h = HashTable_get t h)"
proof -
  let ?h = "getUniqueHash sha256 path (strlen path)"
  have "getAddressHash_buf sha256 path (strlen path) = getAddressHash ?h"
    by (simp add: getAddressHash_buf_def getAddressHash_def getUniqueHash_def)
  then have p: "HashTable_put t ?h (fst (m, d)) (snd (m, d)) = Some (r, t')"
    using assms(2) by (simp add: HashTable_put_path_def HashTable_put_def)
  show ?thesis using hti.put_then_get [OF assms(1) p] by (simp add: HashTable_get_path_def)
qed

theorem HashTable_put_path_get_path_witness:
  "\<exists>t t'. HashTable_put_path (\<lambda>_. [1, 2, 3, 4]) t [47] 5 True = Some (True, t') \<and>
    HashTable_get_path (\<lambda>_. [1, 2, 3, 4]) t' [47] = Some (Some (5, True))"
proof -
  obtain t where inv: "hash_inv t" and m: "index_map t = (\<lambda>_. None)" and l: "length (itemsChained t) = 8"
    using HashTable_new_zero [of 8 "HASH_ITEMS_SIZE + 1"] by auto
  obtain t' where p: "HashTable_put t [1, 2, 3, 4] 5 True = Some (True, t')"
    using hti.put_spec [OF inv, of "[1, 2, 3, 4]" "(5, True)"] m l by auto
  then have "HashTable_put_path (\<lambda>_. [1, 2, 3, 4]) t [47] 5 True = Some (True, t')"
    by (simp add: HashTable_put_path_def HashTable_put_def getAddressHash_buf_def getAddressHash_def getUniqueHash_def)
  with HashTable_put_path_get_path [OF inv this] show ?thesis by blast
qed

end
