(* ===== verification/OctoExtent.thy ===== *)
theory OctoExtent
  imports Prelude "HOL-Library.Monad_Syntax"
begin

text \<open>
  Files of the Octopus file system as lists of extents, \<^verbatim>\<open>sys/octopus/include/common.hpp\<close>, and the translation of a range
  of bytes of a file to positions in the block storage of the nodes, \<^verbatim>\<open>fillFilePositionInformation\<close> of
  \<^verbatim>\<open>sys/octopus/src/fs/filesystem.cpp\<close>. The fields have their widths: a block index times the block size is computed
  in 32 bits before it is widened.

  A call that would use the bounds of an extent the loops did not find, or write behind the ten tuples of the result, has no
  defined behaviour: \<open>None\<close>.
\<close>

section \<open>Data\<close>

definition MAX_FILE_EXTENT_COUNT :: nat where "MAX_FILE_EXTENT_COUNT = 20"
definition MAX_MESSAGE_BLOCK_COUNT :: nat where "MAX_MESSAGE_BLOCK_COUNT = 10"
definition BLOCK_SIZE :: u32 where "BLOCK_SIZE = 0x100000"

record FileMetaTuple =
  ft_hashNode :: u64
  indexExtentStartBlock :: u32
  countExtentBlock :: u32

record FileMeta =
  timeLastModified :: int
  fm_count :: u64
  fm_size :: u64
  fm_tuple :: "FileMetaTuple list"

record file_pos_tuple =
  node_id :: u16
  fp_offset :: u64
  fp_size :: u64

record file_pos_info =
  fpi_len :: u32
  fpi_tuple :: "file_pos_tuple list"

section \<open>Operations\<close>

text \<open>The products of the fields with the block size.\<close>

definition start_bytes :: "FileMetaTuple \<Rightarrow> u64" where
  "start_bytes t = ucast (indexExtentStartBlock t * BLOCK_SIZE)"

definition extent_bytes :: "FileMetaTuple \<Rightarrow> u64" where
  "extent_bytes t = ucast (countExtentBlock t * BLOCK_SIZE)"

text \<open>The extents in use; the loops run to \<open>fm_count\<close>, whether the array has so many or not.\<close>

definition extents :: "FileMeta \<Rightarrow> FileMetaTuple list option" where
  "extents m = (if unat (fm_count m) \<le> length (fm_tuple m) then Some (take (unat (fm_count m)) (fm_tuple m)) else None)"

text \<open>The loop that looks for the extent of an offset: its bound and the offset in it.\<close>

fun locate :: "FileMetaTuple list \<Rightarrow> u64 \<Rightarrow> u64 \<Rightarrow> nat \<Rightarrow> (nat \<times> u64) option" where
  "locate [] off cur i = None"
| "locate (t # ts) off cur i =
     (if cur + extent_bytes t - 1 \<ge> off then Some (i, off - cur) else locate ts off (cur + extent_bytes t) (i + 1))"

definition first_tuple :: "FileMetaTuple \<Rightarrow> u64 \<Rightarrow> u64 \<Rightarrow> file_pos_tuple" where
  "first_tuple t off sz = \<lparr>node_id = ucast (ft_hashNode t), fp_offset = start_bytes t + off, fp_size = sz\<rparr>"

definition middle_tuple :: "FileMetaTuple \<Rightarrow> file_pos_tuple" where
  "middle_tuple t = \<lparr>node_id = ucast (ft_hashNode t), fp_offset = start_bytes t, fp_size = extent_bytes t\<rparr>"

definition last_tuple :: "FileMetaTuple \<Rightarrow> u64 \<Rightarrow> file_pos_tuple" where
  "last_tuple t off = \<lparr>node_id = ucast (ft_hashNode t), fp_offset = 0, fp_size = off + 1\<rparr>"

text \<open>The tuples written to the front of the array of the result.\<close>

definition fill_tuples :: "file_pos_info \<Rightarrow> file_pos_tuple list \<Rightarrow> file_pos_info option" where
  "fill_tuples fpi ts =
     (if length ts \<le> length (fpi_tuple fpi)
      then Some (fpi\<lparr>fpi_len := of_nat (length ts), fpi_tuple := ts @ drop (length ts) (fpi_tuple fpi)\<rparr>)
      else None)"

definition fillFilePositionInformation :: "u64 \<Rightarrow> u64 \<Rightarrow> file_pos_info \<Rightarrow> FileMeta \<Rightarrow> file_pos_info option" where
  "fillFilePositionInformation sz offset fpi metaFile =
     (let offsetStart = offset; offsetEnd = sz + offset - 1
      in do {
        ts \<leftarrow> extents metaFile;
        (boundStartExtent, offsetInStartExtent) \<leftarrow> locate ts offsetStart 0 0;
        (boundEndExtent, offsetInEndExtent) \<leftarrow> locate ts offsetEnd 0 0;
        if boundStartExtent = boundEndExtent then
          fill_tuples fpi [first_tuple (ts ! boundStartExtent) offsetInStartExtent sz]
        else if boundEndExtent < boundStartExtent then None
        else fill_tuples fpi
          (first_tuple (ts ! boundStartExtent) offsetInStartExtent
             (extent_bytes (ts ! boundStartExtent) - offsetInStartExtent) #
           map middle_tuple (take (boundEndExtent - boundStartExtent - 1) (drop (boundStartExtent + 1) ts)) @
           [last_tuple (ts ! boundEndExtent) offsetInEndExtent])
      })"

section \<open>Where the bytes of a file are\<close>

text \<open>The place of byte \<open>k\<close> of a file: the node and the byte in the block storage of the node. The same for byte \<open>k\<close> of
  the range that a position information describes.\<close>

fun byte_place :: "FileMetaTuple list \<Rightarrow> nat \<Rightarrow> (u16 \<times> nat) option" where
  "byte_place [] k = None"
| "byte_place (t # ts) k =
     (let b = unat (countExtentBlock t) * 2 ^ 20
      in if k < b then Some (ucast (ft_hashNode t), unat (indexExtentStartBlock t) * 2 ^ 20 + k) else byte_place ts (k - b))"

fun fpi_place :: "file_pos_tuple list \<Rightarrow> nat \<Rightarrow> (u16 \<times> nat) option" where
  "fpi_place [] k = None"
| "fpi_place (t # ts) k =
     (if k < unat (fp_size t) then Some (node_id t, unat (fp_offset t) + k) else fpi_place ts (k - unat (fp_size t)))"

definition extent_ok :: "FileMetaTuple \<Rightarrow> bool" where
  "extent_ok t \<longleftrightarrow> 0 < unat (countExtentBlock t) \<and> unat (indexExtentStartBlock t) + unat (countExtentBlock t) < 4096"

definition cap :: "FileMetaTuple list \<Rightarrow> nat" where
  "cap ts = sum_list (map (\<lambda>t. unat (countExtentBlock t) * 2 ^ 20) ts)"

lemma cap_simps [simp]: "cap [] = 0" "cap (t # ts) = unat (countExtentBlock t) * 2 ^ 20 + cap ts" "cap (xs @ ys) = cap xs + cap ys"
  by (simp_all add: cap_def)

lemma unat_block:
  assumes "unat (n :: u32) < 4096"
  shows "unat (ucast (n * BLOCK_SIZE) :: u64) = unat n * 2 ^ 20"
  using assms by (simp add: BLOCK_SIZE_def unsigned_ucast_eq take_bit_eq_mod unat_word_ariths)

lemma extent_ok_bytes:
  assumes "extent_ok t"
  shows "unat (extent_bytes t) = unat (countExtentBlock t) * 2 ^ 20" "unat (start_bytes t) = unat (indexExtentStartBlock t) * 2 ^ 20"
    "0 < unat (extent_bytes t)" "unat (start_bytes t) + unat (extent_bytes t) < 2 ^ 32"
  using assms unat_block [of "countExtentBlock t"] unat_block [of "indexExtentStartBlock t"]
  by (simp_all add: extent_ok_def extent_bytes_def start_bytes_def)

lemma unat_sub_le: "unat b \<le> unat a \<Longrightarrow> unat (a - b :: u64) = unat a - unat b"
  by (simp add: unat_sub word_le_nat_alt)

lemma locate_found:
  assumes "\<forall>t \<in> set ts. extent_ok t" and "unat cur + cap ts < 2 ^ 64" and "unat cur \<le> unat off" and "unat off < unat cur + cap ts"
  obtains i d where "locate ts off cur k = Some (k + i, d)" and "i < length ts" and "unat off = unat cur + cap (take i ts) + unat d"
    and "unat d < unat (countExtentBlock (ts ! i)) * 2 ^ 20"
  using assms
proof (induction ts arbitrary: cur k thesis)
  case (Cons t ts)
  have b: "unat (extent_bytes t) = unat (countExtentBlock t) * 2 ^ 20" "0 < unat (extent_bytes t)"
    using Cons.prems(2) extent_ok_bytes [of t] by auto
  have u: "unat (cur + extent_bytes t) = unat cur + unat (countExtentBlock t) * 2 ^ 20"
    using Cons.prems(3) b by (simp add: unat_word_ariths)
  have l: "unat (cur + extent_bytes t - 1) = unat cur + unat (countExtentBlock t) * 2 ^ 20 - 1"
    using b u by (subst unat_sub1) simp_all
  show ?case
  proof (cases "unat off < unat cur + unat (countExtentBlock t) * 2 ^ 20")
    case True
    then have "cur + extent_bytes t - 1 \<ge> off" by (simp add: word_le_nat_alt l)
    then have "locate (t # ts) off cur k = Some (k + 0, off - cur)" by simp
    moreover have "unat (off - cur) = unat off - unat cur" by (rule unat_sub_le [OF Cons.prems(4)])
    ultimately show ?thesis using True Cons.prems(4) by (intro Cons.prems(1) [of 0 "off - cur"]) auto
  next
    case False
    then have "\<not> cur + extent_bytes t - 1 \<ge> off" using b by (simp add: word_le_nat_alt l)
    then have step: "locate (t # ts) off cur k = locate ts off (cur + extent_bytes t) (k + 1)" by simp
    have pre: "\<forall>t \<in> set ts. extent_ok t" "unat (cur + extent_bytes t) + cap ts < 2 ^ 64" "unat (cur + extent_bytes t) \<le> unat off"
        "unat off < unat (cur + extent_bytes t) + cap ts"
      using Cons.prems(2-5) False by (simp_all add: u)
    obtain i d where "locate ts off (cur + extent_bytes t) (k + 1) = Some (k + 1 + i, d)" "i < length ts"
        "unat off = unat (cur + extent_bytes t) + cap (take i ts) + unat d" "unat d < unat (countExtentBlock (ts ! i)) * 2 ^ 20"
      by (rule Cons.IH [OF _ pre])
    then show ?thesis using step u by (intro Cons.prems(1) [of "Suc i" d]) simp_all
  qed
qed simp

lemma byte_place_skip: "byte_place ts (cap (take i ts) + k) = byte_place (drop i ts) k"
proof (induction ts arbitrary: i)
  case (Cons t ts)
  then show ?case by (cases i) (simp_all add: Let_def)
qed simp

lemma byte_place_append: "byte_place (xs @ ys) (cap xs + k) = byte_place ys k"
  using byte_place_skip [of "xs @ ys" "length xs" k] by simp

lemma fpi_place_middle:
  "\<forall>t \<in> set xs. extent_ok t \<Longrightarrow> fpi_place (map middle_tuple xs @ zs) (cap xs + k) = fpi_place zs k"
  by (induction xs) (simp_all add: middle_tuple_def extent_ok_bytes)

lemma fpi_place_middle_byte:
  "\<forall>t \<in> set xs. extent_ok t \<Longrightarrow> k < cap xs \<Longrightarrow> fpi_place (map middle_tuple xs @ zs) k = byte_place (xs @ ys) k"
  by (induction xs arbitrary: k) (auto simp: middle_tuple_def extent_ok_bytes Let_def)

lemma cap_take_mono: "i \<le> j \<Longrightarrow> cap (take i ts) \<le> cap (take j ts)"
  by (metis cap_simps(3) le_add1 le_Suc_ex take_add)

lemma cap_take_Suc: "i < length ts \<Longrightarrow> cap (take (Suc i) ts) = cap (take i ts) + unat (countExtentBlock (ts ! i)) * 2 ^ 20"
  by (simp add: take_Suc_conv_app_nth)

lemma cap_take_unique:
  assumes "cap (take i ts) \<le> e" "e < cap (take (Suc i) ts)" "cap (take j ts) \<le> e" "e < cap (take (Suc j) ts)"
  shows "i = j"
  using cap_take_mono [of "Suc i" j ts] cap_take_mono [of "Suc j" i ts] assms by (meson leD le_trans not_less_eq_eq order_antisym)

lemma cap_bound:
  assumes "\<forall>t \<in> set ts. extent_ok t" and "length ts \<le> 20"
  shows "cap ts < 2 ^ 64"
proof -
  have "cap ts \<le> length ts * 2 ^ 32" using assms(1) by (induction ts) (auto simp: extent_ok_def)
  also have "\<dots> \<le> 20 * 2 ^ 32" using assms(2) by simp
  finally show ?thesis by simp
qed

lemma place_one:
  assumes ok: "extent_ok t" and o: "unat o1 + n \<le> unat (countExtentBlock t) * 2 ^ 20" "n = unat sz" and k: "k < n"
  shows "fpi_place [first_tuple t o1 sz] k = byte_place (t # ts) (unat o1 + k)"
proof -
  have "unat (start_bytes t + o1) = unat (indexExtentStartBlock t) * 2 ^ 20 + unat o1"
    using extent_ok_bytes [OF ok] o(1) by (simp add: unat_word_ariths)
  then show ?thesis using o k by (simp add: first_tuple_def Let_def)
qed

lemma place_many:
  assumes ok: "\<forall>t \<in> set (s # mid @ [l]). extent_ok t"
    and o: "unat o1 < unat (countExtentBlock s) * 2 ^ 20" "unat o2 < unat (countExtentBlock l) * 2 ^ 20"
  defines "f \<equiv> unat (countExtentBlock s) * 2 ^ 20 - unat o1"
  defines "fts \<equiv> first_tuple s o1 (extent_bytes s - o1) # map middle_tuple mid @ [last_tuple l o2]"
  shows "(\<forall>k < f + cap mid + unat o2 + 1. fpi_place fts k = byte_place (s # mid @ l # ts) (unat o1 + k)) \<longleftrightarrow>
      unat (indexExtentStartBlock l) = 0" (is "?L \<longleftrightarrow> ?R")
    and "sum_list (map (unat \<circ> fp_size) fts) = f + cap mid + unat o2 + 1"
proof -
  have s: "extent_ok s" and l: "extent_ok l" and mid: "\<forall>t \<in> set mid. extent_ok t" using ok by auto
  note bs = extent_ok_bytes [OF s]
  have f: "unat (extent_bytes s - o1) = f" using o(1) bs by (simp add: unat_sub_le f_def)
  have o2: "unat (o2 + 1) = unat o2 + 1" using o(2) extent_ok_bytes [OF l] by (simp add: unat_word_ariths)
  have off: "unat (start_bytes s + o1) = unat (indexExtentStartBlock s) * 2 ^ 20 + unat o1"
    using bs o(1) by (simp add: unat_word_ariths)
  have first: "fpi_place fts k = byte_place (s # mid @ l # ts) (unat o1 + k)" if "k < f" for k
  proof -
    have "unat o1 + k < unat (countExtentBlock s) * 2 ^ 20" using that by (simp add: f_def less_diff_conv)
    then show ?thesis using that by (simp add: fts_def first_tuple_def f off Let_def)
  qed
  have skip: "fpi_place fts (f + k) = fpi_place (map middle_tuple mid @ [last_tuple l o2]) k"
    "byte_place (s # mid @ l # ts) (unat o1 + (f + k)) = byte_place (mid @ l # ts) k" for k
    using o(1) by (simp add: fts_def first_tuple_def f, simp add: f_def Let_def)
  have middle: "fpi_place fts (f + k) = byte_place (s # mid @ l # ts) (unat o1 + (f + k))" if "k < cap mid" for k
    unfolding skip by (rule fpi_place_middle_byte [OF mid that])
  have last: "fpi_place fts (f + (cap mid + k)) = Some (ucast (ft_hashNode l), k)"
    "byte_place (s # mid @ l # ts) (unat o1 + (f + (cap mid + k))) = Some (ucast (ft_hashNode l), unat (indexExtentStartBlock l) * 2 ^ 20 + k)"
    if "k \<le> unat o2" for k
    unfolding skip fpi_place_middle [OF mid] byte_place_append using that o(2) by (simp_all add: last_tuple_def o2 Let_def)
  show "?L \<longleftrightarrow> ?R"
  proof
    assume ?L
    then have "fpi_place fts (f + (cap mid + 0)) = byte_place (s # mid @ l # ts) (unat o1 + (f + (cap mid + 0)))" by simp
    then show ?R unfolding last [OF le0] by simp
  next
    assume R: ?R
    show ?L
    proof (intro allI impI)
      fix k assume k: "k < f + cap mid + unat o2 + 1"
      consider "k < f" | j where "k = f + j" "j < cap mid" | j where "k = f + (cap mid + j)" "j \<le> unat o2"
      proof (cases "k < f")
        case False
        then obtain j where "k = f + j" using le_Suc_ex by (metis not_less)
        moreover then obtain i where "j = cap mid + i" if "\<not> j < cap mid" using le_Suc_ex by (metis not_less)
        ultimately show thesis using that k by (cases "j < cap mid") auto
      qed
      then show "fpi_place fts k = byte_place (s # mid @ l # ts) (unat o1 + k)"
        by cases (use first middle last R in auto)
    qed
  qed
  have "sum_list (map (unat \<circ> fp_size) (map middle_tuple mid)) = cap mid"
    using mid by (induction mid) (simp_all add: middle_tuple_def extent_ok_bytes)
  then show "sum_list (map (unat \<circ> fp_size) fts) = f + cap mid + unat o2 + 1"
    by (simp add: fts_def first_tuple_def last_tuple_def f o2)
qed

section \<open>Properties\<close>

definition used_tuples :: "file_pos_info \<Rightarrow> file_pos_tuple list" where
  "used_tuples fpi = take (unat (fpi_len fpi)) (fpi_tuple fpi)"

lemma fill_tuples_used:
  assumes "length ts \<le> length (fpi_tuple fpi)" and "length ts < 2 ^ 32"
  obtains fpi' where "fill_tuples fpi ts = Some fpi'" and "used_tuples fpi' = ts"
  using assms by (simp add: fill_tuples_def used_tuples_def unat_of_nat_id)

lemma drop_between:
  assumes "i < j" and "j < length ts"
  shows "drop i ts = ts ! i # take (j - i - 1) (drop (i + 1) ts) @ ts ! j # drop (j + 1) ts"
proof -
  have "drop (i + 1) ts = take (j - i - 1) (drop (i + 1) ts) @ drop (j - i - 1) (drop (i + 1) ts)" by (rule append_take_drop_id [symmetric])
  also have "drop (j - i - 1) (drop (i + 1) ts) = drop j ts" using assms(1) by simp
  finally show ?thesis using assms by (simp add: Cons_nth_drop_Suc)
qed

lemma take_between:
  assumes "i < j" and "j < length ts"
  shows "take j ts = take i ts @ ts ! i # take (j - i - 1) (drop (i + 1) ts)"
proof -
  obtain n where n: "j = i + Suc n" using assms(1) less_iff_Suc_add by auto
  have "drop i ts = ts ! i # drop (Suc i) ts" using assms by (simp add: Cons_nth_drop_Suc)
  moreover have "take j ts = take i ts @ take (Suc n) (drop i ts)" unfolding n by (rule take_add)
  ultimately show ?thesis by (simp add: n)
qed

lemma range_located:
  assumes ok: "\<forall>t \<in> set ts. extent_ok t" and len: "length ts \<le> 20" and sz: "0 < unat sz" "unat offset + unat sz \<le> cap ts"
  obtains b1 o1 b2 o2 where "locate ts offset 0 0 = Some (b1, o1)" and "b1 < length ts" and "unat offset = cap (take b1 ts) + unat o1"
    and "unat o1 < unat (countExtentBlock (ts ! b1)) * 2 ^ 20"
    and "locate ts (sz + offset - 1) 0 0 = Some (b2, o2)" and "b2 < length ts"
    and "unat offset + unat sz - 1 = cap (take b2 ts) + unat o2" and "unat o2 < unat (countExtentBlock (ts ! b2)) * 2 ^ 20"
    and "b1 \<le> b2"
proof -
  have bound: "cap ts < 2 ^ 64" by (rule cap_bound [OF ok len])
  have e: "unat (sz + offset - 1) = unat offset + unat sz - 1"
  proof -
    have "unat (sz + offset) = unat offset + unat sz" using sz bound by (simp add: unat_word_ariths)
    then show ?thesis using sz(1) unat_sub1 [of "sz + offset"] by simp
  qed
  obtain b1 o1 where l1: "locate ts offset 0 0 = Some (b1, o1)" "b1 < length ts" "unat offset = cap (take b1 ts) + unat o1"
      "unat o1 < unat (countExtentBlock (ts ! b1)) * 2 ^ 20"
    using locate_found [OF ok, of 0 offset 0] sz bound by auto
  obtain b2 o2 where l2: "locate ts (sz + offset - 1) 0 0 = Some (b2, o2)" "b2 < length ts"
      "unat offset + unat sz - 1 = cap (take b2 ts) + unat o2" "unat o2 < unat (countExtentBlock (ts ! b2)) * 2 ^ 20"
  proof -
    have pre: "unat (0 :: u64) + cap ts < 2 ^ 64" "unat (0 :: u64) \<le> unat (sz + offset - 1)"
        "unat (sz + offset - 1) < unat (0 :: u64) + cap ts" using sz bound e by simp_all
    show thesis by (rule locate_found [OF ok pre, of 0]) (use that e in simp)
  qed
  have "b1 \<le> b2"
    using cap_take_mono [of "Suc b2" b1 ts] cap_take_Suc [OF l2(2)] l1(3) l2(3,4) sz(1) by (cases "b1 \<le> b2") auto
  then show thesis using that l1 l2 by blast
qed

lemma fill_returns:
  assumes ts: "extents m = Some ts" and ok: "\<forall>t \<in> set ts. extent_ok t" and len: "length ts \<le> 10" "length (fpi_tuple fpi) = 10"
    and sz: "0 < unat sz" "unat offset + unat sz \<le> cap ts"
  shows "\<exists>fpi'. fillFilePositionInformation sz offset fpi m = Some fpi'"
proof -
  obtain b1 o1 b2 o2 where l: "locate ts offset 0 0 = Some (b1, o1)" "b1 < length ts" "locate ts (sz + offset - 1) 0 0 = Some (b2, o2)"
      "b2 < length ts" "b1 \<le> b2"
    by (rule range_located [OF ok _ sz]) (use len(1) in auto)
  have fits: "length xs \<le> 10 \<Longrightarrow> \<exists>fpi'. fill_tuples fpi xs = Some fpi'" for xs using len(2) by (simp add: fill_tuples_def)
  show ?thesis
    using l(2,4,5) len(1) by (auto simp: fillFilePositionInformation_def Let_def ts l(1,3) intro!: fits)
qed

text \<open>C11: for a range inside a file whose extents lie in the first 4096 blocks, the positions are computed, their sizes add up to
  the size of the range, and every byte of the range is at its place exactly if the range lies in one extent or its last extent
  starts at block 0. In every other case the bytes in the last extent are taken from the start of the storage of the node.\<close>

theorem positions_correct_iff:
  assumes ts: "extents m = Some ts" and ok: "\<forall>t \<in> set ts. extent_ok t" and len: "length ts \<le> 10" "length (fpi_tuple fpi) = 10"
    and sz: "0 < unat sz" "unat offset + unat sz \<le> cap ts"
  shows "\<exists>fpi'. fillFilePositionInformation sz offset fpi m = Some fpi' \<and>
    sum_list (map (unat \<circ> fp_size) (used_tuples fpi')) = unat sz \<and>
    ((\<forall>k < unat sz. fpi_place (used_tuples fpi') k = byte_place ts (unat offset + k)) \<longleftrightarrow>
     (\<exists>i < length ts. cap (take i ts) \<le> unat offset + unat sz - 1 \<and> unat offset + unat sz - 1 < cap (take (Suc i) ts) \<and>
        (cap (take i ts) \<le> unat offset \<or> unat (indexExtentStartBlock (ts ! i)) = 0)))"
proof -
  obtain b1 o1 b2 o2 where l1: "locate ts offset 0 0 = Some (b1, o1)" "b1 < length ts" "unat offset = cap (take b1 ts) + unat o1"
      "unat o1 < unat (countExtentBlock (ts ! b1)) * 2 ^ 20"
    and l2: "locate ts (sz + offset - 1) 0 0 = Some (b2, o2)" "b2 < length ts"
      "unat offset + unat sz - 1 = cap (take b2 ts) + unat o2" "unat o2 < unat (countExtentBlock (ts ! b2)) * 2 ^ 20"
    and "b1 \<le> b2"
    by (rule range_located [OF ok _ sz]) (use len(1) in auto)
  let ?e = "unat offset + unat sz - 1"
  have here: "i = b2" if "cap (take i ts) \<le> ?e" "?e < cap (take (Suc i) ts)" for i
    by (rule cap_take_unique [OF that]) (use l2 cap_take_Suc [OF l2(2)] in auto)
  have iff: "(\<exists>i < length ts. cap (take i ts) \<le> ?e \<and> ?e < cap (take (Suc i) ts) \<and>
      (cap (take i ts) \<le> unat offset \<or> unat (indexExtentStartBlock (ts ! i)) = 0)) \<longleftrightarrow>
      cap (take b2 ts) \<le> unat offset \<or> unat (indexExtentStartBlock (ts ! b2)) = 0"
  proof -
    have at: "cap (take b2 ts) \<le> ?e" "?e < cap (take (Suc b2) ts)" using l2 cap_take_Suc [OF l2(2)] by simp_all
    show ?thesis
    proof
      assume "\<exists>i < length ts. cap (take i ts) \<le> ?e \<and> ?e < cap (take (Suc i) ts) \<and>
        (cap (take i ts) \<le> unat offset \<or> unat (indexExtentStartBlock (ts ! i)) = 0)"
      then obtain i where i: "cap (take i ts) \<le> ?e" "?e < cap (take (Suc i) ts)"
          "cap (take i ts) \<le> unat offset \<or> unat (indexExtentStartBlock (ts ! i)) = 0" by blast
      from i(3) show "cap (take b2 ts) \<le> unat offset \<or> unat (indexExtentStartBlock (ts ! b2)) = 0" unfolding here [OF i(1,2)] .
    qed (use at l2(2) in \<open>intro exI [of _ b2] conjI\<close>)
  qed
  have byte: "byte_place ts (unat offset + k) = byte_place (drop b1 ts) (unat o1 + k)" for k
    using byte_place_skip [of ts b1 "unat o1 + k"] by (simp add: l1(3) add.assoc)
  show ?thesis
  proof (cases "b1 = b2")
    case True
    let ?fts = "[first_tuple (ts ! b1) o1 sz]"
    obtain fpi' where fpi': "fill_tuples fpi ?fts = Some fpi'" "used_tuples fpi' = ?fts"
      using fill_tuples_used [of ?fts fpi] len(2) by auto
    have fits: "unat o1 + unat sz \<le> unat (countExtentBlock (ts ! b1)) * 2 ^ 20" using l1 l2 True sz(1) by simp
    have "drop b1 ts = ts ! b1 # drop (Suc b1) ts" using l1(2) by (simp add: Cons_nth_drop_Suc)
    then have "\<forall>k < unat sz. fpi_place ?fts k = byte_place ts (unat offset + k)"
      using place_one [OF _ fits refl] ok l1(2) by (simp add: byte del: fpi_place.simps)
    moreover have "fillFilePositionInformation sz offset fpi m = Some fpi'"
      using True fpi'(1) by (simp add: fillFilePositionInformation_def Let_def ts l1(1) l2(1))
    ultimately show ?thesis unfolding iff using fpi'(2) l1(3) True by (simp add: first_tuple_def)
  next
    case False
    with \<open>b1 \<le> b2\<close> have lt: "b1 < b2" by simp
    let ?mid = "take (b2 - b1 - 1) (drop (b1 + 1) ts)"
    let ?fts = "first_tuple (ts ! b1) o1 (extent_bytes (ts ! b1) - o1) # map middle_tuple ?mid @ [last_tuple (ts ! b2) o2]"
    note d = drop_between [OF lt l2(2)]
    have "length ?fts \<le> 10" using l2(2) len(1) lt by simp
    then obtain fpi' where fpi': "fill_tuples fpi ?fts = Some fpi'" "used_tuples fpi' = ?fts"
      using fill_tuples_used [of ?fts fpi] len(2) by auto
    have oks: "\<forall>t \<in> set (ts ! b1 # ?mid @ [ts ! b2]). extent_ok t"
      using ok l1(2) l2(2) by (auto dest!: in_set_takeD in_set_dropD)
    have "take b2 ts = take b1 ts @ ts ! b1 # ?mid" by (rule take_between [OF lt l2(2)])
    then have c: "cap (take b2 ts) = cap (take b1 ts) + unat (countExtentBlock (ts ! b1)) * 2 ^ 20 + cap ?mid" by simp
    define f where "f = unat (countExtentBlock (ts ! b1)) * 2 ^ 20 - unat o1"
    have n: "unat sz = f + cap ?mid + unat o2 + 1" using c l1(3,4) l2(3) sz(1) by (simp add: f_def)
    have far: "\<not> cap (take b2 ts) \<le> unat offset" using c l1(3,4) by simp
    have run: "fillFilePositionInformation sz offset fpi m = Some fpi'"
      using lt fpi'(1) by (simp add: fillFilePositionInformation_def Let_def ts l1(1) l2(1))
    have "(\<forall>k < unat sz. fpi_place ?fts k = byte_place ts (unat offset + k)) \<longleftrightarrow> unat (indexExtentStartBlock (ts ! b2)) = 0"
      unfolding byte d n f_def by (rule place_many(1) [OF oks l1(4) l2(4)])
    moreover have "sum_list (map (unat \<circ> fp_size) ?fts) = unat sz" unfolding n f_def by (rule place_many(2) [OF oks l1(4) l2(4)])
    ultimately show ?thesis unfolding iff using run fpi'(2) far by simp
  qed
qed

text \<open>A file of two extents with a gap between them: a range of two bytes across the end of the first extent.\<close>

definition two_extents :: FileMeta where
  "two_extents = \<lparr>timeLastModified = 0, fm_count = 2, fm_size = 0x200000, fm_tuple =
     [\<lparr>ft_hashNode = 1, indexExtentStartBlock = 0, countExtentBlock = 1\<rparr>,
      \<lparr>ft_hashNode = 1, indexExtentStartBlock = 2, countExtentBlock = 1\<rparr>] @
     replicate 18 \<lparr>ft_hashNode = 0, indexExtentStartBlock = 0, countExtentBlock = 0\<rparr>\<rparr>"

definition empty_fpi :: file_pos_info where
  "empty_fpi = \<lparr>fpi_len = 0, fpi_tuple = replicate 10 \<lparr>node_id = 0, fp_offset = 0, fp_size = 0\<rparr>\<rparr>"

theorem positions_correct_iff_witness:
  "\<exists>ts fpi'. extents two_extents = Some ts \<and> fillFilePositionInformation 2 0xFFFFF empty_fpi two_extents = Some fpi' \<and>
    \<not> (\<forall>k < 2. fpi_place (used_tuples fpi') k = byte_place ts (0xFFFFF + k))"
proof -
  let ?ts = "take 2 (fm_tuple two_extents)"
  have ts: "extents two_extents = Some ?ts" by (simp add: extents_def two_extents_def)
  have i: "\<not> (\<exists>i < 2. cap (take i ?ts) \<le> 0x100000 \<and> 0x100000 < cap (take (Suc i) ?ts) \<and>
      (cap (take i ?ts) \<le> 0xFFFFF \<or> unat (indexExtentStartBlock (?ts ! i)) = 0))"
    by (auto simp: two_extents_def less_2_cases_iff)
  have pre: "\<forall>t \<in> set ?ts. extent_ok t" "length ?ts \<le> 10" "length (fpi_tuple empty_fpi) = 10" "0 < unat (2 :: u64)"
      "unat (0xFFFFF :: u64) + unat (2 :: u64) \<le> cap ?ts" "length ?ts = 2"
    by (simp_all add: extent_ok_def two_extents_def empty_fpi_def)
  show ?thesis using positions_correct_iff [OF ts pre(1-5)] i ts pre(6) by auto
qed

end
