(* ===== verification/OctoPath.thy ===== *)
theory OctoPath
  imports Prelude
begin

text \<open>
  Paths in the Octopus file system: splitting a path into the directory and the name
  (\<^verbatim>\<open>getParentDirectory\<close> and \<^verbatim>\<open>getNameFromPath\<close> of \<^verbatim>\<open>sys/octopus/src/fs/filesystem.cpp\<close>) and putting a
  name behind a directory as \<^verbatim>\<open>recursivereaddir\<close> does. A path is a byte array that holds a C string. The
  buffer for the name is \<open>None\<close> where the code leaves it as \<^verbatim>\<open>malloc\<close> returned it. \<open>correct\<close> is the function of
  that name in \<^verbatim>\<open>sys/octopus/src/client/nrfs.cpp\<close>, which every call of the client applies to its path: it
  removes repeated slashes and a slash at the end. On the empty path it reads in front of the buffer: \<open>None\<close>.
\<close>

definition slash :: u8 where "slash = 0x2F"
definition root_path :: "u8 list" where "root_path = [slash]"

text \<open>The loop from the last character down to the first slash it meets.\<close>

fun last_slash :: "u8 list \<Rightarrow> nat \<Rightarrow> nat option" where
  "last_slash p 0 = None"
| "last_slash p (Suc i) = (if p ! i = slash then Some i else last_slash p i)"

definition getParentDirectory :: "u8 list \<Rightarrow> bool \<times> u8 list" where
  "getParentDirectory path =
     (let p = c_str path
      in if length p = 1 \<and> p ! 0 = slash then (False, p)
         else case last_slash p (length p) of
                None \<Rightarrow> (False, p)
              | Some i \<Rightarrow> if i = 0 then (True, root_path) else (True, take i p))"

definition getNameFromPath :: "u8 list \<Rightarrow> bool \<times> u8 list option" where
  "getNameFromPath path =
     (let p = c_str path
      in if length p = 1 \<and> p ! 0 = slash then (False, None)
         else case last_slash p (length p) of
                None \<Rightarrow> (False, None)
              | Some i \<Rightarrow> (True, Some (drop (i + 1) p)))"

definition childPath :: "u8 list \<Rightarrow> u8 list \<Rightarrow> u8 list" where
  "childPath path name =
     (if strcmp_eq path root_path then c_str path @ c_str name else c_str path @ [slash] @ c_str name)"

text \<open>The first loop of \<^verbatim>\<open>correct\<close>.\<close>

fun squeeze :: "u8 list \<Rightarrow> u8 list" where
  "squeeze [] = []"
| "squeeze [a] = [a]"
| "squeeze (a # b # p) = (if a = slash \<and> b = slash then squeeze (b # p) else a # squeeze (b # p))"

definition correct :: "u8 list \<Rightarrow> u8 list option" where
  "correct old_path =
     (let q = squeeze (c_str old_path)
      in if q = [] then None
         else let r = (if last q = slash then butlast q else q)
              in Some (if r = [] then root_path else r))"

lemma c_str_id: "0 \<notin> set p \<Longrightarrow> c_str p = p"
  unfolding c_str_def by (rule takeWhile_eq_all_conv [THEN iffD2]) auto

lemma c_str_c_str [simp]: "c_str (c_str p) = c_str p"
  by (rule c_str_id) (auto simp: c_str_def dest: set_takeWhileD)

lemma last_slash_append:
  "slash \<notin> set n \<Longrightarrow> k \<le> length n \<Longrightarrow> last_slash (p @ [slash] @ n) (length p + 1 + k) = Some (length p)"
proof (induction k)
  case (Suc k)
  then have "(p @ [slash] @ n) ! (length p + 1 + k) = n ! k" "n ! k \<noteq> slash"
    by (auto simp: nth_append) (metis Suc_le_lessD nth_mem)
  then show ?case using Suc by simp
qed (simp add: nth_append)

lemma last_slash_Some: "last_slash p k = Some i \<Longrightarrow> i < k \<and> p ! i = slash"
  by (induction k) (auto split: if_splits)

lemma split_path:
  assumes "slash \<notin> set n" and "0 \<notin> set (p @ n)" and "p \<noteq> [] \<or> n \<noteq> []"
  shows "getParentDirectory (p @ [slash] @ n) = (True, if p = [] then root_path else p)"
    and "getNameFromPath (p @ [slash] @ n) = (True, Some n)"
proof -
  have c: "c_str (p @ [slash] @ n) = p @ [slash] @ n" by (rule c_str_id) (use assms(2) in \<open>auto simp: slash_def\<close>)
  have l: "last_slash (p @ [slash] @ n) (length (p @ [slash] @ n)) = Some (length p)"
    using last_slash_append [OF assms(1), of "length n" p] by simp
  have "\<not> (length (p @ [slash] @ n) = 1 \<and> (p @ [slash] @ n) ! 0 = slash)" using assms(3) by (cases p) auto
  then show "getParentDirectory (p @ [slash] @ n) = (True, if p = [] then root_path else p)"
    and "getNameFromPath (p @ [slash] @ n) = (True, Some n)"
    unfolding getParentDirectory_def getNameFromPath_def Let_def c l by simp_all
qed

section \<open>Normal paths\<close>

fun no_double :: "u8 list \<Rightarrow> bool" where
  "no_double (a # b # p) \<longleftrightarrow> \<not> (a = slash \<and> b = slash) \<and> no_double (b # p)"
| "no_double p \<longleftrightarrow> True"

definition normal_path :: "u8 list \<Rightarrow> bool" where
  "normal_path p \<longleftrightarrow> p \<noteq> [] \<and> no_double p \<and> (p = root_path \<or> last p \<noteq> slash)"

lemma squeeze_hd: "p \<noteq> [] \<Longrightarrow> squeeze p \<noteq> [] \<and> hd (squeeze p) = hd p"
  by (induction p rule: squeeze.induct) auto

lemma squeeze_no_double: "no_double (squeeze p)"
proof (induction p rule: squeeze.induct)
  case (3 a b p)
  obtain c q where "squeeze (b # p) = c # q" "c = b" using squeeze_hd [of "b # p"] by (cases "squeeze (b # p)") auto
  then show ?case using 3 by auto
qed simp_all

lemma squeeze_id: "no_double p \<Longrightarrow> squeeze p = p"
  by (induction p rule: squeeze.induct) auto

lemma no_double_butlast: "no_double p \<Longrightarrow> no_double (butlast p)"
proof (induction p rule: no_double.induct)
  case (1 a b p)
  then show ?case by (cases p) auto
qed auto

lemma butlast_last:
  assumes "no_double q" and "butlast q \<noteq> []" and "last q = slash"
  shows "last (butlast q) \<noteq> slash"
  using assms
proof (induction q rule: no_double.induct)
  case (1 a b p)
  then show ?case by (cases p) (auto split: if_splits)
qed auto

lemma set_squeeze: "set (squeeze p) \<subseteq> set p"
  by (induction p rule: squeeze.induct) auto

lemma correct_fixed: "normal_path p \<Longrightarrow> 0 \<notin> set p \<Longrightarrow> correct p = Some p"
  by (auto simp: correct_def Let_def c_str_id squeeze_id normal_path_def root_path_def)

section \<open>Properties\<close>

text \<open>C10: normalising a path that is not empty succeeds, and the result has no repeated slash and no slash at the end (the root
  excepted); normalising it again changes nothing.\<close>

theorem correct_normal:
  assumes "c_str p \<noteq> []"
  shows "\<exists>q. correct p = Some q \<and> normal_path q \<and> correct q = Some q"
proof -
  let ?q = "squeeze (c_str p)"
  have q: "?q \<noteq> []" "no_double ?q" using squeeze_hd [OF assms] squeeze_no_double by auto
  have "0 \<notin> set (c_str p)" by (auto simp: c_str_def dest: set_takeWhileD)
  then have nz: "0 \<notin> set ?q" using set_squeeze by blast
  define r where "r = (if last ?q = slash then butlast ?q else ?q)"
  have run: "correct p = Some (if r = [] then root_path else r)" using q(1) by (simp add: correct_def Let_def r_def)
  have "normal_path (if r = [] then root_path else r)"
    using q no_double_butlast [OF q(2)] butlast_last [OF q(2)] by (auto simp: normal_path_def r_def root_path_def)
  moreover have "0 \<notin> set (if r = [] then root_path else r)"
    using nz by (auto simp: r_def root_path_def slash_def dest: in_set_butlastD)
  ultimately show ?thesis using run correct_fixed by blast
qed

theorem correct_normal_witness:
  "c_str [0x2F, 0x2F, 0x61, 0x2F] \<noteq> [] \<and> (\<exists>q. correct [0x2F, 0x2F, 0x61, 0x2F] = Some q \<and> normal_path q \<and> correct q = Some q)"
  using correct_normal [of "[0x2F, 0x2F, 0x61, 0x2F]"] by (simp add: c_str_def)

text \<open>C9: splitting undoes joining: the parent of the path of a child is the directory and its name is the name of the child,
  for names without a slash.\<close>

theorem split_childPath:
  assumes "slash \<notin> set name" and "0 \<notin> set (dir @ name)" and "name \<noteq> []" and "dir \<noteq> []"
  shows "getParentDirectory (childPath dir name) = (True, dir) \<and> getNameFromPath (childPath dir name) = (True, Some name)"
proof (cases "dir = root_path")
  case True
  then have "childPath dir name = [] @ [slash] @ name"
    using assms by (simp add: childPath_def root_path_def c_str_id slash_def)
  then show ?thesis using split_path [of name "[]"] assms True by simp
next
  case False
  have "c_str dir = dir" "c_str name = name" "c_str root_path = root_path"
    using assms by (simp_all add: c_str_id root_path_def slash_def)
  then have "childPath dir name = dir @ [slash] @ name" using False by (simp add: childPath_def strcmp_eq_def)
  then show ?thesis using split_path [of name dir] assms by simp
qed

theorem split_childPath_witness:
  "getParentDirectory (childPath [0x2F, 0x61] [0x62]) = (True, [0x2F, 0x61]) \<and>
    getNameFromPath (childPath [0x2F, 0x61] [0x62]) = (True, Some [0x62])"
  using split_childPath [of "[0x62]" "[0x2F, 0x61]"] by (simp add: slash_def)

end
