(* ===== verification/OctoLock.thy ===== *)
theory OctoLock
  imports Prelude
begin

text \<open>
  The lock service of the Octopus file system, \<^verbatim>\<open>sys/octopus/src/fs/lock.cpp\<close>. A lock is the 64-bit word at
  the start of a hash item: the low half counts the readers, the high half holds the key of the writer.

  The operations are functions on that word. The loops that wait for the word to change are split into their
  atomic steps for the interleavings of several threads (\<open>lock_step\<close>). Run alone, a loop that is not left at
  once waits forever: \<open>None\<close>.
\<close>

section \<open>Operations\<close>

record LockService =
  WriteID :: u16

definition lock_key :: "u16 \<Rightarrow> u16 \<Rightarrow> u64" where
  "lock_key NodeID ID = push_bit 32 (push_bit 16 (ucast NodeID) + ucast ID)"

text \<open>The key of this call and the counter after it.\<close>

definition next_key :: "LockService \<Rightarrow> u16 \<Rightarrow> u64 \<times> LockService" where
  "next_key ls NodeID = (lock_key NodeID (WriteID ls), ls\<lparr>WriteID := WriteID ls + 1\<rparr>)"

definition write_try :: "u64 \<Rightarrow> u64 \<Rightarrow> u64 option" where
  "write_try key w = (if w = 0 then Some key else None)"

definition WriteLock :: "LockService \<Rightarrow> u16 \<Rightarrow> u64 \<Rightarrow> (u64 \<times> u64 \<times> LockService) option" where
  "WriteLock ls NodeID w =
     (case next_key ls NodeID of
        (key, ls') \<Rightarrow> (case write_try key w of None \<Rightarrow> None | Some w' \<Rightarrow> Some (key, w', ls')))"

definition WriteUnlock :: "u64 \<Rightarrow> u64" where
  "WriteUnlock w = w AND 0xFFFFFFFF"

definition read_enter :: "u64 \<Rightarrow> bool \<times> u64" where
  "read_enter w = (drop_bit 32 w = 0, w + 1)"

definition read_poll :: "u64 \<Rightarrow> bool" where
  "read_poll w \<longleftrightarrow> drop_bit 32 w = 0"

definition ReadLock :: "u64 \<Rightarrow> u64 option" where
  "ReadLock w = (case read_enter w of (free, w') \<Rightarrow> if free \<or> read_poll w' then Some w' else None)"

definition ReadUnlock :: "u64 \<Rightarrow> u64" where
  "ReadUnlock w = w - 1"

section \<open>The word as two counters\<close>

lemma unat_lock_key: "unat (lock_key n i) = 2 ^ 32 * (2 ^ 16 * unat n + unat i)"
proof -
  have n: "unat n < 2 ^ 16" and i: "unat i < 2 ^ 16" using unat_less_2p [of n] unat_less_2p [of i] by simp_all
  have c: "unat (ucast n :: u64) = unat n" "unat (ucast i :: u64) = unat i" using n i by (simp_all add: unsigned_ucast_eq take_bit_eq_mod)
  have "unat (push_bit 16 (ucast n) + ucast i :: u64) = 2 ^ 16 * unat n + unat i"
    using n i by (simp add: push_bit_eq_mult unat_word_ariths c)
  then show ?thesis using n i by (simp add: lock_key_def push_bit_eq_mult unat_word_ariths c)
qed

lemma unat_high: "unat (drop_bit 32 (w :: u64)) = unat w div 2 ^ 32"
  by (simp add: drop_bit_eq_div unat_div)

lemma high_zero: "drop_bit 32 (w :: u64) = 0 \<longleftrightarrow> unat w < 2 ^ 32"
proof -
  have "drop_bit 32 w = 0 \<longleftrightarrow> unat w div 2 ^ 32 = 0" by (simp only: unat_high [symmetric] unat_eq_zero)
  then show ?thesis by (simp add: div_eq_0_iff)
qed

lemma unat_WriteUnlock: "unat (WriteUnlock w) = unat w mod 2 ^ 32"
proof -
  have "WriteUnlock w = take_bit 32 w" by (simp add: WriteUnlock_def take_bit_eq_mask mask_eq_exp_minus_1)
  then show ?thesis by (simp add: take_bit_eq_mod unat_mod)
qed

lemma WriteLock_free:
  "WriteLock ls n 0 = Some (lock_key n (WriteID ls), lock_key n (WriteID ls), ls\<lparr>WriteID := WriteID ls + 1\<rparr>)"
  by (simp add: WriteLock_def next_key_def write_try_def)

lemma WriteLock_busy: "w \<noteq> 0 \<Longrightarrow> WriteLock ls n w = None"
  by (simp add: WriteLock_def next_key_def write_try_def)

lemma WriteUnlock_key [simp]: "WriteUnlock (lock_key n i) = 0"
  by (rule unat_inj) (simp add: unat_WriteUnlock unat_lock_key)

lemma ReadLock_free [simp]: "ReadLock 0 = Some 1"
  by (simp add: ReadLock_def read_enter_def)

lemma ReadUnlock_free [simp]: "ReadUnlock 1 = 0"
  by (simp add: ReadUnlock_def)

text \<open>A thread that holds the lock for writing and asks for it again waits for itself.\<close>

lemma ReadLock_own_key: "n \<noteq> 0 \<Longrightarrow> ReadLock (lock_key n i) = None"
proof -
  assume "n \<noteq> 0"
  then have pos: "0 < unat n" by (simp add: unat_gt_0)
  have n: "unat n < 2 ^ 16" and i: "unat i < 2 ^ 16" using unat_less_2p [of n] unat_less_2p [of i] by simp_all
  have "unat (lock_key n i) \<le> 2 ^ 64 - 2 ^ 32" using n i by (simp add: unat_lock_key)
  then have "unat (lock_key n i + 1) = unat (lock_key n i) + 1" by (simp add: unat_word_ariths)
  moreover have "2 ^ 32 \<le> unat (lock_key n i)" using pos by (simp add: unat_lock_key)
  ultimately show ?thesis by (simp add: ReadLock_def read_enter_def read_poll_def high_zero)
qed

section \<open>Interleavings of threads\<close>

datatype lock_thread = Idle | Waiting | Reading | Writing

record lock_state =
  lock_word :: u64
  lock_svc :: LockService
  lock_threads :: "lock_thread list"

text \<open>One atomic action of thread \<open>i\<close>. A reader that entered while a writer held the lock polls until the high
  half is clear. Nodes are numbered from 1.\<close>

inductive lock_step :: "lock_state \<Rightarrow> lock_state \<Rightarrow> bool" where
  write_lock: "i < length (lock_threads s) \<Longrightarrow> lock_threads s ! i = Idle \<Longrightarrow> NodeID \<noteq> 0 \<Longrightarrow>
    WriteLock (lock_svc s) NodeID (lock_word s) = Some (key, w, ls) \<Longrightarrow>
    lock_step s (s\<lparr>lock_word := w, lock_svc := ls, lock_threads := (lock_threads s)[i := Writing]\<rparr>)"
| write_unlock: "i < length (lock_threads s) \<Longrightarrow> lock_threads s ! i = Writing \<Longrightarrow>
    lock_step s (s\<lparr>lock_word := WriteUnlock (lock_word s), lock_threads := (lock_threads s)[i := Idle]\<rparr>)"
| read_lock: "i < length (lock_threads s) \<Longrightarrow> lock_threads s ! i = Idle \<Longrightarrow> read_enter (lock_word s) = (free, w) \<Longrightarrow>
    lock_step s (s\<lparr>lock_word := w, lock_threads := (lock_threads s)[i := if free then Reading else Waiting]\<rparr>)"
| read_wait: "i < length (lock_threads s) \<Longrightarrow> lock_threads s ! i = Waiting \<Longrightarrow> read_poll (lock_word s) \<Longrightarrow>
    lock_step s (s\<lparr>lock_threads := (lock_threads s)[i := Reading]\<rparr>)"
| read_unlock: "i < length (lock_threads s) \<Longrightarrow> lock_threads s ! i = Reading \<Longrightarrow>
    lock_step s (s\<lparr>lock_word := ReadUnlock (lock_word s), lock_threads := (lock_threads s)[i := Idle]\<rparr>)"

definition tally :: "lock_thread \<Rightarrow> lock_thread list \<Rightarrow> nat" where
  "tally k ts = length (filter (\<lambda>t. t = k) ts)"

lemma tally_update:
  assumes "i < length ts"
  shows "tally k (ts[i := t]) + (if ts ! i = k then 1 else 0) = tally k ts + (if t = k then 1 else 0)"
  using assms
proof (induction ts arbitrary: i)
  case (Cons a ts)
  show ?case
  proof (cases i)
    case (Suc j)
    then show ?thesis using Cons.IH [of j] Cons.prems
      by (cases "a = k"; cases "t = k"; cases "ts ! j = k") (simp_all add: tally_def)
  qed (auto simp: tally_def)
qed simp

lemma tally_pos: "i < length ts \<Longrightarrow> ts ! i = k \<Longrightarrow> 0 < tally k ts"
  by (metis (mono_tags, lifting) filter_empty_conv length_greater_0_conv nth_mem tally_def)

lemma tally_zero: "tally k ts = 0 \<longleftrightarrow> k \<notin> set ts"
  by (auto simp: tally_def filter_empty_conv)

lemma tally_sum: "tally Idle ts + tally Waiting ts + tally Reading ts + tally Writing ts = length ts"
proof (induction ts)
  case (Cons t ts)
  then show ?case by (cases t) (auto simp: tally_def)
qed (simp add: tally_def)

definition lock_inv :: "lock_state \<Rightarrow> bool" where
  "lock_inv s \<longleftrightarrow> length (lock_threads s) < 2 ^ 32 \<and>
     unat (lock_word s) mod 2 ^ 32 = tally Waiting (lock_threads s) + tally Reading (lock_threads s) \<and>
     (unat (lock_word s) div 2 ^ 32 = 0 \<and> tally Writing (lock_threads s) = 0 \<or>
      unat (lock_word s) div 2 ^ 32 \<noteq> 0 \<and> tally Writing (lock_threads s) = 1 \<and> tally Reading (lock_threads s) = 0)"

lemma lock_invD:
  assumes "lock_inv s"
  shows "tally Waiting (lock_threads s) + tally Reading (lock_threads s) + tally Writing (lock_threads s) +
      tally Idle (lock_threads s) < 2 ^ 32"
    and "unat (lock_word s) = 2 ^ 32 * (unat (lock_word s) div 2 ^ 32) +
      (tally Waiting (lock_threads s) + tally Reading (lock_threads s))"
  using assms tally_sum [of "lock_threads s"] div_mult_mod_eq [of "unat (lock_word s)" "2 ^ 32"] by (simp_all add: lock_inv_def)

lemma two_counters:
  assumes "n = 2 ^ 32 * k + r" and "r < (2::nat) ^ 32"
  shows "n div 2 ^ 32 = k" and "n mod 2 ^ 32 = r"
  using assms by (simp_all add: div_mult_self4)

lemma lock_step_inv: "lock_step s s' \<Longrightarrow> lock_inv s \<Longrightarrow> lock_inv s'"
proof (induction rule: lock_step.induct)
  case (write_lock i s NodeID key w ls)
  note t = tally_update [OF write_lock.hyps(1), where t = Writing]
  have free: "lock_word s = 0" and w: "w = lock_key NodeID (WriteID (lock_svc s))"
    using write_lock.hyps(4) WriteLock_busy [of "lock_word s"] WriteLock_free [of "lock_svc s" NodeID] by fastforce+
  have "0 < unat NodeID" using write_lock.hyps(3) by (simp add: unat_gt_0)
  then have "unat w mod 2 ^ 32 = 0" "unat w div 2 ^ 32 \<noteq> 0" by (simp_all add: w unat_lock_key)
  then show ?case
    using write_lock.prems free t [of Waiting] t [of Reading] t [of Writing] write_lock.hyps(2) by (simp add: lock_inv_def)
next
  case (write_unlock i s)
  note t = tally_update [OF write_unlock.hyps(1), where t = Idle]
  have one: "tally Writing (lock_threads s) = 1" "tally Reading (lock_threads s) = 0"
    using write_unlock.prems tally_pos [OF write_unlock.hyps] by (auto simp: lock_inv_def)
  then show ?case
    using write_unlock.prems lock_invD(1) [OF write_unlock.prems] t [of Waiting] t [of Reading] t [of Writing] write_unlock.hyps(2)
    by (simp add: lock_inv_def unat_WriteUnlock)
next
  case (read_lock i s free w)
  note t = tally_update [OF read_lock.hyps(1)]
  let ?r = "tally Waiting (lock_threads s) + tally Reading (lock_threads s)"
  let ?k = "unat (lock_word s) div 2 ^ 32"
  have w: "w = lock_word s + 1" and f: "free \<longleftrightarrow> ?k = 0"
    using read_lock.hyps(3) by (auto simp: read_enter_def high_zero div_eq_0_iff)
  have r: "?r + 1 < 2 ^ 32" using lock_invD(1) [OF read_lock.prems] tally_pos [OF read_lock.hyps(1,2)] by simp
  have k: "?k < 2 ^ 32" using unat_u64_less [of "lock_word s"] by simp
  have "unat (lock_word s) + 1 = 2 ^ 32 * ?k + (?r + 1)" using lock_invD(2) [OF read_lock.prems] by simp
  moreover from this have "unat w = unat (lock_word s) + 1" using r k by (simp add: w unat_word_ariths)
  ultimately have "unat w div 2 ^ 32 = ?k" "unat w mod 2 ^ 32 = ?r + 1" using two_counters [of "unat w" ?k "?r + 1"] r by simp_all
  then show ?case
    using read_lock.prems f t [of Waiting] t [of Reading] t [of Writing] read_lock.hyps(2)
    by (cases free) (auto simp: lock_inv_def)
next
  case (read_wait i s)
  note t = tally_update [OF read_wait.hyps(1), where t = Reading]
  have "unat (lock_word s) div 2 ^ 32 = 0" using read_wait.hyps(3) by (simp add: read_poll_def high_zero div_eq_0_iff)
  then show ?case
    using read_wait.prems t [of Waiting] t [of Reading] t [of Writing] read_wait.hyps(2) by (simp add: lock_inv_def)
next
  case (read_unlock i s)
  note t = tally_update [OF read_unlock.hyps(1), where t = Idle]
  let ?r = "tally Waiting (lock_threads s) + tally Reading (lock_threads s)"
  have pos: "0 < tally Reading (lock_threads s)" by (rule tally_pos [OF read_unlock.hyps])
  then have k: "unat (lock_word s) div 2 ^ 32 = 0" "tally Writing (lock_threads s) = 0"
    using read_unlock.prems by (auto simp: lock_inv_def)
  have "unat (lock_word s) = ?r" using lock_invD(2) [OF read_unlock.prems] k by simp
  then have "unat (ReadUnlock (lock_word s)) = ?r - 1" using pos by (simp add: ReadUnlock_def unat_sub1)
  moreover have "?r < 2 ^ 32" using lock_invD(1) [OF read_unlock.prems] by simp
  ultimately have "unat (ReadUnlock (lock_word s)) div 2 ^ 32 = 0" "unat (ReadUnlock (lock_word s)) mod 2 ^ 32 = ?r - 1"
    by simp_all
  then show ?case
    using read_unlock.prems k pos t [of Waiting] t [of Reading] t [of Writing] read_unlock.hyps(2) by (simp add: lock_inv_def)
qed

definition lock_start :: "nat \<Rightarrow> LockService \<Rightarrow> lock_state" where
  "lock_start n ls = \<lparr>lock_word = 0, lock_svc = ls, lock_threads = replicate n Idle\<rparr>"

lemma lock_start_inv: "n < 2 ^ 32 \<Longrightarrow> lock_inv (lock_start n ls)"
  by (simp add: lock_inv_def lock_start_def tally_def)

lemma lock_reachable_inv: "lock_step\<^sup>*\<^sup>* s s' \<Longrightarrow> lock_inv s \<Longrightarrow> lock_inv s'"
  by (induction rule: rtranclp_induct) (auto dest: lock_step_inv)

lemma lock_step_threads: "lock_step s s' \<Longrightarrow> length (lock_threads s') = length (lock_threads s)"
  by (induction rule: lock_step.induct) simp_all

section \<open>Properties\<close>

text \<open>C5: whatever the interleaving of fewer than \<open>2 ^ 32\<close> threads, at most one of them holds the lock for writing,
  none holds it for reading meanwhile, and a thread waiting to read gets the lock as soon as no thread writes.
  When every thread has released it, the word is 0 and the next writer gets it at once.\<close>

theorem lock_exclusion:
  assumes "lock_step\<^sup>*\<^sup>* (lock_start n ls) s" and "n < 2 ^ 32"
  shows "tally Writing (lock_threads s) \<le> 1 \<and>
    (Writing \<in> set (lock_threads s) \<longrightarrow> Reading \<notin> set (lock_threads s)) \<and>
    (Writing \<notin> set (lock_threads s) \<longrightarrow> read_poll (lock_word s)) \<and>
    (set (lock_threads s) \<subseteq> {Idle} \<longrightarrow> WriteLock (lock_svc s) NodeID (lock_word s) \<noteq> None)"
proof -
  have inv: "lock_inv s" by (rule lock_reachable_inv [OF assms(1) lock_start_inv [OF assms(2)]])
  have "unat (lock_word s) = 0" if "set (lock_threads s) \<subseteq> {Idle}"
  proof -
    have "tally Waiting (lock_threads s) = 0" "tally Reading (lock_threads s) = 0" "tally Writing (lock_threads s) = 0"
      using that by (auto simp: tally_zero)
    then show ?thesis using inv lock_invD(2) [OF inv] by (auto simp: lock_inv_def)
  qed
  then have "WriteLock (lock_svc s) NodeID (lock_word s) \<noteq> None" if "set (lock_threads s) \<subseteq> {Idle}"
    using that by (simp add: unat_eq_zero WriteLock_free)
  moreover have "tally Writing (lock_threads s) \<le> 1" using inv by (auto simp: lock_inv_def)
  moreover have "Reading \<notin> set (lock_threads s)" if "Writing \<in> set (lock_threads s)"
    using inv that tally_zero [of Writing "lock_threads s"] tally_zero [of Reading "lock_threads s"] by (auto simp: lock_inv_def)
  moreover have "read_poll (lock_word s)" if "Writing \<notin> set (lock_threads s)"
    using inv that tally_zero [of Writing "lock_threads s"] by (auto simp: lock_inv_def read_poll_def high_zero div_eq_0_iff)
  ultimately show ?thesis by blast
qed

text \<open>Two readers enter, one of them leaves, and the state reached satisfies the property.\<close>

definition lock_sample :: lock_state where
  "lock_sample = \<lparr>lock_word = 1, lock_svc = \<lparr>WriteID = 0\<rparr>, lock_threads = [Idle, Reading]\<rparr>"

theorem lock_exclusion_witness:
  "lock_step\<^sup>*\<^sup>* (lock_start 2 \<lparr>WriteID = 0\<rparr>) lock_sample \<and> tally Writing (lock_threads lock_sample) \<le> 1 \<and>
    read_poll (lock_word lock_sample)"
proof -
  let ?a = "(lock_start 2 \<lparr>WriteID = 0\<rparr>)"
  let ?b = "\<lparr>lock_word = 1, lock_svc = \<lparr>WriteID = 0\<rparr>, lock_threads = [Reading, Idle]\<rparr>"
  let ?c = "\<lparr>lock_word = 2, lock_svc = \<lparr>WriteID = 0\<rparr>, lock_threads = [Reading, Reading]\<rparr>"
  have 1: "lock_step ?a ?b" using lock_step.read_lock [of 0 ?a True 1] by (simp add: lock_start_def read_enter_def numeral_2_eq_2)
  have 2: "lock_step ?b ?c" using lock_step.read_lock [of 1 ?b True 2] by (simp add: read_enter_def high_zero)
  have 3: "lock_step ?c lock_sample" using lock_step.read_unlock [of 0 ?c] by (simp add: ReadUnlock_def lock_sample_def)
  have "lock_step\<^sup>*\<^sup>* ?a lock_sample"
    using 1 2 3 by (meson converse_rtranclp_into_rtranclp rtranclp.rtrancl_refl)
  then show ?thesis using lock_exclusion [of 2 "\<lparr>WriteID = 0\<rparr>" lock_sample] by (simp add: lock_sample_def)
qed

end
