(* ===== verification/OctoStorage.thy ===== *)
theory OctoStorage
  imports OctoIndex OctoExtent OctoPath OctoLock OctoTx
begin

text \<open>
  The state of an Octopus server: the storage (\<^verbatim>\<open>sys/octopus/src/fs/storage.cpp\<close>) with the path index and the tables of file
  metadata, directory metadata and blocks, the lock service, and the transaction log of the server; with the constructors and
  the primitives of \<^verbatim>\<open>sys/octopus/src/fs/filesystem.cpp\<close> the operations are built from.

  The metadata of a directory is its first \<^verbatim>\<open>count\<close> entries: the code never reads an entry behind them before it has written
  it. An address into a table is given as the index of the item it points to. A name is the C string in its buffer. What a call
  leaves undefined (a wait without end, a write behind an array, the use of a variable that was not set) is \<open>None\<close>, except where
  an unset variable is only stored: then it is an argument, \<open>Uninit\<close>.
\<close>

section \<open>Data\<close>

definition MAX_FILE_NAME_LENGTH :: nat where "MAX_FILE_NAME_LENGTH = 50"
definition MAX_DIRECTORY_COUNT :: nat where "MAX_DIRECTORY_COUNT = 60"
definition MAX_PATH_LENGTH :: nat where "MAX_PATH_LENGTH = 255"

record DirectoryMetaTuple =
  names :: "u8 list"
  isDirectories :: bool

type_synonym DirectoryMeta = "DirectoryMetaTuple list"
type_synonym Block = "u8 list"

datatype log_data = Log_dir DirectoryMeta | Log_file FileMeta | Log_text "u8 list"

record Storage =
  countNode :: nat
  sizeBufferUsed :: nat
  hashtable :: HashTable
  tableFileMeta :: "FileMeta Table"
  tableDirectoryMeta :: "DirectoryMeta Table"
  tableBlock :: "Block Table"

record FileSystem =
  storage :: Storage
  hashLocalNode :: nat
  fs_lock :: LockService
  fs_tx :: "log_data TxManager"

text \<open>Variables the code stores or uses as an entry number without having set them.\<close>

record Uninit =
  u_tuple :: "FileMetaTuple list"
  u_flag :: bool
  u_TxID :: nat

datatype fs_exit = Storage_parameter | Storage_part octo_exit | FileSystem_parameter | Root_meta | Root_put

abbreviation ht :: "FileSystem \<Rightarrow> HashTable" where "ht fs \<equiv> hashtable (storage fs)"
abbreviation files :: "FileSystem \<Rightarrow> FileMeta Table" where "files fs \<equiv> tableFileMeta (storage fs)"
abbreviation dirs :: "FileSystem \<Rightarrow> DirectoryMeta Table" where "dirs fs \<equiv> tableDirectoryMeta (storage fs)"
abbreviation blocks :: "FileSystem \<Rightarrow> Block Table" where "blocks fs \<equiv> tableBlock (storage fs)"
abbreviation set_ht :: "FileSystem \<Rightarrow> HashTable \<Rightarrow> FileSystem" where "set_ht fs t \<equiv> fs\<lparr>storage := (storage fs)\<lparr>hashtable := t\<rparr>\<rparr>"
abbreviation set_files :: "FileSystem \<Rightarrow> FileMeta Table \<Rightarrow> FileSystem" where
  "set_files fs t \<equiv> fs\<lparr>storage := (storage fs)\<lparr>tableFileMeta := t\<rparr>\<rparr>"
abbreviation set_dirs :: "FileSystem \<Rightarrow> DirectoryMeta Table \<Rightarrow> FileSystem" where
  "set_dirs fs t \<equiv> fs\<lparr>storage := (storage fs)\<lparr>tableDirectoryMeta := t\<rparr>\<rparr>"
abbreviation set_blocks :: "FileSystem \<Rightarrow> Block Table \<Rightarrow> FileSystem" where
  "set_blocks fs t \<equiv> fs\<lparr>storage := (storage fs)\<lparr>tableBlock := t\<rparr>\<rparr>"

section \<open>Storage\<close>

definition getNodeHash :: "Storage \<Rightarrow> UniqueHash \<Rightarrow> nat" where
  "getNodeHash st h = unat (h ! 3) mod countNode st + 1"

text \<open>The structures in memory: file metadata has 344 bytes, directory metadata 3072.\<close>

definition read_u32 :: "u8 list \<Rightarrow> nat \<Rightarrow> u32" where
  "read_u32 buf off = foldr (\<lambda>b acc. acc * 256 + ucast b) (take 4 (drop off buf)) 0"

definition read_FileMetaTuple :: "u8 list \<Rightarrow> nat \<Rightarrow> FileMetaTuple" where
  "read_FileMetaTuple buf off =
     \<lparr>ft_hashNode = read_u64 buf off, indexExtentStartBlock = read_u32 buf (off + 8), countExtentBlock = read_u32 buf (off + 12)\<rparr>"

definition read_FileMeta :: "u8 list \<Rightarrow> FileMeta" where
  "read_FileMeta buf =
     \<lparr>timeLastModified = sint (read_u64 buf 0), fm_count = read_u64 buf 8, fm_size = read_u64 buf 16,
      fm_tuple = map (\<lambda>i. read_FileMetaTuple buf (24 + 16 * i)) [0..<MAX_FILE_EXTENT_COUNT]\<rparr>"

definition read_DirectoryMetaTuple :: "u8 list \<Rightarrow> nat \<Rightarrow> DirectoryMetaTuple" where
  "read_DirectoryMetaTuple buf off =
     \<lparr>names = c_str (take MAX_FILE_NAME_LENGTH (drop off buf)), isDirectories = (take 1 (drop (off + MAX_FILE_NAME_LENGTH) buf) \<noteq> [0])\<rparr>"

definition read_DirectoryMeta :: "u8 list \<Rightarrow> DirectoryMeta" where
  "read_DirectoryMeta buf =
     map (\<lambda>i. read_DirectoryMetaTuple buf (8 + 51 * i)) [0..<min MAX_DIRECTORY_COUNT (unat (read_u64 buf 0))]"

definition Storage_new :: "u8 list option \<Rightarrow> u8 list option \<Rightarrow> nat \<Rightarrow> nat \<Rightarrow> nat \<Rightarrow> nat \<Rightarrow> fs_exit + Storage" where
  "Storage_new buffer bufferBlock countFile countDirectory countBlock nodes =
     (case (buffer, bufferBlock) of
        (Some buf, Some bufBlock) \<Rightarrow>
          if countFile = 0 \<or> countDirectory = 0 \<or> countBlock = 0 \<or> nodes = 0 then Inl Storage_parameter
          else
            (let cnt = countDirectory + countFile;
                 hashUsed = HASH_ITEMS_SIZE + cnt div 8 + 56 * cnt;
                 fileUsed = countFile div 8 + countFile * 344;
                 dirUsed = countDirectory div 8 + countDirectory * 3072;
                 blockUsed = countBlock div 8 + countBlock * unat BLOCK_SIZE
             in case HashTable_new (Some buf) cnt of
                  Inl e \<Rightarrow> Inl (Storage_part e)
                | Inr hash \<Rightarrow>
             case Table_new read_FileMeta 344 (Some (drop hashUsed buf)) countFile of
                  Inl e \<Rightarrow> Inl (Storage_part e)
                | Inr fileTable \<Rightarrow>
             case Table_new read_DirectoryMeta 3072 (Some (drop (hashUsed + fileUsed) buf)) countDirectory of
                  Inl e \<Rightarrow> Inl (Storage_part e)
                | Inr dirTable \<Rightarrow>
             case Table_new id (unat BLOCK_SIZE) (Some bufBlock) countBlock of
                  Inl e \<Rightarrow> Inl (Storage_part e)
                | Inr blockTable \<Rightarrow>
                    Inr \<lparr>countNode = nodes, sizeBufferUsed = hashUsed + fileUsed + dirUsed + blockUsed, hashtable = hash,
                         tableFileMeta = fileTable, tableDirectoryMeta = dirTable, tableBlock = blockTable\<rparr>)
      | _ \<Rightarrow> Inl Storage_parameter)"

section \<open>The file system object\<close>

text \<open>The constructor does not assign the argument for the local node; \<^verbatim>\<open>rootInitialize\<close> does. The counter of the lock
  service and, until then, the local node are whatever the memory holds.\<close>

definition FileSystem_new ::
    "LockService \<Rightarrow> nat \<Rightarrow> log_data TxManager \<Rightarrow> u8 list option \<Rightarrow> u8 list option \<Rightarrow> nat \<Rightarrow> nat \<Rightarrow> nat \<Rightarrow> nat \<Rightarrow> nat \<Rightarrow>
     fs_exit + FileSystem" where
  "FileSystem_new ls unset tm buffer bufferBlock countFile countDirectory countBlock nodes localNode =
     (if buffer = None \<or> bufferBlock = None \<or> countFile = 0 \<or> countDirectory = 0 \<or> countBlock = 0 \<or> nodes = 0 \<or>
         localNode < 1 \<or> localNode > nodes
      then Inl FileSystem_parameter
      else case Storage_new buffer bufferBlock countFile countDirectory countBlock nodes of
             Inl e \<Rightarrow> Inl e
           | Inr st \<Rightarrow> Inr \<lparr>storage = st, hashLocalNode = unset, fs_lock = ls, fs_tx = tm\<rparr>)"

definition path_hash :: "digest \<Rightarrow> u8 list \<Rightarrow> UniqueHash" where
  "path_hash sha256 path = getUniqueHash sha256 path (strlen path)"

definition rootInitialize :: "digest \<Rightarrow> FileSystem \<Rightarrow> nat \<Rightarrow> (fs_exit + FileSystem) option" where
  "rootInitialize sha256 fs LocalNode =
     (let fs = fs\<lparr>hashLocalNode := LocalNode\<rparr>;
          hashNode = getNodeHash (storage fs) (path_hash sha256 root_path)
      in if hashNode \<noteq> hashLocalNode fs then Some (Inr fs)
         else do {
           ((created, index), t) \<leftarrow> Table_create_item (dirs fs) [];
           case (created, index) of
             (True, Some indexDirectoryMeta) \<Rightarrow> do {
               (ok, h) \<leftarrow> HashTable_put_path sha256 (ht fs) root_path indexDirectoryMeta True;
               Some (if ok then Inr (set_ht (set_dirs fs t) h) else Inl Root_put)
             }
           | _ \<Rightarrow> Some (Inl Root_meta)
         })"

definition checkLocal :: "FileSystem \<Rightarrow> nat \<Rightarrow> bool" where
  "checkLocal fs hashNode \<longleftrightarrow> hashNode = hashLocalNode fs"

section \<open>Locks\<close>

definition lock_at :: "FileSystem \<Rightarrow> nat \<Rightarrow> u64" where
  "lock_at fs addr = hash_key_lock (itemsHash (ht fs) addr)"

definition set_lock :: "FileSystem \<Rightarrow> nat \<Rightarrow> u64 \<Rightarrow> FileSystem" where
  "set_lock fs addr w =
     set_ht fs ((ht fs)\<lparr>itemsHash := (itemsHash (ht fs))(addr := (itemsHash (ht fs) addr)\<lparr>hash_key_lock := w\<rparr>)\<rparr>)"

definition lockWriteHashItem :: "FileSystem \<Rightarrow> nat \<Rightarrow> nat \<Rightarrow> (u64 \<times> FileSystem) option" where
  "lockWriteHashItem fs hashNode hashAddress =
     do { (key, w, ls) \<leftarrow> WriteLock (fs_lock fs) (of_nat hashNode) (lock_at fs hashAddress);
          Some (key, (set_lock fs hashAddress w)\<lparr>fs_lock := ls\<rparr>) }"

definition unlockWriteHashItem :: "FileSystem \<Rightarrow> nat \<Rightarrow> FileSystem" where
  "unlockWriteHashItem fs hashAddress = set_lock fs hashAddress (WriteUnlock (lock_at fs hashAddress))"

definition lockReadHashItem :: "FileSystem \<Rightarrow> nat \<Rightarrow> FileSystem option" where
  "lockReadHashItem fs hashAddress =
     do { w \<leftarrow> ReadLock (lock_at fs hashAddress); Some (set_lock fs hashAddress w) }"

definition unlockReadHashItem :: "FileSystem \<Rightarrow> nat \<Rightarrow> FileSystem" where
  "unlockReadHashItem fs hashAddress = set_lock fs hashAddress (ReadUnlock (lock_at fs hashAddress))"

section \<open>Transactions\<close>

text \<open>The wrappers around the transaction manager of the server; the switch \<^verbatim>\<open>Dotx\<close> is on and never changed.\<close>

definition fs_TxLocalBegin :: "FileSystem \<Rightarrow> (nat \<times> FileSystem) option" where
  "fs_TxLocalBegin fs = do { (n, tm) \<leftarrow> TxLocalBegin (fs_tx fs); Some (n, fs\<lparr>fs_tx := tm\<rparr>) }"

definition data_size :: "log_data \<Rightarrow> nat" where
  "data_size d = (case d of Log_dir _ \<Rightarrow> 3072 | Log_file _ \<Rightarrow> 344 | Log_text bs \<Rightarrow> length bs)"

definition fs_TxWriteData :: "FileSystem \<Rightarrow> nat \<Rightarrow> log_data \<Rightarrow> FileSystem option" where
  "fs_TxWriteData fs TxID d = do { tm \<leftarrow> TxWriteData (fs_tx fs) TxID d (data_size d); Some (fs\<lparr>fs_tx := tm\<rparr>) }"

definition fs_getTxWriteDataAddress :: "FileSystem \<Rightarrow> nat \<Rightarrow> nat" where
  "fs_getTxWriteDataAddress fs TxID = getTxWriteDataAddress (fs_tx fs) TxID"

definition fs_TxLocalCommit :: "FileSystem \<Rightarrow> nat \<Rightarrow> bool \<Rightarrow> FileSystem option" where
  "fs_TxLocalCommit fs TxID action = do { tm \<leftarrow> TxLocalCommit (fs_tx fs) TxID action; Some (fs\<lparr>fs_tx := tm\<rparr>) }"

definition fs_TxDistributedBegin :: "FileSystem \<Rightarrow> (nat \<times> FileSystem) option" where
  "fs_TxDistributedBegin fs = do { (n, tm) \<leftarrow> TxDistributedBegin (fs_tx fs); Some (n, fs\<lparr>fs_tx := tm\<rparr>) }"

definition fs_TxDistributedPrepare :: "FileSystem \<Rightarrow> nat \<Rightarrow> bool \<Rightarrow> FileSystem option" where
  "fs_TxDistributedPrepare fs TxID action = do { tm \<leftarrow> TxDistributedPrepare (fs_tx fs) TxID action; Some (fs\<lparr>fs_tx := tm\<rparr>) }"

definition fs_TxDistributedCommit :: "FileSystem \<Rightarrow> nat \<Rightarrow> bool \<Rightarrow> FileSystem option" where
  "fs_TxDistributedCommit fs TxID action = do { tm \<leftarrow> TxDistributedCommit (fs_tx fs) TxID action; Some (fs\<lparr>fs_tx := tm\<rparr>) }"

section \<open>Entries of a directory\<close>

text \<open>A copy of a C string into a buffer of \<open>n\<close> bytes. A null buffer stands for one that was never written.\<close>

definition strcpy_into :: "nat \<Rightarrow> u8 list option \<Rightarrow> u8 list option" where
  "strcpy_into n src = (case src of None \<Rightarrow> None | Some s \<Rightarrow> if strlen s < n then Some (c_str s) else None)"

text \<open>The count is incremented and the last entry written, without a test of the capacity.\<close>

definition add_entry :: "DirectoryMeta \<Rightarrow> u8 list option \<Rightarrow> bool \<Rightarrow> DirectoryMeta option" where
  "add_entry d name isDir =
     do { s \<leftarrow> strcpy_into MAX_FILE_NAME_LENGTH name;
          if length d < MAX_DIRECTORY_COUNT then Some (d @ [\<lparr>names = s, isDirectories = isDir\<rparr>]) else None }"

definition drop_entries :: "DirectoryMeta \<Rightarrow> u8 list \<Rightarrow> DirectoryMeta" where
  "drop_entries d name = filter (\<lambda>e. \<not> strcmp_eq (names e) name) d"

end
