(* ===== verification/OctoFs.thy ===== *)
theory OctoFs
  imports OctoStorage
begin

text \<open>
  The operations of the Octopus file system, \<^verbatim>\<open>sys/octopus/src/fs/filesystem.cpp\<close>. Operations that only touch the node they run
  on are functions on its state; those that read or change the directory of a path work on the nodes of the cluster, because the
  directory may belong to another node. A remote call runs the same function on the other node, which is what the message handler
  there does; the transport loses nothing. \<open>me\<close> is the node an operation runs on.

  Operations run one after the other. A lock that is not free when an operation asks for it never becomes free: \<open>None\<close>. Null
  checks and debug output have no counterpart. \<open>now\<close> is the time \<^verbatim>\<open>time(NULL)\<close> gives.
\<close>

type_synonym cluster = "nat \<Rightarrow> FileSystem"

definition node_of :: "digest \<Rightarrow> FileSystem \<Rightarrow> u8 list \<Rightarrow> nat" where
  "node_of sha256 fs path = getNodeHash (storage fs) (path_hash sha256 path)"

definition address_of :: "digest \<Rightarrow> u8 list \<Rightarrow> nat" where
  "address_of sha256 path = getAddressHash (path_hash sha256 path)"

section \<open>Reading\<close>

definition access :: "digest \<Rightarrow> FileSystem \<Rightarrow> u8 list \<Rightarrow> (bool \<times> FileSystem) option" where
  "access sha256 fs path =
     (let h = path_hash sha256 path; a = address_of sha256 path
      in if checkLocal fs (node_of sha256 fs path) then do {
           fs \<leftarrow> lockReadHashItem fs a;
           e \<leftarrow> HashTable_get (ht fs) h;
           Some (e \<noteq> None, unlockReadHashItem fs a)
         } else Some (False, fs))"

definition getattr :: "digest \<Rightarrow> FileSystem \<Rightarrow> u8 list \<Rightarrow> FileMeta \<Rightarrow> (bool \<times> FileMeta \<times> FileSystem) option" where
  "getattr sha256 fs path attribute =
     (let h = path_hash sha256 path; a = address_of sha256 path
      in if checkLocal fs (node_of sha256 fs path) then do {
           fs \<leftarrow> lockReadHashItem fs a;
           e \<leftarrow> HashTable_get (ht fs) h;
           (result, attribute) \<leftarrow>
             (case e of
                None \<Rightarrow> Some (False, attribute)
              | Some (index, isDir) \<Rightarrow>
                  if \<not> isDir then do {
                    m \<leftarrow> Table_get (files fs) index;
                    Some (case m of None \<Rightarrow> (False, attribute) | Some meta \<Rightarrow> (True, meta))
                  } else Some (True, attribute\<lparr>fm_count := of_nat MAX_FILE_EXTENT_COUNT\<rparr>));
           Some (result, attribute, unlockReadHashItem fs a)
         } else Some (False, attribute, fs))"

text \<open>The list is \<open>None\<close> where the buffer is not filled.\<close>

definition readdir :: "digest \<Rightarrow> FileSystem \<Rightarrow> u8 list \<Rightarrow> (bool \<times> DirectoryMeta option \<times> FileSystem) option" where
  "readdir sha256 fs path =
     (let h = path_hash sha256 path; a = address_of sha256 path
      in if checkLocal fs (node_of sha256 fs path) then do {
           fs \<leftarrow> lockReadHashItem fs a;
           e \<leftarrow> HashTable_get (ht fs) h;
           (result, lst) \<leftarrow>
             (case e of
                None \<Rightarrow> Some (False, None)
              | Some (indexDirectoryMeta, isDir) \<Rightarrow>
                  if \<not> isDir then Some (False, None)
                  else do {
                    m \<leftarrow> Table_get (dirs fs) indexDirectoryMeta;
                    Some (case m of None \<Rightarrow> (False, None) | Some d \<Rightarrow> (True, Some d))
                  });
           Some (result, lst, unlockReadHashItem fs a)
         } else Some (False, None, fs))"

text \<open>The lines printed: the depth, the number in the directory, whether it is a directory, and the name. No lock is taken.\<close>

type_synonym listing = "(nat \<times> nat \<times> bool \<times> u8 list) list"

fun list_entries :: "(u8 list \<Rightarrow> listing option) \<Rightarrow> u8 list \<Rightarrow> nat \<Rightarrow> nat \<Rightarrow> DirectoryMeta \<Rightarrow> listing option" where
  "list_entries sub path depth i [] = Some []"
| "list_entries sub path depth i (e # es) = do {
     below \<leftarrow> (if isDirectories e then sub (childPath path (names e)) else Some []);
     rest \<leftarrow> list_entries sub path depth (i + 1) es;
     Some ((depth, i, isDirectories e, names e) # below @ rest)
   }"

text \<open>The recursion follows names and need not end on a directory graph with a cycle; it is cut at \<open>fuel\<close> levels, which is \<open>None\<close>.\<close>

fun recursivereaddir :: "nat \<Rightarrow> digest \<Rightarrow> FileSystem \<Rightarrow> u8 list \<Rightarrow> nat \<Rightarrow> (bool \<times> listing) option" where
  "recursivereaddir 0 sha256 fs path depth = None"
| "recursivereaddir (Suc fuel) sha256 fs path depth =
     (if checkLocal fs (node_of sha256 fs path) then do {
        e \<leftarrow> HashTable_get (ht fs) (path_hash sha256 path);
        case e of
          None \<Rightarrow> Some (False, [])
        | Some (indexDirectoryMeta, isDir) \<Rightarrow>
            if \<not> isDir then Some (False, [])
            else do {
              m \<leftarrow> Table_get (dirs fs) indexDirectoryMeta;
              case m of
                None \<Rightarrow> Some (False, [])
              | Some d \<Rightarrow> do {
                  out \<leftarrow> list_entries (\<lambda>p. map_option snd (recursivereaddir fuel sha256 fs p (depth + 1))) path depth 0 d;
                  Some (True, out)
                }
            }
      } else Some (False, []))"

text \<open>What \<^verbatim>\<open>readDirectoryMeta\<close> returns on success: the entries, the address of the hash item, the address of the metadata and the node.\<close>

definition readDirectoryMeta_local ::
    "digest \<Rightarrow> FileSystem \<Rightarrow> u8 list \<Rightarrow> ((DirectoryMeta \<times> nat \<times> nat \<times> nat) option \<times> FileSystem) option" where
  "readDirectoryMeta_local sha256 fs path =
     (let h = path_hash sha256 path; a = address_of sha256 path; hashNode = node_of sha256 fs path
      in do {
        fs \<leftarrow> lockReadHashItem fs a;
        e \<leftarrow> HashTable_get (ht fs) h;
        r \<leftarrow>
          (case e of
             None \<Rightarrow> Some None
           | Some (indexDirectoryMeta, isDir) \<Rightarrow>
               if \<not> isDir then Some None
               else do {
                 m \<leftarrow> Table_get_address 0 1 (dirs fs) indexDirectoryMeta;
                 Some (case m of None \<Rightarrow> None | Some (d, metaAddress) \<Rightarrow> Some (d, a, metaAddress, hashNode))
               });
        Some (r, unlockReadHashItem fs a)
      })"

partial_function (option) readDirectoryMeta ::
    "digest \<Rightarrow> cluster \<Rightarrow> nat \<Rightarrow> u8 list \<Rightarrow> ((DirectoryMeta \<times> nat \<times> nat \<times> nat) option \<times> cluster) option" where
  "readDirectoryMeta sha256 cl me path =
     (if checkLocal (cl me) (node_of sha256 (cl me) path) then do {
        (r, fs) \<leftarrow> readDirectoryMeta_local sha256 (cl me) path;
        Some (r, cl(me := fs))
      } else if strlen path < MAX_PATH_LENGTH then
        readDirectoryMeta sha256 cl (node_of sha256 (cl me) path) path
      else None)"

section \<open>Extents\<close>

text \<open>The answer of \<^verbatim>\<open>extentRead\<close> and \<^verbatim>\<open>extentWrite\<close>: the result, the positions, and the address of the lock that is now held, if
  that output was written.\<close>

definition extentRead ::
    "digest \<Rightarrow> FileSystem \<Rightarrow> u8 list \<Rightarrow> u64 \<Rightarrow> u64 \<Rightarrow> file_pos_info \<Rightarrow> (bool \<times> file_pos_info \<times> nat option \<times> FileSystem) option" where
  "extentRead sha256 fs path sz offset fpi =
     (let h = path_hash sha256 path; a = address_of sha256 path
      in if sz = 0 then Some (False, fpi, None, fs)
         else if checkLocal fs (node_of sha256 fs path) then do {
           fs \<leftarrow> lockReadHashItem fs a;
           e \<leftarrow> HashTable_get (ht fs) h;
           (result, fpi) \<leftarrow>
             (case e of
                None \<Rightarrow> Some (False, fpi)
              | Some (indexFileMeta, isDir) \<Rightarrow>
                  if isDir then Some (False, fpi)
                  else do {
                    m \<leftarrow> Table_get (files fs) indexFileMeta;
                    case m of
                      None \<Rightarrow> Some (False, fpi)
                    | Some metaFile \<Rightarrow>
                        if offset + 1 > fm_size metaFile then Some (True, fpi\<lparr>fpi_len := 0\<rparr>)
                        else do {
                          fpi \<leftarrow> fillFilePositionInformation
                            (if fm_size metaFile - offset < sz then fm_size metaFile - offset else sz) offset fpi metaFile;
                          Some (True, fpi)
                        }
                  });
           Some (result, fpi, Some a, fs)
         } else Some (False, fpi, None, fs))"

definition extentReadEnd :: "digest \<Rightarrow> FileSystem \<Rightarrow> u8 list \<Rightarrow> (bool \<times> FileSystem) option" where
  "extentReadEnd sha256 fs path =
     (if checkLocal fs (node_of sha256 fs path) then do {
        e \<leftarrow> HashTable_get (ht fs) (path_hash sha256 path);
        Some (True, unlockReadHashItem fs (address_of sha256 path))
      } else Some (False, fs))"

text \<open>The loop that allocates blocks: the result, the blocks and the metadata. A block that follows the last extent extends it, any
  other starts a new extent, whether the array of extents has room or not. \<open>bound\<close> is the last extent or -1.\<close>

definition append_block :: "nat \<Rightarrow> FileMeta \<Rightarrow> int \<Rightarrow> nat \<Rightarrow> (bool \<times> FileMeta \<times> int) option" where
  "append_block localNode m bound index =
     (let ts = fm_tuple m; b = nat bound;
          indexLast = (if bound \<ge> 0 then ucast (indexExtentStartBlock (ts ! b) + countExtentBlock (ts ! b)) else - 1 :: u64);
          indexCurrent = of_nat index :: u64
      in if bound \<ge> 0 \<and> b \<ge> length ts then None
         else if bound \<ge> 0 \<and> indexCurrent = indexLast then
           Some (True, m\<lparr>fm_tuple := ts[b := (ts ! b)\<lparr>countExtentBlock := countExtentBlock (ts ! b) + 1\<rparr>]\<rparr>, bound)
         else if bound = -1 \<or> indexCurrent \<noteq> indexLast then
           (let b' = nat (bound + 1)
            in if b' < length ts then
                 Some (True, m\<lparr>fm_tuple := ts[b' := \<lparr>ft_hashNode = of_nat localNode, indexExtentStartBlock = of_nat index,
                                                  countExtentBlock = 1\<rparr>], fm_count := fm_count m + 1\<rparr>, bound + 1)
               else None)
         else Some (False, m, bound))"

fun alloc_blocks :: "nat \<Rightarrow> nat \<Rightarrow> Block Table \<Rightarrow> FileMeta \<Rightarrow> int \<Rightarrow> (bool \<times> FileMeta \<times> Block Table) option" where
  "alloc_blocks localNode 0 t m bound = Some (True, m, t)"
| "alloc_blocks localNode (Suc n) t m bound = do {
     ((created, index), t) \<leftarrow> Table_create t;
     case (created, index) of
       (True, Some indexCurrentExtraBlock) \<Rightarrow> do {
         (ok, m, bound) \<leftarrow> append_block localNode m bound indexCurrentExtraBlock;
         if ok then alloc_blocks localNode n t m bound else Some (False, m, t)
       }
     | _ \<Rightarrow> Some (False, m, t)
   }"

definition BLOCK_SIZE64 :: u64 where "BLOCK_SIZE64 = 0x100000"

text \<open>The part of \<^verbatim>\<open>extentWrite\<close> that allocates what the file lacks and fills the positions.\<close>

definition grow_file ::
    "nat \<Rightarrow> Block Table \<Rightarrow> FileMeta \<Rightarrow> u64 \<Rightarrow> u64 \<Rightarrow> file_pos_info \<Rightarrow> (bool \<times> file_pos_info \<times> FileMeta \<times> Block Table) option" where
  "grow_file localNode t m sz offset fpi =
     (if 0xFFFFFFFFFFFFFFFF - offset < sz \<or> sz = 0 then Some (False, fpi, m, t)
      else if fm_size m = 0 \<or> (offset + sz - 1) div BLOCK_SIZE64 > (fm_size m - 1) div BLOCK_SIZE64 then
        (let bound = (if fm_size m = 0 then - 1 else sint (fm_count m) - 1);
             countExtraBlock = (if fm_size m = 0 then (offset + sz - 1) div BLOCK_SIZE64 + 1
                                else (offset + sz - 1) div BLOCK_SIZE64 - (fm_size m - 1) div BLOCK_SIZE64)
         in do {
           (ok, m, t) \<leftarrow> alloc_blocks localNode (unat countExtraBlock) t m bound;
           if \<not> ok then Some (False, fpi, m, t)
           else do {
             fpi \<leftarrow> fillFilePositionInformation sz offset fpi (m\<lparr>fm_size := offset + sz\<rparr>);
             Some (True, fpi, m\<lparr>fm_size := offset + sz\<rparr>, t)
           }
         })
      else
        (let m = m\<lparr>fm_size := if offset + sz > fm_size m then offset + sz else fm_size m\<rparr>
         in do { fpi \<leftarrow> fillFilePositionInformation sz offset fpi m; Some (True, fpi, m, t) }))"

definition extentWrite ::
    "digest \<Rightarrow> int \<Rightarrow> FileSystem \<Rightarrow> u8 list \<Rightarrow> u64 \<Rightarrow> u64 \<Rightarrow> file_pos_info \<Rightarrow>
     (bool \<times> file_pos_info \<times> nat option \<times> FileSystem) option" where
  "extentWrite sha256 now fs path sz offset fpi =
     (let h = path_hash sha256 path; a = address_of sha256 path; hashNode = node_of sha256 fs path
      in if checkLocal fs hashNode then do {
           (key, fs) \<leftarrow> lockWriteHashItem fs hashNode a;
           e \<leftarrow> HashTable_get (ht fs) h;
           (result, fpi, fs) \<leftarrow>
             (case e of
                None \<Rightarrow> Some (False, fpi, fs)
              | Some (indexFileMeta, isDir) \<Rightarrow>
                  if isDir then Some (False, fpi, fs)
                  else do {
                    g \<leftarrow> Table_get (files fs) indexFileMeta;
                    case g of
                      None \<Rightarrow> Some (False, fpi, fs)
                    | Some metaFile \<Rightarrow> do {
                        (result, fpi, m, t) \<leftarrow> grow_file (hashLocalNode fs) (blocks fs) metaFile sz offset fpi;
                        if result then do {
                          (_, t') \<leftarrow> Table_put (files fs) indexFileMeta (m\<lparr>timeLastModified := now\<rparr>);
                          Some (result, fpi, set_files (set_blocks fs t) t')
                        } else Some (result, fpi, set_blocks fs t)
                      }
                  });
           Some (result, fpi, Some a, fs)
         } else Some (False, fpi, None, fs))"

definition updateMeta :: "digest \<Rightarrow> int \<Rightarrow> FileSystem \<Rightarrow> u8 list \<Rightarrow> FileMeta \<Rightarrow> (bool \<times> FileSystem) option" where
  "updateMeta sha256 now fs path metaFile =
     (if checkLocal fs (node_of sha256 fs path) then do {
        e \<leftarrow> HashTable_get (ht fs) (path_hash sha256 path);
        (result, fs) \<leftarrow>
          (case e of
             None \<Rightarrow> Some (False, fs)
           | Some (indexFileMeta, isDir) \<Rightarrow>
               if isDir then Some (False, fs)
               else do {
                 (ok, t) \<leftarrow> Table_put (files fs) indexFileMeta (metaFile\<lparr>timeLastModified := now\<rparr>);
                 Some (ok, set_files fs t)
               });
        Some (result, unlockWriteHashItem fs (address_of sha256 path))
      } else Some (False, fs))"

section \<open>Releasing blocks\<close>

text \<open>A loop that removes the blocks at the given offsets from \<open>start\<close> until one of them cannot be removed.\<close>

fun remove_blocks :: "Block Table \<Rightarrow> 'w::len word \<Rightarrow> int list \<Rightarrow> (bool \<times> Block Table) option" where
  "remove_blocks t start [] = Some (True, t)"
| "remove_blocks t start (j # js) = do {
     (ok, t) \<leftarrow> Table_remove t (unat (start + word_of_int j));
     if ok then remove_blocks t start js else Some (False, t)
   }"

text \<open>The loops that count down over the blocks of an extent.\<close>

definition down_to :: "FileMetaTuple \<Rightarrow> int \<Rightarrow> int list" where
  "down_to e lo = rev [lo..sint (countExtentBlock e - 1)]"

fun remove_extents :: "Block Table \<Rightarrow> FileMetaTuple list \<Rightarrow> (bool \<times> Block Table) option" where
  "remove_extents t [] = Some (True, t)"
| "remove_extents t (e # es) = do {
     (ok1, t) \<leftarrow> remove_blocks t (indexExtentStartBlock e) (down_to e 0);
     (ok2, t) \<leftarrow> remove_extents t es;
     Some (ok1 \<and> ok2, t)
   }"

text \<open>The extent that contains the last block to keep: its number and the blocks before it.\<close>

fun find_extent :: "FileMetaTuple list \<Rightarrow> u64 \<Rightarrow> u64 \<Rightarrow> nat \<Rightarrow> (nat \<times> u64) option" where
  "find_extent [] keep before i = None"
| "find_extent (e # es) keep before i =
     (if before + ucast (countExtentBlock e) \<ge> keep then Some (i, before)
      else find_extent es keep (before + ucast (countExtentBlock e)) (i + 1))"

definition cut_file :: "Block Table \<Rightarrow> FileMeta \<Rightarrow> u64 \<Rightarrow> (bool \<times> FileMeta \<times> Block Table) option" where
  "cut_file t m sz =
     (let countNewTotalBlock = (if sz = 0 then 0 else (sz - 1) div BLOCK_SIZE64 + 1)
      in do {
        es \<leftarrow> extents m;
        case find_extent es countNewTotalBlock 0 0 of
          None \<Rightarrow> Some (False, m, t)
        | Some (i, before) \<Rightarrow> do {
            (ok, t) \<leftarrow> remove_blocks t (indexExtentStartBlock (es ! i))
              (down_to (es ! i) (sint (ucast (countNewTotalBlock - before - 1 + 1) :: u32)));
            if \<not> ok then Some (False, m, t)
            else do {
              (ok, t) \<leftarrow> remove_extents t (drop (i + 1) es);
              Some (ok, if ok then m\<lparr>fm_size := sz, fm_count := of_nat (i + 1)\<rparr> else m, t)
            }
          }
      })"

definition fs_truncate :: "digest \<Rightarrow> FileSystem \<Rightarrow> u8 list \<Rightarrow> u64 \<Rightarrow> (bool \<times> FileSystem) option" where
  "fs_truncate sha256 fs path sz =
     (let h = path_hash sha256 path; a = address_of sha256 path; hashNode = node_of sha256 fs path
      in if checkLocal fs hashNode then do {
           (key, fs) \<leftarrow> lockWriteHashItem fs hashNode a;
           e \<leftarrow> HashTable_get (ht fs) h;
           (result, fs) \<leftarrow>
             (case e of
                None \<Rightarrow> Some (False, fs)
              | Some (indexFileMeta, isDir) \<Rightarrow>
                  if isDir then Some (False, fs)
                  else do {
                    g \<leftarrow> Table_get (files fs) indexFileMeta;
                    case g of
                      None \<Rightarrow> Some (False, fs)
                    | Some metaFile \<Rightarrow>
                        if sz \<ge> fm_size metaFile then Some (False, fs)
                        else do {
                          (ok, m, t) \<leftarrow> cut_file (blocks fs) metaFile sz;
                          if ok then do {
                            (ok, t') \<leftarrow> Table_put (files fs) indexFileMeta m;
                            Some (ok, set_files (set_blocks fs t) t')
                          } else Some (False, set_blocks fs t)
                        }
                  });
           Some (result, unlockWriteHashItem fs a)
         } else Some (False, fs))"

text \<open>The result is unset when every block has been removed.\<close>

definition blockFree :: "Uninit \<Rightarrow> FileSystem \<Rightarrow> u64 \<Rightarrow> u64 \<Rightarrow> (bool \<times> FileSystem) option" where
  "blockFree u fs startBlock countBlock = do {
     (ok, t) \<leftarrow> remove_blocks (blocks fs) startBlock (rev [0..sint (ucast countBlock :: u32) - 1]);
     Some (if ok then u_flag u else False, set_blocks fs t)
   }"

end
