(* ===== verification/OctoNamespace.thy ===== *)
theory OctoNamespace
  imports OctoFs
begin

text \<open>
  The operations of the Octopus file system that change the tree of names, \<^verbatim>\<open>sys/octopus/src/fs/filesystem.cpp\<close>, and the message
  handler. Each of them exists in the variant that collects the update of the parent directory and writes it directly (\<^verbatim>\<open>cd\<close>, the
  one compiled in) and, for creation and removal, in the variant with a two-phase commit (\<^verbatim>\<open>2pc\<close>).
\<close>

section \<open>Updating a directory\<close>

text \<open>A write to the memory of the directory table, past its bitmap and mutex.\<close>

definition write_dir :: "FileSystem \<Rightarrow> nat \<Rightarrow> DirectoryMeta \<Rightarrow> FileSystem option" where
  "write_dir fs addr d =
     (if addr < length (table_items (dirs fs)) then Some (set_dirs fs ((dirs fs)\<lparr>table_items := (table_items (dirs fs))[addr := d]\<rparr>))
      else None)"

text \<open>The metadata is copied to the node of the parent, locally or by a remote write; no lock is held.\<close>

definition updateRemoteMeta :: "cluster \<Rightarrow> nat \<Rightarrow> DirectoryMeta \<Rightarrow> nat \<Rightarrow> cluster option" where
  "updateRemoteMeta cl parentNodeID meta parentMetaAddress = do {
     fs \<leftarrow> write_dir (cl parentNodeID) parentMetaAddress meta;
     Some (cl(parentNodeID := fs))
   }"

text \<open>What the two functions below hand to the commit: the entry number, the addresses of the new and the old metadata, and the
  address of the hash item, which stays locked.\<close>

record DirUpdate =
  du_TxID :: nat
  du_srcBuffer :: nat
  du_desBuffer :: nat
  du_offset :: nat

text \<open>The common end: the new metadata goes to the log, and the address of the old one is looked up.\<close>

definition log_update :: "FileSystem \<Rightarrow> nat \<Rightarrow> nat \<Rightarrow> DirectoryMeta \<Rightarrow> nat \<Rightarrow> (DirUpdate option \<times> FileSystem) option" where
  "log_update fs LocalTxID index d a = do {
     fs \<leftarrow> fs_TxWriteData fs LocalTxID (Log_dir d);
     p \<leftarrow> Table_put_address 0 1 (dirs fs) index;
     Some (case p of
             None \<Rightarrow> None
           | Some desBuffer \<Rightarrow> Some \<lparr>du_TxID = LocalTxID, du_srcBuffer = fs_getTxWriteDataAddress fs LocalTxID,
                                    du_desBuffer = desBuffer, du_offset = a\<rparr>, fs)
   }"

definition addMetaToDirectory_local ::
    "digest \<Rightarrow> Uninit \<Rightarrow> FileSystem \<Rightarrow> u8 list \<Rightarrow> u8 list option \<Rightarrow> bool \<Rightarrow> (DirUpdate option \<times> FileSystem) option" where
  "addMetaToDirectory_local sha256 u fs path name isDir =
     (let h = path_hash sha256 path; a = address_of sha256 path
      in do {
        (key, fs) \<leftarrow> lockWriteHashItem fs (node_of sha256 fs path) a;
        e \<leftarrow> HashTable_get (ht fs) h;
        (TxID, r, fs) \<leftarrow>
          (case e of
             None \<Rightarrow> Some (u_TxID u, None, fs)
           | Some (index, isDirTemporary) \<Rightarrow>
               if \<not> isDirTemporary then Some (u_TxID u, None, fs)
               else do {
                 m \<leftarrow> Table_get (dirs fs) index;
                 case m of
                   None \<Rightarrow> Some (u_TxID u, None, fs)
                 | Some d \<Rightarrow> do {
                     (LocalTxID, fs) \<leftarrow> fs_TxLocalBegin fs;
                     d' \<leftarrow> add_entry d name isDir;
                     (r, fs) \<leftarrow> log_update fs LocalTxID index d' a;
                     Some (LocalTxID, r, fs)
                   }
               });
        fs \<leftarrow> fs_TxLocalCommit fs TxID (r \<noteq> None);
        Some (r, fs)
      })"

partial_function (option) addMetaToDirectory ::
    "digest \<Rightarrow> Uninit \<Rightarrow> cluster \<Rightarrow> nat \<Rightarrow> u8 list \<Rightarrow> u8 list option \<Rightarrow> bool \<Rightarrow> (DirUpdate option \<times> cluster) option" where
  "addMetaToDirectory sha256 u cl me path name isDir =
     (if checkLocal (cl me) (node_of sha256 (cl me) path) then do {
        (r, fs) \<leftarrow> addMetaToDirectory_local sha256 u (cl me) path name isDir;
        Some (r, cl(me := fs))
      } else if strlen path < MAX_PATH_LENGTH \<and> strcpy_into MAX_FILE_NAME_LENGTH name \<noteq> None then
        addMetaToDirectory sha256 u cl (node_of sha256 (cl me) path) path name isDir
      else None)"

definition removeMetaFromDirectory_local ::
    "digest \<Rightarrow> Uninit \<Rightarrow> FileSystem \<Rightarrow> u8 list \<Rightarrow> u8 list option \<Rightarrow> (DirUpdate option \<times> FileSystem) option" where
  "removeMetaFromDirectory_local sha256 u fs path name =
     (let h = path_hash sha256 path; a = address_of sha256 path
      in do {
        (key, fs) \<leftarrow> lockWriteHashItem fs (node_of sha256 fs path) a;
        e \<leftarrow> HashTable_get (ht fs) h;
        (TxID, r, fs) \<leftarrow>
          (case e of
             None \<Rightarrow> Some (u_TxID u, None, fs)
           | Some (index, isDir) \<Rightarrow>
               if \<not> isDir then Some (u_TxID u, None, fs)
               else do {
                 m \<leftarrow> Table_get (dirs fs) index;
                 case m of
                   None \<Rightarrow> Some (u_TxID u, None, fs)
                 | Some d \<Rightarrow> do {
                     (LocalTxID, fs) \<leftarrow> fs_TxLocalBegin fs;
                     s \<leftarrow> name;
                     if \<not> (\<exists>e \<in> set d. strcmp_eq (names e) s) then do {
                       fs \<leftarrow> fs_TxLocalCommit fs LocalTxID False;
                       Some (LocalTxID, None, fs)
                     } else do {
                       (r, fs) \<leftarrow> log_update fs LocalTxID index (drop_entries d s) a;
                       Some (LocalTxID, r, fs)
                     }
                   }
               });
        fs \<leftarrow> fs_TxLocalCommit fs TxID (r \<noteq> None);
        Some (r, fs)
      })"

partial_function (option) removeMetaFromDirectory ::
    "digest \<Rightarrow> Uninit \<Rightarrow> cluster \<Rightarrow> nat \<Rightarrow> u8 list \<Rightarrow> u8 list option \<Rightarrow> (DirUpdate option \<times> cluster) option" where
  "removeMetaFromDirectory sha256 u cl me path name =
     (if checkLocal (cl me) (node_of sha256 (cl me) path) then do {
        (r, fs) \<leftarrow> removeMetaFromDirectory_local sha256 u (cl me) path name;
        Some (r, cl(me := fs))
      } else if strlen path < MAX_PATH_LENGTH \<and> strcpy_into MAX_FILE_NAME_LENGTH name \<noteq> None then
        removeMetaFromDirectory sha256 u cl (node_of sha256 (cl me) path) path name
      else None)"

text \<open>The data in the log at an address \<^verbatim>\<open>getTxWriteDataAddress\<close> gave.\<close>

definition log_at :: "FileSystem \<Rightarrow> nat \<Rightarrow> log_data" where
  "log_at fs addr = ll_logData (localLog (fs_tx fs) ((addr - 9 - LocalLogAddress (fs_tx fs)) div 4096))"

definition updateDirectoryMeta_local :: "digest \<Rightarrow> FileSystem \<Rightarrow> u8 list \<Rightarrow> DirUpdate \<Rightarrow> (bool \<times> FileSystem) option" where
  "updateDirectoryMeta_local sha256 fs path du = do {
     e \<leftarrow> HashTable_get (ht fs) (path_hash sha256 path);
     fs \<leftarrow> (case e of
              None \<Rightarrow> Some fs
            | Some _ \<Rightarrow> (case log_at fs (du_srcBuffer du) of Log_dir d \<Rightarrow> write_dir fs (du_desBuffer du) d | _ \<Rightarrow> None));
     fs \<leftarrow> fs_TxLocalCommit (unlockWriteHashItem fs (du_offset du)) (du_TxID du) True;
     Some (e \<noteq> None, fs)
   }"

partial_function (option) updateDirectoryMeta :: "digest \<Rightarrow> cluster \<Rightarrow> nat \<Rightarrow> u8 list \<Rightarrow> DirUpdate \<Rightarrow> (bool \<times> cluster) option" where
  "updateDirectoryMeta sha256 cl me path du =
     (if checkLocal (cl me) (node_of sha256 (cl me) path) then do {
        (r, fs) \<leftarrow> updateDirectoryMeta_local sha256 (cl me) path du;
        Some (r, cl(me := fs))
      } else if strlen path < MAX_PATH_LENGTH then
        updateDirectoryMeta sha256 cl (node_of sha256 (cl me) path) path du
      else None)"

section \<open>Creating\<close>

text \<open>A metadata item is created and put into the index; the item stays when the index is full.\<close>

definition create_file :: "FileSystem \<Rightarrow> UniqueHash \<Rightarrow> FileMeta \<Rightarrow> (bool \<times> FileSystem) option" where
  "create_file fs h metaFile = do {
     ((created, index), t) \<leftarrow> Table_create_item (files fs) metaFile;
     case (created, index) of
       (True, Some indexFileMeta) \<Rightarrow> do {
         (ok, hash) \<leftarrow> HashTable_put (ht fs) h indexFileMeta False;
         Some (ok, set_ht (set_files fs t) hash)
       }
     | _ \<Rightarrow> Some (False, set_files fs t)
   }"

definition create_dir :: "FileSystem \<Rightarrow> UniqueHash \<Rightarrow> DirectoryMeta \<Rightarrow> (bool \<times> FileSystem) option" where
  "create_dir fs h metaDirectory = do {
     ((created, index), t) \<leftarrow> Table_create_item (dirs fs) metaDirectory;
     case (created, index) of
       (True, Some indexDirectoryMeta) \<Rightarrow> do {
         (ok, hash) \<leftarrow> HashTable_put (ht fs) h indexDirectoryMeta True;
         Some (ok, set_ht (set_dirs fs t) hash)
       }
     | _ \<Rightarrow> Some (False, set_dirs fs t)
   }"

definition mknodWithMeta :: "digest \<Rightarrow> int \<Rightarrow> FileSystem \<Rightarrow> u8 list \<Rightarrow> FileMeta \<Rightarrow> (bool \<times> FileSystem) option" where
  "mknodWithMeta sha256 now fs path metaFile =
     (let h = path_hash sha256 path; a = address_of sha256 path; hashNode = node_of sha256 fs path
      in if checkLocal fs hashNode then do {
           (key, fs) \<leftarrow> lockWriteHashItem fs hashNode a;
           e \<leftarrow> HashTable_get (ht fs) h;
           (result, fs) \<leftarrow> (case e of Some _ \<Rightarrow> Some (False, fs) | None \<Rightarrow> create_file fs h (metaFile\<lparr>timeLastModified := now\<rparr>));
           Some (result, unlockWriteHashItem fs a)
         } else Some (False, fs))"

definition new_file :: "int \<Rightarrow> Uninit \<Rightarrow> FileMeta" where
  "new_file now u = \<lparr>timeLastModified = now, fm_count = 0, fm_size = 0, fm_tuple = u_tuple u\<rparr>"

text \<open>Running a function of one node in the cluster.\<close>

definition on_node :: "cluster \<Rightarrow> nat \<Rightarrow> (FileSystem \<Rightarrow> ('r \<times> FileSystem) option) \<Rightarrow> ('r \<times> cluster) option" where
  "on_node cl me f = do { (r, fs) \<leftarrow> f (cl me); Some (r, cl(me := fs)) }"

definition on_node' :: "cluster \<Rightarrow> nat \<Rightarrow> (FileSystem \<Rightarrow> FileSystem option) \<Rightarrow> cluster option" where
  "on_node' cl me f = do { fs \<leftarrow> f (cl me); Some (cl(me := fs)) }"

text \<open>\<^verbatim>\<open>mknodcd\<close> and \<^verbatim>\<open>mkdircd\<close> are the same function up to the flag in the entry of the parent and the metadata they create. The flag
  \<^verbatim>\<open>mknodcd\<close> stores is the variable \<^verbatim>\<open>isDirectory\<close>, which it has not set.\<close>

definition create_in_parent ::
    "cluster \<Rightarrow> nat \<Rightarrow> UniqueHash \<Rightarrow> u8 list option \<Rightarrow> bool \<Rightarrow> (FileSystem \<Rightarrow> UniqueHash \<Rightarrow> (bool \<times> FileSystem) option) \<Rightarrow> nat \<Rightarrow>
     (DirectoryMeta \<times> nat \<times> nat \<times> nat) option \<Rightarrow> (bool \<times> cluster) option" where
  "create_in_parent cl me h name flag create LocalTxID r =
     (case r of
        None \<Rightarrow> Some (False, cl)
      | Some (parentMeta, parentHashAddress, parentMetaAddress, parentNodeID) \<Rightarrow> do {
          e \<leftarrow> HashTable_get (ht (cl me)) h;
          case e of
            Some _ \<Rightarrow> Some (False, cl)
          | None \<Rightarrow> do {
              parentMeta \<leftarrow> add_entry parentMeta name flag;
              cl \<leftarrow> on_node' cl me (\<lambda>fs. fs_TxWriteData fs LocalTxID (Log_dir parentMeta));
              cl \<leftarrow> updateRemoteMeta cl parentNodeID parentMeta parentMetaAddress;
              on_node cl me (\<lambda>fs. create fs h)
            }
        })"

definition create_entry ::
    "digest \<Rightarrow> cluster \<Rightarrow> nat \<Rightarrow> u8 list \<Rightarrow> bool \<Rightarrow> (FileSystem \<Rightarrow> UniqueHash \<Rightarrow> (bool \<times> FileSystem) option) \<Rightarrow> (bool \<times> cluster) option" where
  "create_entry sha256 cl me path flag create =
     (let h = path_hash sha256 path; a = address_of sha256 path; hashNode = node_of sha256 (cl me) path
      in if checkLocal (cl me) hashNode then do {
           (key, cl) \<leftarrow> on_node cl me (\<lambda>fs. lockWriteHashItem fs hashNode a);
           (LocalTxID, cl) \<leftarrow> on_node cl me fs_TxLocalBegin;
           let parent = snd (getParentDirectory path);
           let name = snd (getNameFromPath path);
           (r, cl) \<leftarrow> readDirectoryMeta sha256 cl me parent;
           (result, cl) \<leftarrow> create_in_parent cl me h name flag create LocalTxID r;
           cl \<leftarrow> on_node' cl me (\<lambda>fs. fs_TxLocalCommit fs LocalTxID result);
           Some (result, cl(me := unlockWriteHashItem (cl me) a))
         } else Some (False, cl))"

definition mknodcd :: "digest \<Rightarrow> int \<Rightarrow> Uninit \<Rightarrow> cluster \<Rightarrow> nat \<Rightarrow> u8 list \<Rightarrow> (bool \<times> cluster) option" where
  "mknodcd sha256 now u cl me path = create_entry sha256 cl me path (u_flag u) (\<lambda>fs h. create_file fs h (new_file now u))"

definition mkdircd :: "digest \<Rightarrow> cluster \<Rightarrow> nat \<Rightarrow> u8 list \<Rightarrow> (bool \<times> cluster) option" where
  "mkdircd sha256 cl me path = create_entry sha256 cl me path True (\<lambda>fs h. create_dir fs h [])"

text \<open>The variants with a two-phase commit.\<close>

definition mknod2pc :: "digest \<Rightarrow> int \<Rightarrow> Uninit \<Rightarrow> cluster \<Rightarrow> nat \<Rightarrow> u8 list \<Rightarrow> (bool \<times> cluster) option" where
  "mknod2pc sha256 now u cl me path =
     (let h = path_hash sha256 path; a = address_of sha256 path; hashNode = node_of sha256 (cl me) path
      in if checkLocal (cl me) hashNode then do {
           (key, cl) \<leftarrow> on_node cl me (\<lambda>fs. lockWriteHashItem fs hashNode a);
           (DistributedTxID, cl) \<leftarrow> on_node cl me fs_TxDistributedBegin;
           (LocalTxID, cl) \<leftarrow> on_node cl me fs_TxLocalBegin;
           let parent = snd (getParentDirectory path);
           let name = snd (getNameFromPath path);
           (r, cl) \<leftarrow> addMetaToDirectory sha256 u cl me parent name False;
           (result, cl) \<leftarrow>
             (case r of
                None \<Rightarrow> do {
                  cl \<leftarrow> on_node' cl me (\<lambda>fs. fs_TxDistributedPrepare fs DistributedTxID False);
                  Some (False, cl)
                }
              | Some du \<Rightarrow> do {
                  e \<leftarrow> HashTable_get (ht (cl me)) h;
                  case e of
                    Some _ \<Rightarrow> do {
                      cl \<leftarrow> on_node' cl me (\<lambda>fs. fs_TxDistributedPrepare fs DistributedTxID False);
                      Some (False, cl)
                    }
                  | None \<Rightarrow> do {
                      cl \<leftarrow> on_node' cl me (\<lambda>fs. fs_TxWriteData fs LocalTxID (Log_file (new_file now u)));
                      cl \<leftarrow> on_node' cl me (\<lambda>fs. fs_TxDistributedPrepare fs DistributedTxID True);
                      (_, cl) \<leftarrow> updateDirectoryMeta sha256 cl me parent du;
                      on_node cl me (\<lambda>fs. create_file fs h (new_file now u))
                    }
                });
           cl \<leftarrow> on_node' cl me (\<lambda>fs. fs_TxLocalCommit fs LocalTxID result);
           cl \<leftarrow> on_node' cl me (\<lambda>fs. fs_TxDistributedCommit fs DistributedTxID result);
           Some (result, cl(me := unlockWriteHashItem (cl me) a))
         } else Some (False, cl))"

definition mkdir2pc :: "digest \<Rightarrow> Uninit \<Rightarrow> cluster \<Rightarrow> nat \<Rightarrow> u8 list \<Rightarrow> (bool \<times> cluster) option" where
  "mkdir2pc sha256 u cl me path =
     (let h = path_hash sha256 path; a = address_of sha256 path; hashNode = node_of sha256 (cl me) path
      in if checkLocal (cl me) hashNode then do {
           (key, cl) \<leftarrow> on_node cl me (\<lambda>fs. lockWriteHashItem fs hashNode a);
           (DistributedTxID, cl) \<leftarrow> on_node cl me fs_TxDistributedBegin;
           (LocalTxID, cl) \<leftarrow> on_node cl me fs_TxLocalBegin;
           let parent = snd (getParentDirectory path);
           let name = snd (getNameFromPath path);
           (r, cl) \<leftarrow> addMetaToDirectory sha256 u cl me parent name True;
           (result, cl) \<leftarrow>
             (case r of
                None \<Rightarrow> do {
                  cl \<leftarrow> on_node' cl me (\<lambda>fs. fs_TxDistributedPrepare fs DistributedTxID False);
                  Some (False, cl)
                }
              | Some du \<Rightarrow> do {
                  e \<leftarrow> HashTable_get (ht (cl me)) h;
                  case e of
                    Some _ \<Rightarrow> do {
                      cl \<leftarrow> on_node' cl me (\<lambda>fs. fs_TxDistributedPrepare fs DistributedTxID False);
                      Some (False, cl)
                    }
                  | None \<Rightarrow> do {
                      cl \<leftarrow> on_node' cl me (\<lambda>fs. fs_TxWriteData fs LocalTxID (Log_dir []));
                      cl \<leftarrow> on_node' cl me (\<lambda>fs. fs_TxDistributedPrepare fs DistributedTxID True);
                      (_, cl) \<leftarrow> updateDirectoryMeta sha256 cl me parent du;
                      on_node cl me (\<lambda>fs. create_dir fs h [])
                    }
                });
           cl \<leftarrow> on_node' cl me (\<lambda>fs. fs_TxLocalCommit fs LocalTxID result);
           cl \<leftarrow> on_node' cl me (\<lambda>fs. fs_TxDistributedCommit fs DistributedTxID result);
           Some (result, cl(me := unlockWriteHashItem (cl me) a))
         } else Some (False, cl))"

section \<open>Removing\<close>

text \<open>The items of a path are removed: the metadata and then the entry of the index. A failure leaves the rest as it is.\<close>

definition remove_dir_items :: "FileSystem \<Rightarrow> UniqueHash \<Rightarrow> nat \<Rightarrow> (bool \<times> FileSystem) option" where
  "remove_dir_items fs h index = do {
     (ok, t) \<leftarrow> Table_remove (dirs fs) index;
     if \<not> ok then Some (False, set_dirs fs t)
     else do { (ok, hash) \<leftarrow> HashTable_del (ht fs) h; Some (ok, set_ht (set_dirs fs t) hash) }
   }"

definition remove_file_items :: "FileSystem \<Rightarrow> UniqueHash \<Rightarrow> nat \<Rightarrow> (bool \<times> FileSystem) option" where
  "remove_file_items fs h index = do {
     (ok, t) \<leftarrow> Table_remove (files fs) index;
     if \<not> ok then Some (False, set_files fs t)
     else do { (ok, hash) \<leftarrow> HashTable_del (ht fs) h; Some (ok, set_ht (set_files fs t) hash) }
   }"

text \<open>The loops over the blocks of a file that ignore the result of a removal and stop at the first extent of another node.\<close>

fun free_blocks :: "Block Table \<Rightarrow> u32 \<Rightarrow> int list \<Rightarrow> Block Table option" where
  "free_blocks t start [] = Some t"
| "free_blocks t start (j # js) = do { (_, t) \<leftarrow> Table_remove t (unat (start + word_of_int j)); free_blocks t start js }"

fun free_extents :: "Block Table \<Rightarrow> nat \<Rightarrow> FileMetaTuple list \<Rightarrow> nat \<Rightarrow> Block Table option" where
  "free_extents t hashNode es 0 = Some t"
| "free_extents t hashNode [] (Suc n) = None"
| "free_extents t hashNode (e # es) (Suc n) =
     (if ft_hashNode e = of_nat hashNode then do {
        t \<leftarrow> free_blocks t (indexExtentStartBlock e) (rev [0..sint (countExtentBlock e) - 1]);
        free_extents t hashNode es n
      } else Some t)"

text \<open>Both branches of \<^verbatim>\<open>removecd\<close> begin a local transaction, log the metadata of the parent, take the name out of it, and then
  remove the object itself, which is \<open>final\<close>.\<close>

definition drop_from_parent ::
    "digest \<Rightarrow> cluster \<Rightarrow> nat \<Rightarrow> u8 list \<Rightarrow> (cluster \<Rightarrow> (bool \<times> cluster) option) \<Rightarrow> (nat \<times> bool \<times> cluster) option" where
  "drop_from_parent sha256 cl me path final = do {
     (LocalTxID, cl) \<leftarrow> on_node cl me fs_TxLocalBegin;
     (r, cl) \<leftarrow> readDirectoryMeta sha256 cl me (snd (getParentDirectory path));
     case r of
       None \<Rightarrow> Some (LocalTxID, False, cl)
     | Some (parentMeta, parentHashAddress, parentMetaAddress, parentNodeID) \<Rightarrow> do {
         s \<leftarrow> snd (getNameFromPath path);
         cl \<leftarrow> on_node' cl me (\<lambda>fs. fs_TxWriteData fs LocalTxID (Log_dir parentMeta));
         cl \<leftarrow> updateRemoteMeta cl parentNodeID (drop_entries parentMeta s) parentMetaAddress;
         (result, cl) \<leftarrow> final cl;
         Some (LocalTxID, result, cl)
       }
   }"

definition remove_items :: "digest \<Rightarrow> cluster \<Rightarrow> nat \<Rightarrow> u8 list \<Rightarrow> FileMeta \<Rightarrow> (nat \<times> bool) option \<Rightarrow>
    (nat \<times> bool \<times> FileMeta \<times> cluster) option" where
  "remove_items sha256 cl me path metaFile e =
     (let h = path_hash sha256 path; hashNode = node_of sha256 (cl me) path
      in case e of
           None \<Rightarrow> Some (0, False, metaFile, cl)
         | Some (index, True) \<Rightarrow> do {
             g \<leftarrow> Table_get (dirs (cl me)) index;
             case g of
               None \<Rightarrow> Some (0, False, metaFile, cl)
             | Some d \<Rightarrow>
                 let metaFile = metaFile\<lparr>fm_count := of_nat MAX_FILE_EXTENT_COUNT\<rparr>
                 in if d \<noteq> [] then Some (0, False, metaFile, cl)
                    else do {
                      (LocalTxID, result, cl) \<leftarrow>
                        drop_from_parent sha256 cl me path (\<lambda>cl. on_node cl me (\<lambda>fs. remove_dir_items fs h index));
                      Some (LocalTxID, result, metaFile, cl)
                    }
           }
         | Some (index, False) \<Rightarrow> do {
             g \<leftarrow> Table_get (files (cl me)) index;
             case g of
               None \<Rightarrow> Some (0, False, metaFile, cl)
             | Some metaFile \<Rightarrow> do {
                 (LocalTxID, result, cl) \<leftarrow>
                   drop_from_parent sha256 cl me path (\<lambda>cl. do {
                     t \<leftarrow> free_extents (blocks (cl me)) hashNode (fm_tuple metaFile) (unat (fm_count metaFile));
                     on_node cl me (\<lambda>fs. remove_file_items (set_blocks fs t) h index)
                   });
                 Some (LocalTxID, result, metaFile, cl)
               }
           })"

definition removecd :: "digest \<Rightarrow> cluster \<Rightarrow> nat \<Rightarrow> u8 list \<Rightarrow> FileMeta \<Rightarrow> (bool \<times> FileMeta \<times> cluster) option" where
  "removecd sha256 cl me path metaFile =
     (let h = path_hash sha256 path; a = address_of sha256 path; hashNode = node_of sha256 (cl me) path
      in if checkLocal (cl me) hashNode then do {
           (key, cl) \<leftarrow> on_node cl me (\<lambda>fs. lockWriteHashItem fs hashNode a);
           e \<leftarrow> HashTable_get (ht (cl me)) h;
           (LocalTxID, result, metaFile, cl) \<leftarrow> remove_items sha256 cl me path metaFile e;
           cl \<leftarrow> on_node' cl me (\<lambda>fs. fs_TxLocalCommit fs LocalTxID result);
           Some (result, metaFile, cl(me := unlockWriteHashItem (cl me) a))
         } else Some (False, metaFile, cl))"

definition del_text :: "u8 list \<Rightarrow> log_data" where
  "del_text path = Log_text ([0x64, 0x65, 0x6C, 0x20] @ c_str path)"

definition remove2pc :: "digest \<Rightarrow> Uninit \<Rightarrow> cluster \<Rightarrow> nat \<Rightarrow> u8 list \<Rightarrow> FileMeta \<Rightarrow> (bool \<times> FileMeta \<times> cluster) option" where
  "remove2pc sha256 u cl me path metaFile =
     (let h = path_hash sha256 path; a = address_of sha256 path; hashNode = node_of sha256 (cl me) path;
          parent = snd (getParentDirectory path); name = snd (getNameFromPath path)
      in if checkLocal (cl me) hashNode then do {
           (key, cl) \<leftarrow> on_node cl me (\<lambda>fs. lockWriteHashItem fs hashNode a);
           e \<leftarrow> HashTable_get (ht (cl me)) h;
           (DistributedTxID, LocalTxID, result, metaFile, cl) \<leftarrow>
             (case e of
                None \<Rightarrow> Some (u_TxID u, u_TxID u, False, metaFile, cl)
              | Some (index, isDir) \<Rightarrow> do {
                  (metaFile, go, blks) \<leftarrow>
                    (if isDir then do {
                       g \<leftarrow> Table_get (dirs (cl me)) index;
                       Some (case g of
                               None \<Rightarrow> (metaFile, False, 0)
                             | Some d \<Rightarrow> (metaFile\<lparr>fm_count := of_nat MAX_FILE_EXTENT_COUNT\<rparr>, d = [], 0))
                     } else do {
                       g \<leftarrow> Table_get (files (cl me)) index;
                       Some (case g of None \<Rightarrow> (metaFile, False, 0) | Some m \<Rightarrow> (m, True, unat (fm_count m)))
                     });
                  if \<not> go then Some (u_TxID u, u_TxID u, False, metaFile, cl)
                  else do {
                    (DistributedTxID, cl) \<leftarrow> on_node cl me fs_TxDistributedBegin;
                    (LocalTxID, cl) \<leftarrow> on_node cl me fs_TxLocalBegin;
                    (r, cl) \<leftarrow> removeMetaFromDirectory sha256 u cl me parent name;
                    case r of
                      None \<Rightarrow> do {
                        cl \<leftarrow> on_node' cl me (\<lambda>fs. fs_TxDistributedPrepare fs DistributedTxID False);
                        Some (DistributedTxID, LocalTxID, False, metaFile, cl)
                      }
                    | Some du \<Rightarrow> do {
                        cl \<leftarrow> on_node' cl me (\<lambda>fs. fs_TxWriteData fs LocalTxID (del_text path));
                        cl \<leftarrow> on_node' cl me (\<lambda>fs. fs_TxDistributedPrepare fs DistributedTxID True);
                        (_, cl) \<leftarrow> updateDirectoryMeta sha256 cl me parent du;
                        t \<leftarrow> free_extents (blocks (cl me)) hashNode (fm_tuple metaFile) blks;
                        (result, cl) \<leftarrow> on_node cl me (\<lambda>fs.
                          if isDir then remove_dir_items fs h index else remove_file_items (set_blocks fs t) h index);
                        Some (DistributedTxID, LocalTxID, result, metaFile, cl)
                      }
                  }
                });
           cl \<leftarrow> on_node' cl me (\<lambda>fs. fs_TxLocalCommit fs LocalTxID result);
           cl \<leftarrow> on_node' cl me (\<lambda>fs. fs_TxDistributedCommit fs DistributedTxID result);
           Some (result, metaFile, cl(me := unlockWriteHashItem (cl me) a))
         } else Some (False, metaFile, cl))"

text \<open>\<^verbatim>\<open>rmdir\<close> starts the update of the parent but does not commit it. On another node it reports success.\<close>

definition rmdir :: "digest \<Rightarrow> Uninit \<Rightarrow> cluster \<Rightarrow> nat \<Rightarrow> u8 list \<Rightarrow> (bool \<times> cluster) option" where
  "rmdir sha256 u cl me path =
     (let h = path_hash sha256 path; a = address_of sha256 path; hashNode = node_of sha256 (cl me) path;
          parent = snd (getParentDirectory path); name = snd (getNameFromPath path)
      in if checkLocal (cl me) hashNode then do {
           (key, cl) \<leftarrow> on_node cl me (\<lambda>fs. lockWriteHashItem fs hashNode a);
           e \<leftarrow> HashTable_get (ht (cl me)) h;
           (result, cl) \<leftarrow>
             (case e of
                None \<Rightarrow> Some (False, cl)
              | Some (index, isDir) \<Rightarrow>
                  if \<not> isDir then Some (False, cl)
                  else do {
                    (r, cl) \<leftarrow> removeMetaFromDirectory sha256 u cl me parent name;
                    case r of
                      None \<Rightarrow> Some (False, cl)
                    | Some du \<Rightarrow> do {
                        g \<leftarrow> Table_get (dirs (cl me)) index;
                        case g of
                          None \<Rightarrow> Some (False, cl)
                        | Some d \<Rightarrow> if d \<noteq> [] then Some (False, cl) else on_node cl me (\<lambda>fs. remove_dir_items fs h index)
                      }
                  });
           Some (result, cl(me := unlockWriteHashItem (cl me) a))
         } else Some (True, cl))"

text \<open>\<^verbatim>\<open>rename\<close> removes the file under the old path; the caller creates it under the new one.\<close>

definition rename :: "digest \<Rightarrow> Uninit \<Rightarrow> cluster \<Rightarrow> nat \<Rightarrow> u8 list \<Rightarrow> u8 list \<Rightarrow> (bool \<times> cluster) option" where
  "rename sha256 u cl me pathOld pathNew =
     (let h = path_hash sha256 pathOld; a = address_of sha256 pathOld; hashNode = node_of sha256 (cl me) pathOld;
          parent = snd (getParentDirectory pathOld); name = snd (getNameFromPath pathOld)
      in if checkLocal (cl me) hashNode then do {
           (key, cl) \<leftarrow> on_node cl me (\<lambda>fs. lockWriteHashItem fs hashNode a);
           e \<leftarrow> HashTable_get (ht (cl me)) h;
           (result, cl) \<leftarrow>
             (case e of
                None \<Rightarrow> Some (False, cl)
              | Some (index, isDir) \<Rightarrow>
                  if isDir then Some (False, cl)
                  else do {
                    (r, cl) \<leftarrow> removeMetaFromDirectory sha256 u cl me parent name;
                    case r of
                      None \<Rightarrow> Some (False, cl)
                    | Some du \<Rightarrow> do {
                        g \<leftarrow> Table_get (files (cl me)) index;
                        case g of
                          None \<Rightarrow> Some (False, cl)
                        | Some m \<Rightarrow> do {
                            (_, cl) \<leftarrow> updateDirectoryMeta sha256 cl me parent du;
                            on_node cl me (\<lambda>fs. remove_file_items fs h index)
                          }
                      }
                  });
           Some (result, cl(me := unlockWriteHashItem (cl me) a))
         } else Some (False, cl))"

end
