(* ===== verification/OctoMessage.thy ===== *)
theory OctoMessage
  imports OctoNamespace
begin

text \<open>
  The message handler of an Octopus server, \<^verbatim>\<open>FileSystem::parseMessage\<close> in \<^verbatim>\<open>sys/octopus/src/fs/filesystem.cpp\<close>, with the requests
  and responses of \<^verbatim>\<open>sys/octopus/include/global.h\<close>. A path in a request is a C string of fewer than 255 bytes. The variants of the
  operations are the ones compiled in. The fields a handler reads from the response buffer before it has written them hold what the
  buffer held before: \<open>ResponseBuffer\<close>.
\<close>

definition mknod :: "digest \<Rightarrow> int \<Rightarrow> Uninit \<Rightarrow> cluster \<Rightarrow> nat \<Rightarrow> u8 list \<Rightarrow> (bool \<times> cluster) option" where
  "mknod = mknodcd"

definition mkdir :: "digest \<Rightarrow> cluster \<Rightarrow> nat \<Rightarrow> u8 list \<Rightarrow> (bool \<times> cluster) option" where
  "mkdir = mkdircd"

definition remove :: "digest \<Rightarrow> cluster \<Rightarrow> nat \<Rightarrow> u8 list \<Rightarrow> FileMeta \<Rightarrow> (bool \<times> FileMeta \<times> cluster) option" where
  "remove = removecd"

datatype request =
    MESSAGE_ADDMETATODIRECTORY "u8 list" "u8 list" bool
  | MESSAGE_REMOVEMETAFROMDIRECTORY "u8 list" "u8 list"
  | MESSAGE_DOCOMMIT "u8 list" DirUpdate
  | MESSAGE_MKNOD "u8 list"
  | MESSAGE_GETATTR "u8 list"
  | MESSAGE_ACCESS "u8 list"
  | MESSAGE_MKDIR "u8 list"
  | MESSAGE_READDIR "u8 list"
  | MESSAGE_READDIRECTORYMETA "u8 list"
  | MESSAGE_EXTENTREAD "u8 list" u64 u64
  | MESSAGE_EXTENTWRITE "u8 list" u64 u64
  | MESSAGE_UPDATEMETA
  | MESSAGE_EXTENTREADEND
  | MESSAGE_TRUNCATE "u8 list" u64
  | MESSAGE_RMDIR "u8 list"
  | MESSAGE_REMOVE "u8 list"
  | MESSAGE_FREEBLOCK u64 u64
  | MESSAGE_MKNODWITHMETA "u8 list" FileMeta
  | MESSAGE_RENAME "u8 list" "u8 list"
  | MESSAGE_RAWWRITE "u8 list" u64 u64
  | MESSAGE_RAWREAD "u8 list" u64 u64
  | MESSAGE_OTHER

datatype response =
    No_result
  | General bool
  | UpdataDirectoryMeta "DirUpdate option"
  | GetAttribute bool FileMeta
  | ReadDirectory bool "DirectoryMeta option"
  | ReadDirectoryMeta "(DirectoryMeta \<times> nat \<times> nat \<times> nat) option"
  | Extent bool file_pos_info nat

record ResponseBuffer =
  rb_attribute :: FileMeta
  rb_fpi :: file_pos_info
  rb_offset :: nat

text \<open>The handler releases the lock at the address in the response buffer, whether the operation took it or not.\<close>

definition handle_read ::
    "digest \<Rightarrow> ResponseBuffer \<Rightarrow> u8 list \<Rightarrow> u64 \<Rightarrow> u64 \<Rightarrow> FileSystem \<Rightarrow> (response \<times> FileSystem) option" where
  "handle_read sha256 rb path sz offset fs = do {
     (result, fpi, key_offset, fs) \<leftarrow> extentRead sha256 fs path sz offset (rb_fpi rb);
     let addr = (case key_offset of None \<Rightarrow> rb_offset rb | Some a \<Rightarrow> a);
     if addr < HASH_ITEMS_COUNT then Some (Extent result fpi addr, unlockReadHashItem fs addr) else None
   }"

definition handle_write ::
    "digest \<Rightarrow> int \<Rightarrow> ResponseBuffer \<Rightarrow> u8 list \<Rightarrow> u64 \<Rightarrow> u64 \<Rightarrow> FileSystem \<Rightarrow> (response \<times> FileSystem) option" where
  "handle_write sha256 now rb path sz offset fs = do {
     (result, fpi, key_offset, fs) \<leftarrow> extentWrite sha256 now fs path sz offset (rb_fpi rb);
     let addr = (case key_offset of None \<Rightarrow> rb_offset rb | Some a \<Rightarrow> a);
     if addr < HASH_ITEMS_COUNT then Some (Extent result fpi addr, unlockWriteHashItem fs addr) else None
   }"

definition general :: "(bool \<times> 's) option \<Rightarrow> (response \<times> 's) option" where
  "general r = do { (result, s) \<leftarrow> r; Some (General result, s) }"

definition parseMessage ::
    "digest \<Rightarrow> int \<Rightarrow> Uninit \<Rightarrow> ResponseBuffer \<Rightarrow> cluster \<Rightarrow> nat \<Rightarrow> request \<Rightarrow> (response \<times> cluster) option" where
  "parseMessage sha256 now u rb cl me req = (case req of
     MESSAGE_ADDMETATODIRECTORY path name isDir \<Rightarrow> do {
       (r, cl) \<leftarrow> addMetaToDirectory sha256 u cl me path (Some name) isDir; Some (UpdataDirectoryMeta r, cl) }
   | MESSAGE_REMOVEMETAFROMDIRECTORY path name \<Rightarrow> do {
       (r, cl) \<leftarrow> removeMetaFromDirectory sha256 u cl me path (Some name); Some (UpdataDirectoryMeta r, cl) }
   | MESSAGE_DOCOMMIT path du \<Rightarrow> general (updateDirectoryMeta sha256 cl me path du)
   | MESSAGE_MKNOD path \<Rightarrow> general (mknod sha256 now u cl me path)
   | MESSAGE_GETATTR path \<Rightarrow> on_node cl me (\<lambda>fs. do {
       (result, attribute, fs) \<leftarrow> getattr sha256 fs path (rb_attribute rb); Some (GetAttribute result attribute, fs) })
   | MESSAGE_ACCESS path \<Rightarrow> on_node cl me (\<lambda>fs. general (access sha256 fs path))
   | MESSAGE_MKDIR path \<Rightarrow> general (mkdir sha256 cl me path)
   | MESSAGE_READDIR path \<Rightarrow> on_node cl me (\<lambda>fs. do {
       (result, lst, fs) \<leftarrow> readdir sha256 fs path; Some (ReadDirectory result lst, fs) })
   | MESSAGE_READDIRECTORYMETA path \<Rightarrow> do {
       (r, cl) \<leftarrow> readDirectoryMeta sha256 cl me path; Some (ReadDirectoryMeta r, cl) }
   | MESSAGE_EXTENTREAD path sz offset \<Rightarrow> on_node cl me (handle_read sha256 rb path sz offset)
   | MESSAGE_EXTENTWRITE path sz offset \<Rightarrow> on_node cl me (handle_write sha256 now rb path sz offset)
   | MESSAGE_UPDATEMETA \<Rightarrow> Some (No_result, cl)
   | MESSAGE_EXTENTREADEND \<Rightarrow> Some (No_result, cl)
   | MESSAGE_TRUNCATE path sz \<Rightarrow> on_node cl me (\<lambda>fs. general (fs_truncate sha256 fs path sz))
   | MESSAGE_RMDIR path \<Rightarrow> general (rmdir sha256 u cl me path)
   | MESSAGE_REMOVE path \<Rightarrow> do {
       (result, attribute, cl) \<leftarrow> remove sha256 cl me path (rb_attribute rb); Some (GetAttribute result attribute, cl) }
   | MESSAGE_FREEBLOCK startBlock countBlock \<Rightarrow> on_node cl me (\<lambda>fs. general (blockFree u fs startBlock countBlock))
   | MESSAGE_MKNODWITHMETA path metaFile \<Rightarrow> on_node cl me (\<lambda>fs. general (mknodWithMeta sha256 now fs path metaFile))
   | MESSAGE_RENAME pathOld pathNew \<Rightarrow> general (rename sha256 u cl me pathOld pathNew)
   | MESSAGE_RAWWRITE path sz offset \<Rightarrow> on_node cl me (handle_write sha256 now rb path sz offset)
   | MESSAGE_RAWREAD path sz offset \<Rightarrow> on_node cl me (handle_read sha256 rb path sz offset)
   | MESSAGE_OTHER \<Rightarrow> Some (No_result, cl))"

end
