(* ===== verification/OctoTree.thy ===== *)
theory OctoTree
  imports OctoMessage
begin

text \<open>
  The tree of names an Octopus cluster represents, and the effect of the primitives of the file system on it. \<open>tree N cl\<close> maps the digest
  of a path to the file or directory that the node responsible for the path holds. \<open>cluster_inv N L cl\<close> is the invariant between
  the steps of an operation: every node is consistent, and the locks in \<open>L\<close>, pairs of a node and an address, may be held.
\<close>

section \<open>The view\<close>

datatype obj = FileObj FileMeta | DirObj DirectoryMeta

definition home :: "nat \<Rightarrow> UniqueHash \<Rightarrow> nat" where
  "home N h = unat (h ! 3) mod N + 1"

definition obj_at :: "FileSystem \<Rightarrow> UniqueHash \<Rightarrow> obj option" where
  "obj_at fs h = (case index_map (ht fs) h of
     None \<Rightarrow> None
   | Some (i, isDir) \<Rightarrow> if isDir then map_option DirObj (saved (dirs fs) i) else map_option FileObj (saved (files fs) i))"

definition tree :: "nat \<Rightarrow> cluster \<Rightarrow> UniqueHash \<Rightarrow> obj option" where
  "tree N cl h = obj_at (cl (home N h)) h"

section \<open>The invariant\<close>

text \<open>Every entry of the index has its metadata, no two entries share it, and the extents of a file are in its array.\<close>

definition refs_ok :: "FileSystem \<Rightarrow> bool" where
  "refs_ok fs \<longleftrightarrow>
     (\<forall>h i d. index_map (ht fs) h = Some (i, d) \<longrightarrow> (if d then saved (dirs fs) i \<noteq> None else saved (files fs) i \<noteq> None)) \<and>
     (\<forall>h h' i d. index_map (ht fs) h = Some (i, d) \<longrightarrow> index_map (ht fs) h' = Some (i, d) \<longrightarrow> h = h') \<and>
     (\<forall>i m. saved (files fs) i = Some m \<longrightarrow> unat (fm_count m) \<le> length (fm_tuple m))"

lemma refs_okD:
  assumes "refs_ok fs"
  shows "index_map (ht fs) h = Some (i, True) \<Longrightarrow> \<exists>d. saved (dirs fs) i = Some d"
    and "index_map (ht fs) h = Some (i, False) \<Longrightarrow> \<exists>m. saved (files fs) i = Some m"
    and "index_map (ht fs) h = Some (i, b) \<Longrightarrow> index_map (ht fs) h' = Some (i, b) \<Longrightarrow> h = h'"
    and "saved (files fs) i = Some m \<Longrightarrow> unat (fm_count m) \<le> length (fm_tuple m)"
proof -
  note r = assms [unfolded refs_ok_def, THEN conjunct1, rule_format] assms [unfolded refs_ok_def, THEN conjunct2, THEN conjunct1, rule_format]
    assms [unfolded refs_ok_def, THEN conjunct2, THEN conjunct2, rule_format]
  show "\<exists>d. saved (dirs fs) i = Some d" if "index_map (ht fs) h = Some (i, True)" using r(1) [OF that] by simp
  show "\<exists>m. saved (files fs) i = Some m" if "index_map (ht fs) h = Some (i, False)" using r(1) [OF that] by simp
  show "h = h'" if "index_map (ht fs) h = Some (i, b)" "index_map (ht fs) h' = Some (i, b)" by (rule r(2) [OF that])
  show "unat (fm_count m) \<le> length (fm_tuple m)" if "saved (files fs) i = Some m" by (rule r(3) [OF that])
qed

lemma refs_okI:
  assumes "\<And>h i. index_map (ht fs) h = Some (i, True) \<Longrightarrow> saved (dirs fs) i \<noteq> None"
    and "\<And>h i. index_map (ht fs) h = Some (i, False) \<Longrightarrow> saved (files fs) i \<noteq> None"
    and "\<And>h h' i b. index_map (ht fs) h = Some (i, b) \<Longrightarrow> index_map (ht fs) h' = Some (i, b) \<Longrightarrow> h = h'"
    and "\<And>i m. saved (files fs) i = Some m \<Longrightarrow> unat (fm_count m) \<le> length (fm_tuple m)"
  shows "refs_ok fs"
proof -
  have "if d then saved (dirs fs) i \<noteq> None else saved (files fs) i \<noteq> None" if "index_map (ht fs) h = Some (i, d)" for h i d
    using assms(1,2) [of h i] that by (cases d) auto
  then show ?thesis unfolding refs_ok_def using assms(3,4) by blast
qed

definition node_ok :: "nat \<Rightarrow> nat \<Rightarrow> FileSystem \<Rightarrow> bool" where
  "node_ok N n fs \<longleftrightarrow> hash_inv (ht fs) \<and> table_inv (files fs) \<and> table_inv (dirs fs) \<and> table_inv (blocks fs) \<and>
     countNode (storage fs) = N \<and> hashLocalNode fs = n \<and> refs_ok fs \<and> (\<forall>a. WriteUnlock (lock_at fs a) = 0)"

definition cluster_inv :: "nat \<Rightarrow> (nat \<times> nat) set \<Rightarrow> cluster \<Rightarrow> bool" where
  "cluster_inv N L cl \<longleftrightarrow> 0 < N \<and>
     (\<forall>n \<in> {1..N}. node_ok N n (cl n) \<and> (\<forall>a. (n, a) \<notin> L \<longrightarrow> lock_at (cl n) a = 0))"

text \<open>Room for \<open>k\<close> more items of every kind on every node and for \<open>c\<close> more entries in every directory.\<close>

definition node_slack :: "nat \<Rightarrow> nat \<Rightarrow> FileSystem \<Rightarrow> bool" where
  "node_slack k c fs \<longleftrightarrow> c \<le> MAX_DIRECTORY_COUNT \<and> k \<le> length (headFreeBit (files fs)) \<and> k \<le> length (headFreeBit (dirs fs)) \<and>
     card (dom (index_map (ht fs))) + k \<le> length (itemsChained (ht fs)) - 1 \<and>
     (\<forall>i d. saved (dirs fs) i = Some d \<longrightarrow> length d + c \<le> MAX_DIRECTORY_COUNT)"

definition slack :: "nat \<Rightarrow> nat \<Rightarrow> nat \<Rightarrow> cluster \<Rightarrow> bool" where
  "slack N k c cl \<longleftrightarrow> (\<forall>n \<in> {1..N}. node_slack k c (cl n))"

lemma home_range: "0 < N \<Longrightarrow> home N h \<in> {1..N}"
  by (simp add: home_def Suc_leI)

lemma slack_mono: "slack N k c cl \<Longrightarrow> j \<le> k \<Longrightarrow> b \<le> c \<Longrightarrow> slack N j b cl"
  unfolding slack_def node_slack_def by (meson add_left_mono le_trans)

lemma cluster_invD:
  assumes "cluster_inv N L cl" and "n \<in> {1..N}"
  shows "node_ok N n (cl n)" and "(n, a) \<notin> L \<Longrightarrow> lock_at (cl n) a = 0" and "0 < N"
  using assms by (simp_all add: cluster_inv_def)

section \<open>Locks\<close>

lemma HashTable_get_heads:
  assumes "itemsChained t' = itemsChained t" and "\<And>a. indexHead (itemsHash t' a) = indexHead (itemsHash t a)"
  shows "HashTable_get t' h = HashTable_get t h"
  unfolding HashTable_get_def assms by (rule refl)

lemma hash_inv_heads:
  assumes "itemsChained t' = itemsChained t" and "\<And>a. indexHead (itemsHash t' a) = indexHead (itemsHash t a)"
    and "bitmapChainedItems t' = bitmapChainedItems t" and "freeChained t' = freeChained t"
  shows "hash_inv t' = hash_inv t"
  using assms by (simp add: hash_inv_def alloc_inv_def chains_def used_def)

lemma set_lock_ht [simp]:
  "index_map (ht (set_lock fs a w)) = index_map (ht fs)"
  "hash_inv (ht (set_lock fs a w)) = hash_inv (ht fs)"
  "HashTable_get (ht (set_lock fs a w)) h = HashTable_get (ht fs) h"
  "itemsChained (ht (set_lock fs a w)) = itemsChained (ht fs)"
proof -
  have get: "HashTable_get (ht (set_lock fs a w)) h = HashTable_get (ht fs) h" for h
    by (rule HashTable_get_heads) (simp_all add: set_lock_def)
  then show "HashTable_get (ht (set_lock fs a w)) h = HashTable_get (ht fs) h" .
  from get show "index_map (ht (set_lock fs a w)) = index_map (ht fs)" by (simp add: index_map_def fun_eq_iff)
  show "hash_inv (ht (set_lock fs a w)) = hash_inv (ht fs)" by (rule hash_inv_heads) (simp_all add: set_lock_def)
  show "itemsChained (ht (set_lock fs a w)) = itemsChained (ht fs)" by (simp add: set_lock_def)
qed

lemma set_lock_fields [simp]:
  "files (set_lock fs a w) = files fs" "dirs (set_lock fs a w) = dirs fs" "blocks (set_lock fs a w) = blocks fs"
  "countNode (storage (set_lock fs a w)) = countNode (storage fs)" "hashLocalNode (set_lock fs a w) = hashLocalNode fs"
  "fs_tx (set_lock fs a w) = fs_tx fs" "fs_lock (set_lock fs a w) = fs_lock fs"
  "lock_at (set_lock fs a w) b = (if b = a then w else lock_at fs b)"
  by (simp_all add: set_lock_def lock_at_def)

lemma set_lock_back: "set_lock (set_lock fs a w) a (lock_at fs a) = fs"
  by (simp add: set_lock_def lock_at_def)

lemma obj_at_lock [simp]: "obj_at (set_lock fs a w) h = obj_at fs h"
  unfolding obj_at_def set_lock_ht set_lock_fields by (rule refl)

lemma refs_ok_lock [simp]: "refs_ok (set_lock fs a w) = refs_ok fs"
  by (simp add: refs_ok_def)

lemma new_chained_locks: "new_chained t h m d = (r, t') \<Longrightarrow> itemsHash t' = itemsHash t"
  by (auto simp: new_chained_def Let_def split: list.splits prod.splits if_splits)

lemma put_locks:
  assumes "HashTable_put t h m d = Some (r, t')"
  shows "hash_key_lock (itemsHash t' a) = hash_key_lock (itemsHash t a)"
proof -
  obtain r1 t1 where nc: "new_chained t h m d = (r1, t1)" by fastforce
  note keep = new_chained_locks [OF nc]
  show ?thesis using assms nc keep by (auto simp: HashTable_put_def put_at_def Let_def split: if_splits option.splits prod.splits)
qed

lemma del_locks:
  assumes "HashTable_del t h = Some (r, t')"
  shows "hash_key_lock (itemsHash t' a) = hash_key_lock (itemsHash t a)"
proof -
  have keep: "itemsHash (snd (drop_chained t i)) = itemsHash t" for i by (simp add: drop_chained_def case_prod_beta)
  have keep': "drop_chained t i = (r1, t1) \<Longrightarrow> itemsHash t1 = itemsHash t" for i r1 t1 using keep [of i] by simp
  show ?thesis using assms
    by (auto simp: HashTable_del_def del_at_def Let_def dest!: keep' split: if_splits option.splits prod.splits)
qed

section \<open>Steps of a node in the cluster\<close>

text \<open>A step that replaces the state of a node by a consistent one keeps the invariant.\<close>

lemma cluster_inv_upd:
  assumes "cluster_inv N L cl" and "me \<in> {1..N}" and "node_ok N me fs" and "\<And>a. (me, a) \<notin> L' \<Longrightarrow> lock_at fs a = 0" and "L - {me} \<times> UNIV \<subseteq> L'"
  shows "cluster_inv N L' (cl(me := fs))"
proof -
  have "(n, a) \<notin> L" if "n \<noteq> me" "(n, a) \<notin> L'" for n a using assms(5) that by auto
  then show ?thesis using assms(1-4) by (simp add: cluster_inv_def)
qed

lemma tree_upd: "tree N (cl(me := fs)) h = (if home N h = me then obj_at fs h else tree N cl h)"
  by (simp add: tree_def)

lemma tree_upd_same: "(\<And>h. obj_at fs h = obj_at (cl me) h) \<Longrightarrow> tree N (cl(me := fs)) = tree N cl"
  by (auto simp: tree_def fun_eq_iff)

lemma slack_upd: "slack N k c cl \<Longrightarrow> node_slack k c fs \<Longrightarrow> slack N k c (cl(me := fs))"
  by (simp add: slack_def)

text \<open>Two states of a node that differ in the lock service and the log only.\<close>

definition same_store :: "FileSystem \<Rightarrow> FileSystem \<Rightarrow> bool" where
  "same_store fs fs' \<longleftrightarrow> storage fs' = storage fs \<and> hashLocalNode fs' = hashLocalNode fs"

lemma same_store_keeps:
  assumes "same_store fs fs'"
  shows "node_ok N n fs' = node_ok N n fs" "lock_at fs' = lock_at fs" "obj_at fs' = obj_at fs" "node_slack k c fs' = node_slack k c fs"
proof -
  have st: "storage fs' = storage fs" "hashLocalNode fs' = hashLocalNode fs" using assms by (simp_all add: same_store_def)
  show lk: "lock_at fs' = lock_at fs" by (simp add: lock_at_def st fun_eq_iff)
  show "obj_at fs' = obj_at fs" by (intro ext) (simp only: obj_at_def st)
  show "node_ok N n fs' = node_ok N n fs" "node_slack k c fs' = node_slack k c fs"
    by (simp_all only: node_ok_def refs_ok_def node_slack_def st lk)
qed

lemma same_store_cluster:
  assumes "same_store (cl me) fs" and "cluster_inv N L cl" and "me \<in> {1..N}"
  shows "cluster_inv N L (cl(me := fs))" "tree N (cl(me := fs)) = tree N cl" "slack N k c cl \<Longrightarrow> slack N k c (cl(me := fs))"
proof -
  note keep = same_store_keeps [OF assms(1)]
  show "cluster_inv N L (cl(me := fs))"
    by (rule cluster_inv_upd [OF assms(2,3)]) (use cluster_invD [OF assms(2,3)] keep in auto)
  show "tree N (cl(me := fs)) = tree N cl" by (rule tree_upd_same) (simp add: keep)
  show "slack N k c (cl(me := fs))" if "slack N k c cl"
    using slack_upd [OF that] that assms(3) keep by (simp add: slack_def)
qed

text \<open>The transaction primitives return and change the log only.\<close>

lemma begin_ok: "\<exists>n fs'. fs_TxLocalBegin fs = Some (n, fs') \<and> same_store fs fs'"
  by (rule TxLocalBegin_ok [of "fs_tx fs"]) (simp add: fs_TxLocalBegin_def same_store_def)

lemma write_ok: "data_size d \<le> 4086 \<Longrightarrow> \<exists>fs'. fs_TxWriteData fs n d = Some fs' \<and> same_store fs fs'"
  by (rule TxWriteData_ok [of "data_size d" "fs_tx fs" n d]) (simp_all add: fs_TxWriteData_def same_store_def)

lemma commit_ok: "\<exists>fs'. fs_TxLocalCommit fs n b = Some fs' \<and> same_store fs fs'"
  by (rule TxLocalCommit_ok [of "fs_tx fs" n b]) (simp add: fs_TxLocalCommit_def same_store_def)

text \<open>Taking and releasing a lock for writing.\<close>

lemma lock_ok:
  assumes "cluster_inv N L cl" and "me \<in> {1..N}" and "(me, a) \<notin> L"
  obtains key fs where "lockWriteHashItem (cl me) n a = Some (key, fs)" and "cluster_inv N (insert (me, a) L) (cl(me := fs))"
    and "tree N (cl(me := fs)) = tree N cl" and "\<And>k c. slack N k c cl \<Longrightarrow> slack N k c (cl(me := fs))"
proof -
  let ?key = "lock_key (of_nat n) (WriteID (fs_lock (cl me)))"
  let ?fs = "(set_lock (cl me) a ?key)\<lparr>fs_lock := (fs_lock (cl me))\<lparr>WriteID := WriteID (fs_lock (cl me)) + 1\<rparr>\<rparr>"
  note inv = cluster_invD [OF assms(1,2)]
  have run: "lockWriteHashItem (cl me) n a = Some (?key, ?fs)"
    using inv(2) [OF assms(3)] by (simp add: lockWriteHashItem_def WriteLock_free)
  have same: "same_store (set_lock (cl me) a ?key) ?fs" by (simp add: same_store_def)
  note keep = same_store_keeps [OF same]
  have "node_ok N me ?fs" unfolding keep using inv(1) by (simp add: node_ok_def)
  moreover have "lock_at ?fs b = 0" if "(me, b) \<notin> insert (me, a) L" for b unfolding keep using that inv(2) by auto
  ultimately have "cluster_inv N (insert (me, a) L) (cl(me := ?fs))" by (rule cluster_inv_upd [OF assms(1,2)]) auto
  moreover have "tree N (cl(me := ?fs)) = tree N cl" by (rule tree_upd_same) (simp add: keep)
  moreover have "slack N k c (cl(me := ?fs))" if "slack N k c cl" for k c
    using slack_upd [OF that] that assms(2) keep by (simp add: slack_def node_slack_def)
  ultimately show thesis using that [OF run] by blast
qed

lemma unlock_ok:
  assumes "cluster_inv N (insert (me, a) L) cl" and "me \<in> {1..N}"
  defines "cl' \<equiv> cl(me := unlockWriteHashItem (cl me) a)"
  shows "cluster_inv N L cl'" and "tree N cl' = tree N cl" and "slack N k c cl \<Longrightarrow> slack N k c cl'"
proof -
  note inv = cluster_invD [OF assms(1,2)]
  have "node_ok N me (unlockWriteHashItem (cl me) a)"
    using inv(1) by (simp add: node_ok_def unlockWriteHashItem_def) (simp add: WriteUnlock_def)
  moreover have "lock_at (unlockWriteHashItem (cl me) a) b = 0" if "(me, b) \<notin> L" for b
    using inv(1) inv(2) [of b] that by (auto simp: unlockWriteHashItem_def node_ok_def)
  ultimately show "cluster_inv N L cl'" unfolding cl'_def by (rule cluster_inv_upd [OF assms(1,2)]) auto
  show "tree N cl' = tree N cl" unfolding cl'_def by (rule tree_upd_same) (simp add: unlockWriteHashItem_def)
  show "slack N k c cl'" if "slack N k c cl"
    using slack_upd [OF that] that assms(2) by (simp add: cl'_def slack_def node_slack_def unlockWriteHashItem_def)
qed

section \<open>Reading\<close>

lemma node_of_home: "node_ok N n fs \<Longrightarrow> node_of sha256 fs path = home N (path_hash sha256 path)"
  by (simp add: node_of_def getNodeHash_def home_def node_ok_def)

lemma node_okD:
  assumes "node_ok N n fs"
  shows "HashTable_get (ht fs) h = Some (index_map (ht fs) h)" "Table_get (files fs) i = Some (saved (files fs) i)"
    "Table_get (dirs fs) i = Some (saved (dirs fs) i)" "hashLocalNode fs = n" "checkLocal fs m \<longleftrightarrow> m = n"
  using assms hti.get_spec [of "ht fs" h] tbl.get_spec [of "files fs" i] tbl.get_spec [of "dirs fs" i]
  by (auto simp: node_ok_def checkLocal_def)

text \<open>What the index and the tables say about an object.\<close>

lemma obj_cases:
  assumes "node_ok N n fs"
    and absent: "index_map (ht fs) h = None \<Longrightarrow> obj_at fs h = None \<Longrightarrow> thesis"
    and isdir: "\<And>i d. index_map (ht fs) h = Some (i, True) \<Longrightarrow> saved (dirs fs) i = Some d \<Longrightarrow> obj_at fs h = Some (DirObj d) \<Longrightarrow> thesis"
    and isfile: "\<And>i m. index_map (ht fs) h = Some (i, False) \<Longrightarrow> saved (files fs) i = Some m \<Longrightarrow> obj_at fs h = Some (FileObj m) \<Longrightarrow> thesis"
  shows thesis
proof (cases "index_map (ht fs) h")
  case None
  then show thesis using absent by (simp add: obj_at_def)
next
  case (Some e)
  obtain i b where e: "e = (i, b)" by fastforce
  have "if b then saved (dirs fs) i \<noteq> None else saved (files fs) i \<noteq> None"
    using assms Some e by (auto simp: node_ok_def refs_ok_def)
  then show thesis using isdir [of i] isfile [of i] Some e by (cases b) (auto simp: obj_at_def)
qed

lemma read_lock_run:
  assumes "lock_at fs a = 0"
  shows "lockReadHashItem fs a = Some (set_lock fs a 1)" and "unlockReadHashItem (set_lock fs a 1) a = fs"
  using assms set_lock_back [of fs a 1] by (simp_all add: lockReadHashItem_def unlockReadHashItem_def)

lemma access_ok:
  assumes "node_ok N n fs" and "lock_at fs (address_of sha256 path) = 0" and "home N (path_hash sha256 path) = n"
  shows "access sha256 fs path = Some (obj_at fs (path_hash sha256 path) \<noteq> None, fs)"
  by (rule obj_cases [OF assms(1), of "path_hash sha256 path"])
    (use assms in \<open>auto simp: access_def Let_def read_lock_run node_okD node_of_home\<close>)

lemma getattr_ok:
  assumes "node_ok N n fs" and "lock_at fs (address_of sha256 path) = 0" and "home N (path_hash sha256 path) = n"
  shows "getattr sha256 fs path attr = Some (case obj_at fs (path_hash sha256 path) of
      None \<Rightarrow> (False, attr, fs) | Some (FileObj m) \<Rightarrow> (True, m, fs) | Some (DirObj d) \<Rightarrow> (True, attr\<lparr>fm_count := 20\<rparr>, fs))"
  by (rule obj_cases [OF assms(1), of "path_hash sha256 path"])
    (use assms in \<open>simp_all add: getattr_def Let_def read_lock_run node_okD node_of_home MAX_FILE_EXTENT_COUNT_def\<close>)

lemma readdir_ok:
  assumes "node_ok N n fs" and "lock_at fs (address_of sha256 path) = 0" and "home N (path_hash sha256 path) = n"
  shows "readdir sha256 fs path = Some (case obj_at fs (path_hash sha256 path) of
      Some (DirObj d) \<Rightarrow> (True, Some d, fs) | _ \<Rightarrow> (False, None, fs))"
  by (rule obj_cases [OF assms(1), of "path_hash sha256 path"])
    (use assms in \<open>simp_all add: readdir_def Let_def read_lock_run node_okD node_of_home\<close>)

text \<open>The answer for a directory: its entries and where they are kept.\<close>

definition dir_answer :: "nat \<Rightarrow> cluster \<Rightarrow> UniqueHash \<Rightarrow> (DirectoryMeta \<times> nat \<times> nat \<times> nat) option" where
  "dir_answer N cl h = (case tree N cl h of
     Some (DirObj d) \<Rightarrow> (case index_map (ht (cl (home N h))) h of Some (i, _) \<Rightarrow> Some (d, getAddressHash h, i, home N h) | None \<Rightarrow> None)
   | _ \<Rightarrow> None)"

lemma Table_get_address_ok: "table_inv t \<Longrightarrow> Table_get_address 0 (Suc 0) t i = Some (map_option (\<lambda>x. (x, i)) (saved t i))"
  by (auto simp: Table_get_address_def table_inv_def bmp.get_spec saved_def dest: is_set_range)

lemma readDirectoryMeta_local_ok:
  assumes "node_ok N n (cl n)" and "lock_at (cl n) (address_of sha256 path) = 0" and "home N (path_hash sha256 path) = n"
  shows "readDirectoryMeta_local sha256 (cl n) path = Some (dir_answer N cl (path_hash sha256 path), cl n)"
proof -
  have t: "table_inv (dirs (cl n))" using assms(1) by (simp add: node_ok_def)
  show ?thesis
    by (rule obj_cases [OF assms(1), of "path_hash sha256 path"])
      (use assms t in \<open>simp_all add: readDirectoryMeta_local_def Let_def read_lock_run node_okD node_of_home Table_get_address_ok
        dir_answer_def tree_def address_of_def\<close>)
qed

lemma readDirectoryMeta_ok:
  assumes "cluster_inv N L cl" and "me \<in> {1..N}" and "strlen path < MAX_PATH_LENGTH"
    and "(home N (path_hash sha256 path), address_of sha256 path) \<notin> L"
  shows "readDirectoryMeta sha256 cl me path = Some (dir_answer N cl (path_hash sha256 path), cl)"
proof -
  let ?n = "home N (path_hash sha256 path)"
  have n: "?n \<in> {1..N}" using home_range cluster_invD(3) [OF assms(1,2)] by blast
  note inv = cluster_invD [OF assms(1) n] and me = cluster_invD(1) [OF assms(1,2)]
  have here: "readDirectoryMeta sha256 cl ?n path = Some (dir_answer N cl (path_hash sha256 path), cl)"
    using readDirectoryMeta_local_ok [where n = ?n and cl = cl, OF inv(1) inv(2) [OF assms(4)] refl]
    by (subst readDirectoryMeta.simps) (simp add: node_of_home [OF inv(1)] node_okD(5) [OF inv(1)])
  show ?thesis
  proof (cases "me = ?n")
    case False
    then show ?thesis using here assms(3) me
      by (subst readDirectoryMeta.simps) (simp add: node_of_home [OF me] node_okD(5) [OF me])
  qed (simp only: here)
qed

section \<open>Changing\<close>

lemma index_finite: "hash_inv t \<Longrightarrow> finite (dom (index_map t))"
proof -
  assume inv: "hash_inv t"
  have "finite (used t)" by (rule finite_subset [of _ "{..<varCountTotal (bitmapChainedItems t)}"]) (auto simp: used_def dest: is_set_range)
  then show ?thesis by (simp add: dom_index_map [OF inv])
qed

lemma table_write_ok:
  fixes t :: "'a Table" and y :: 'a
  assumes "table_inv t" and "saved t i = Some x"
  defines "t' \<equiv> t\<lparr>table_items := (table_items t)[i := y]\<rparr>"
  shows "i < length (table_items t)" and "table_inv t'" and "saved t' = (saved t)(i \<mapsto> y)" and "headFreeBit t' = headFreeBit t"
proof -
  have i: "is_set (bitmapItems t) i" using assms(2) by (auto simp: saved_def split: if_splits)
  have len: "length (table_items t) = varCountTotal (bitmapItems t)" using assms(1) by (simp add: table_inv_def)
  show r: "i < length (table_items t)" using is_set_range [OF i] len by simp
  show "table_inv t'" using assms(1) by (simp add: table_inv_def t'_def)
  show "saved t' = (saved t)(i \<mapsto> y)" using i r by (auto simp: saved_def t'_def fun_eq_iff)
  show "headFreeBit t' = headFreeBit t" by (simp add: t'_def)
qed

text \<open>A new value for the metadata of one directory.\<close>

lemma obj_at_dirs_upd:
  assumes "refs_ok fs" and "index_map (ht fs) h = Some (i, True)" and "saved t = (saved (dirs fs))(i \<mapsto> d)"
  shows "obj_at (set_dirs fs t) = (obj_at fs)(h \<mapsto> DirObj d)" and "refs_ok (set_dirs fs t)"
proof -
  have inj: "h' = h" if "index_map (ht fs) h' = Some (i, True)" for h'
    using assms(1,2) that unfolding refs_ok_def by blast
  show "obj_at (set_dirs fs t) = (obj_at fs)(h \<mapsto> DirObj d)"
  proof
    fix h'
    show "obj_at (set_dirs fs t) h' = ((obj_at fs)(h \<mapsto> DirObj d)) h'"
      using inj [of h'] assms(2,3) by (cases "index_map (ht fs) h'") (auto simp: obj_at_def)
  qed
  show "refs_ok (set_dirs fs t)" using refs_okD [OF assms(1)] by (intro refs_okI) (auto simp: assms(3))
qed

lemma updateRemoteMeta_ok:
  assumes inv: "cluster_inv N L cl" and ph: "index_map (ht (cl (home N h))) h = Some (i, True)" "saved (dirs (cl (home N h))) i = Some d"
  obtains cl' where "updateRemoteMeta cl (home N h) d' i = Some cl'" and "cluster_inv N L cl'"
    and "tree N cl' = (tree N cl)(h \<mapsto> DirObj d')"
    and "\<And>k c c'. slack N k c cl \<Longrightarrow> length d' + c' \<le> MAX_DIRECTORY_COUNT \<Longrightarrow> c' \<le> c \<Longrightarrow> slack N k c' cl'"
proof -
  let ?n = "home N h" and ?t = "dirs (cl (home N h))"
  let ?t' = "?t\<lparr>table_items := (table_items ?t)[i := d']\<rparr>"
  let ?fs = "set_dirs (cl ?n) ?t'"
  have n: "?n \<in> {1..N}" using home_range inv by (simp add: cluster_inv_def)
  note nd = cluster_invD [OF inv n]
  have t: "table_inv ?t" and refs: "refs_ok (cl ?n)" using nd(1) by (simp_all add: node_ok_def)
  note w = table_write_ok(1) [OF t ph(2)] table_write_ok(2-4) [OF t ph(2), where y = d']
  note upd = obj_at_dirs_upd [OF refs ph(1) w(3)]
  have lk: "lock_at ?fs = lock_at (cl ?n)" by (simp add: lock_at_def fun_eq_iff)
  have run: "updateRemoteMeta cl ?n d' i = Some (cl(?n := ?fs))" using w(1) by (simp add: updateRemoteMeta_def write_dir_def)
  have ok: "node_ok N ?n ?fs" using nd(1) w(2) upd(2) lk by (simp add: node_ok_def)
  have "cluster_inv N L (cl(?n := ?fs))"
    by (rule cluster_inv_upd [OF inv n ok]) (use lk nd(2) in auto)
  moreover have "tree N (cl(?n := ?fs)) = (tree N cl)(h \<mapsto> DirObj d')" by (auto simp: tree_def upd(1) fun_eq_iff)
  moreover have "slack N k c' (cl(?n := ?fs))" if s: "slack N k c cl" "length d' + c' \<le> MAX_DIRECTORY_COUNT" "c' \<le> c" for k c c'
  proof (rule slack_upd)
    show "slack N k c' cl" using slack_mono [OF s(1) order_refl s(3)] .
    have ns: "node_slack k c (cl ?n)" using s(1) n by (simp add: slack_def)
    have "length x + c' \<le> MAX_DIRECTORY_COUNT" if "saved ?t' j = Some x" for j x
    proof (cases "j = i")
      case True
      then show ?thesis using that w(3) s(2) by simp
    next
      case False
      then have "length x + c \<le> MAX_DIRECTORY_COUNT" using ns that w(3) by (auto simp: node_slack_def)
      then show ?thesis using s(3) by simp
    qed
    then show "node_slack k c' ?fs" using ns s(3) by (auto simp: node_slack_def)
  qed
  ultimately show thesis by (rule that [OF run])
qed

text \<open>A new object of either kind: its metadata is fresh, so no entry of the index referred to it.\<close>

lemma put_fresh:
  assumes "hash_inv t" and "index_map t h = None" and "card (dom (index_map t)) + Suc k \<le> length (itemsChained t) - 1"
  obtains t' where "HashTable_put t h i b = Some (True, t')" and "hash_inv t'" and "index_map t' = (index_map t)(h \<mapsto> (i, b))"
    and "length (itemsChained t') - 1 = length (itemsChained t) - 1" and "card (dom (index_map t')) = Suc (card (dom (index_map t)))"
proof -
  obtain t' where t': "HashTable_put t h i b = Some (True, t')" "hash_inv t'" "index_map t' = (index_map t)(h \<mapsto> (i, b))"
      "length (itemsChained t') - 1 = length (itemsChained t) - 1"
    using hti.put_spec [OF assms(1), of h "(i, b)"] assms(2,3) by auto
  moreover have "card (dom (index_map t')) = Suc (card (dom (index_map t)))"
    using assms(2) index_finite [OF assms(1)] by (simp add: t'(3) domIff)
  ultimately show thesis using that by blast
qed

lemma create_item_fresh:
  assumes "table_inv t" and "Suc k \<le> length (headFreeBit t)"
  obtains i t' where "Table_create_item t x = Some ((True, Some i), t')" and "table_inv t'" and "saved t i = None"
    and "saved t' = (saved t)(i \<mapsto> x)" and "k \<le> length (headFreeBit t')"
proof -
  obtain i fl where "headFreeBit t = i # fl" using assms(2) by (cases "headFreeBit t") auto
  then show thesis using Table_create_item_ok [OF assms(1), of i fl x] that assms(2) by auto
qed

lemma fresh_file_refs:
  assumes "refs_ok fs" and "index_map (ht fs) h = None" and "saved (files fs) i = None" and "unat (fm_count m) \<le> length (fm_tuple m)"
    and "saved t = (saved (files fs))(i \<mapsto> m)" and "index_map hash = (index_map (ht fs))(h \<mapsto> (i, False))"
  shows "refs_ok (set_ht (set_files fs t) hash)" and "obj_at (set_ht (set_files fs t) hash) = (obj_at fs)(h \<mapsto> FileObj m)"
proof -
  note refs = refs_okD [OF assms(1)]
  have free: "index_map (ht fs) h' \<noteq> Some (i, False)" for h' using refs(2) [of h' i] assms(3) by auto
  show "refs_ok (set_ht (set_files fs t) hash)"
  proof (rule refs_okI)
    show "h1 = h2" if "index_map (ht (set_ht (set_files fs t) hash)) h1 = Some (j, b)"
        "index_map (ht (set_ht (set_files fs t) hash)) h2 = Some (j, b)" for h1 h2 j b
      using that refs(3) [of h1 j b h2] free [of h1] free [of h2] by (auto simp: assms(6) split: if_splits)
  qed (use refs(1,2,4) assms(4) in \<open>auto simp: assms(5,6) split: if_splits\<close>)
  show "obj_at (set_ht (set_files fs t) hash) = (obj_at fs)(h \<mapsto> FileObj m)"
  proof
    fix h'
    show "obj_at (set_ht (set_files fs t) hash) h' = ((obj_at fs)(h \<mapsto> FileObj m)) h'"
      using free [of h'] by (cases "index_map (ht fs) h'") (auto simp: obj_at_def assms(5,6) split: if_splits)
  qed
qed

lemma fresh_dir_refs:
  assumes "refs_ok fs" and "index_map (ht fs) h = None" and "saved (dirs fs) i = None"
    and "saved t = (saved (dirs fs))(i \<mapsto> d)" and "index_map hash = (index_map (ht fs))(h \<mapsto> (i, True))"
  shows "refs_ok (set_ht (set_dirs fs t) hash)" and "obj_at (set_ht (set_dirs fs t) hash) = (obj_at fs)(h \<mapsto> DirObj d)"
proof -
  note refs = refs_okD [OF assms(1)]
  have free: "index_map (ht fs) h' \<noteq> Some (i, True)" for h' using refs(1) [of h' i] assms(3) by auto
  show "refs_ok (set_ht (set_dirs fs t) hash)"
  proof (rule refs_okI)
    show "h1 = h2" if "index_map (ht (set_ht (set_dirs fs t) hash)) h1 = Some (j, b)"
        "index_map (ht (set_ht (set_dirs fs t) hash)) h2 = Some (j, b)" for h1 h2 j b
      using that refs(3) [of h1 j b h2] free [of h1] free [of h2] by (auto simp: assms(5) split: if_splits)
  qed (use refs(1,2,4) in \<open>auto simp: assms(4,5) split: if_splits\<close>)
  show "obj_at (set_ht (set_dirs fs t) hash) = (obj_at fs)(h \<mapsto> DirObj d)"
  proof
    fix h'
    show "obj_at (set_ht (set_dirs fs t) hash) h' = ((obj_at fs)(h \<mapsto> DirObj d)) h'"
      using free [of h'] by (cases "index_map (ht fs) h'") (auto simp: obj_at_def assms(4,5) split: if_splits)
  qed
qed

text \<open>A step that changes one object: the frame that creation and removal share.\<close>

lemma object_step:
  assumes inv: "cluster_inv N L cl" and me: "home N h = me" and ok: "node_ok N me fs" and lk: "lock_at fs = lock_at (cl me)"
    and obj: "obj_at fs = (obj_at (cl me))(h := ob)" and sl: "\<And>k c. P k c \<Longrightarrow> node_slack k c fs"
    and less: "\<And>k c. P k c \<Longrightarrow> slack N k c cl"
  shows "cluster_inv N L (cl(me := fs))" and "tree N (cl(me := fs)) = (tree N cl)(h := ob)"
    and "P k c \<Longrightarrow> slack N k c (cl(me := fs))"
proof -
  have n: "me \<in> {1..N}" using home_range inv me by (auto simp: cluster_inv_def)
  show "cluster_inv N L (cl(me := fs))"
    by (rule cluster_inv_upd [OF inv n ok]) (use lk cluster_invD(2) [OF inv n] in auto)
  show "tree N (cl(me := fs)) = (tree N cl)(h := ob)" using me by (auto simp: tree_def obj fun_eq_iff)
  show "slack N k c (cl(me := fs))" if "P k c" by (rule slack_upd [OF less [OF that] sl [OF that]])
qed

lemma lock_at_put:
  assumes "HashTable_put (ht fs) h i b = Some (r, hash)" and "ht fs' = hash"
  shows "lock_at fs' = lock_at fs"
  using put_locks [OF assms(1)] assms(2) by (simp add: lock_at_def fun_eq_iff)

lemma create_file_ok:
  assumes inv: "cluster_inv N L cl" and me: "home N h = me" and free: "tree N cl h = None" and sl: "slack N (Suc k) c cl"
    and wf: "unat (fm_count m) \<le> length (fm_tuple m)"
  obtains fs where "create_file (cl me) h m = Some (True, fs)" and "cluster_inv N L (cl(me := fs))"
    and "tree N (cl(me := fs)) = (tree N cl)(h \<mapsto> FileObj m)" and "slack N k c (cl(me := fs))"
proof -
  have n: "me \<in> {1..N}" using home_range inv me by (auto simp: cluster_inv_def)
  note nd = cluster_invD(1) [OF inv n]
  have ns: "node_slack (Suc k) c (cl me)" using sl n by (simp add: slack_def)
  have d: "hash_inv (ht (cl me))" "table_inv (files (cl me))" "refs_ok (cl me)" using nd by (simp_all add: node_ok_def)
  have absent: "index_map (ht (cl me)) h = None" by (rule obj_cases [OF nd, of h]) (use free me in \<open>auto simp: tree_def\<close>)
  have room: "Suc k \<le> length (headFreeBit (files (cl me)))"
      "card (dom (index_map (ht (cl me)))) + Suc k \<le> length (itemsChained (ht (cl me))) - 1"
    using ns by (simp_all add: node_slack_def)
  obtain i t where t: "Table_create_item (files (cl me)) m = Some ((True, Some i), t)" "table_inv t" "saved (files (cl me)) i = None"
      "saved t = (saved (files (cl me)))(i \<mapsto> m)" "k \<le> length (headFreeBit t)"
    by (rule create_item_fresh [OF d(2) room(1)])
  obtain hash where p: "HashTable_put (ht (cl me)) h i False = Some (True, hash)" "hash_inv hash"
      "index_map hash = (index_map (ht (cl me)))(h \<mapsto> (i, False))"
      "length (itemsChained hash) - 1 = length (itemsChained (ht (cl me))) - 1"
      "card (dom (index_map hash)) = Suc (card (dom (index_map (ht (cl me)))))"
    by (rule put_fresh [OF d(1) absent room(2)])
  define fs where "fs = set_ht (set_files (cl me) t) hash"
  note new = fresh_file_refs [OF d(3) absent t(3) wf t(4) p(3), folded fs_def]
  have lk: "lock_at fs = lock_at (cl me)" by (rule lock_at_put [OF p(1)]) (simp add: fs_def)
  have ok: "node_ok N me fs" using nd new(1) lk t(2) p(2) by (simp add: node_ok_def fs_def)
  have ns': "node_slack k c fs" using ns t(5) p(4,5) by (simp add: node_slack_def fs_def)
  have run: "create_file (cl me) h m = Some (True, fs)" by (simp add: create_file_def t(1) p(1) fs_def)
  note step = object_step [where P = "\<lambda>k' c'. k' = k \<and> c' = c", OF inv me ok lk new(2)]
  show thesis
    by (rule that [OF run]; rule step) (use ns' slack_mono [OF sl, of k c] in auto)
qed

lemma create_dir_ok:
  assumes inv: "cluster_inv N L cl" and me: "home N h = me" and free: "tree N cl h = None" and sl: "slack N (Suc k) c cl"
  obtains fs where "create_dir (cl me) h [] = Some (True, fs)" and "cluster_inv N L (cl(me := fs))"
    and "tree N (cl(me := fs)) = (tree N cl)(h \<mapsto> DirObj [])" and "slack N k c (cl(me := fs))"
proof -
  have n: "me \<in> {1..N}" using home_range inv me by (auto simp: cluster_inv_def)
  note nd = cluster_invD(1) [OF inv n]
  have ns: "node_slack (Suc k) c (cl me)" using sl n by (simp add: slack_def)
  have d: "hash_inv (ht (cl me))" "table_inv (dirs (cl me))" "refs_ok (cl me)" using nd by (simp_all add: node_ok_def)
  have absent: "index_map (ht (cl me)) h = None" by (rule obj_cases [OF nd, of h]) (use free me in \<open>auto simp: tree_def\<close>)
  have room: "Suc k \<le> length (headFreeBit (dirs (cl me)))"
      "card (dom (index_map (ht (cl me)))) + Suc k \<le> length (itemsChained (ht (cl me))) - 1"
    using ns by (simp_all add: node_slack_def)
  obtain i t where t: "Table_create_item (dirs (cl me)) [] = Some ((True, Some i), t)" "table_inv t" "saved (dirs (cl me)) i = None"
      "saved t = (saved (dirs (cl me)))(i \<mapsto> [])" "k \<le> length (headFreeBit t)"
    by (rule create_item_fresh [OF d(2) room(1)])
  obtain hash where p: "HashTable_put (ht (cl me)) h i True = Some (True, hash)" "hash_inv hash"
      "index_map hash = (index_map (ht (cl me)))(h \<mapsto> (i, True))"
      "length (itemsChained hash) - 1 = length (itemsChained (ht (cl me))) - 1"
      "card (dom (index_map hash)) = Suc (card (dom (index_map (ht (cl me)))))"
    by (rule put_fresh [OF d(1) absent room(2)])
  define fs where "fs = set_ht (set_dirs (cl me) t) hash"
  note new = fresh_dir_refs [OF d(3) absent t(3) t(4) p(3), folded fs_def]
  have lk: "lock_at fs = lock_at (cl me)" by (rule lock_at_put [OF p(1)]) (simp add: fs_def)
  have ok: "node_ok N me fs" using nd new(1) lk t(2) p(2) by (simp add: node_ok_def fs_def)
  have ns': "node_slack k c fs" using ns t(4,5) p(4,5) by (auto simp: node_slack_def fs_def split: if_splits)
  have run: "create_dir (cl me) h [] = Some (True, fs)" by (simp add: create_dir_def t(1) p(1) fs_def)
  note step = object_step [where P = "\<lambda>k' c'. k' = k \<and> c' = c", OF inv me ok lk new(2)]
  show thesis
    by (rule that [OF run]; rule step) (use ns' slack_mono [OF sl, of k c] in auto)
qed

text \<open>An object that goes: its entry and its metadata, which no other entry refers to.\<close>

lemma gone_file_refs:
  assumes "refs_ok fs" and "index_map (ht fs) h = Some (i, False)"
    and "saved t = (saved (files fs))(i := None)" and "index_map hash = (index_map (ht fs))(h := None)"
  shows "refs_ok (set_ht (set_files fs t) hash)" and "obj_at (set_ht (set_files fs t) hash) = (obj_at fs)(h := None)"
proof -
  note refs = refs_okD [OF assms(1)]
  have mine: "h' = h" if "index_map (ht fs) h' = Some (i, False)" for h' using refs(3) [OF that assms(2)] .
  show "refs_ok (set_ht (set_files fs t) hash)"
  proof (rule refs_okI)
    show "h1 = h2" if "index_map (ht (set_ht (set_files fs t) hash)) h1 = Some (j, b)"
        "index_map (ht (set_ht (set_files fs t) hash)) h2 = Some (j, b)" for h1 h2 j b
      using that refs(3) [of h1 j b h2] by (auto simp: assms(4) split: if_splits)
  qed (use refs(1,2,4) mine in \<open>auto simp: assms(3,4) split: if_splits\<close>)
  show "obj_at (set_ht (set_files fs t) hash) = (obj_at fs)(h := None)"
  proof
    fix h'
    show "obj_at (set_ht (set_files fs t) hash) h' = ((obj_at fs)(h := None)) h'"
      using mine [of h'] by (cases "index_map (ht fs) h'") (auto simp: obj_at_def assms(3,4) split: if_splits)
  qed
qed

lemma gone_dir_refs:
  assumes "refs_ok fs" and "index_map (ht fs) h = Some (i, True)"
    and "saved t = (saved (dirs fs))(i := None)" and "index_map hash = (index_map (ht fs))(h := None)"
  shows "refs_ok (set_ht (set_dirs fs t) hash)" and "obj_at (set_ht (set_dirs fs t) hash) = (obj_at fs)(h := None)"
proof -
  note refs = refs_okD [OF assms(1)]
  have mine: "h' = h" if "index_map (ht fs) h' = Some (i, True)" for h' using refs(3) [OF that assms(2)] .
  show "refs_ok (set_ht (set_dirs fs t) hash)"
  proof (rule refs_okI)
    show "h1 = h2" if "index_map (ht (set_ht (set_dirs fs t) hash)) h1 = Some (j, b)"
        "index_map (ht (set_ht (set_dirs fs t) hash)) h2 = Some (j, b)" for h1 h2 j b
      using that refs(3) [of h1 j b h2] by (auto simp: assms(4) split: if_splits)
  qed (use refs(1,2,4) mine in \<open>auto simp: assms(3,4) split: if_splits\<close>)
  show "obj_at (set_ht (set_dirs fs t) hash) = (obj_at fs)(h := None)"
  proof
    fix h'
    show "obj_at (set_ht (set_dirs fs t) hash) h' = ((obj_at fs)(h := None)) h'"
      using mine [of h'] by (cases "index_map (ht fs) h'") (auto simp: obj_at_def assms(3,4) split: if_splits)
  qed
qed

lemma del_present_ok:
  assumes "hash_inv t" and "index_map t h = Some e"
  obtains t' where "HashTable_del t h = Some (True, t')" and "hash_inv t'" and "index_map t' = (index_map t)(h := None)"
    and "length (itemsChained t') - 1 = length (itemsChained t) - 1" and "card (dom (index_map t')) \<le> card (dom (index_map t))"
proof -
  obtain t' where t': "HashTable_del t h = Some (\<exists>k \<in> dom (index_map t). getAddressHash k = getAddressHash h, t')" "hash_inv t'"
      "length (itemsChained t') - 1 = length (itemsChained t) - 1" "index_map t' = (index_map t)(h := None)"
    using hti.del_spec [OF assms(1), of h] by blast
  have "HashTable_del t h = Some (True, t')" using t'(1) assms(2) by auto
  moreover have "card (dom (index_map t')) \<le> card (dom (index_map t))"
    by (rule card_mono [OF index_finite [OF assms(1)]]) (auto simp: t'(4))
  ultimately show thesis using that t' by blast
qed

lemma lock_at_del:
  assumes "HashTable_del (ht fs) h = Some (r, hash)" and "ht fs' = hash"
  shows "lock_at fs' = lock_at fs"
  using del_locks [OF assms(1)] assms(2) by (simp add: lock_at_def fun_eq_iff)

lemma free_blocks_ok: "table_inv t \<Longrightarrow> \<exists>t'. free_blocks t s js = Some t' \<and> table_inv t'"
proof (induction js arbitrary: t)
  case (Cons j js)
  obtain t' where "Table_remove t (unat (s + word_of_int j)) = Some (saved t (unat (s + word_of_int j)) \<noteq> None, t')" "table_inv t'"
    by (rule Table_remove_ok [OF Cons.prems])
  then show ?case using Cons.IH [of t'] by simp
qed simp

lemma free_extents_ok: "table_inv t \<Longrightarrow> n \<le> length es \<Longrightarrow> \<exists>t'. free_extents t node es n = Some t' \<and> table_inv t'"
proof (induction t node es n rule: free_extents.induct)
  case (3 t node e es n)
  obtain t' where t': "free_blocks t (indexExtentStartBlock e) (rev [0..sint (countExtentBlock e) - 1]) = Some t'" "table_inv t'"
    using free_blocks_ok [OF 3(2)] by blast
  then show ?case using 3 by auto
qed simp_all

lemma remove_file_items_ok:
  assumes inv: "cluster_inv N L cl" and me: "home N h = me" and h: "index_map (ht (cl me)) h = Some (i, False)" "saved (files (cl me)) i = Some m"
    and b: "table_inv b"
  obtains fs where "remove_file_items (set_blocks (cl me) b) h i = Some (True, fs)" and "cluster_inv N L (cl(me := fs))"
    and "tree N (cl(me := fs)) = (tree N cl)(h := None)" and "\<And>k c. slack N k c cl \<Longrightarrow> slack N k c (cl(me := fs))"
proof -
  have n: "me \<in> {1..N}" using home_range inv me by (auto simp: cluster_inv_def)
  note nd = cluster_invD(1) [OF inv n]
  have d: "hash_inv (ht (cl me))" "table_inv (files (cl me))" "refs_ok (cl me)" using nd by (simp_all add: node_ok_def)
  obtain t where t: "Table_remove (files (cl me)) i = Some (saved (files (cl me)) i \<noteq> None, t)" "table_inv t"
      "saved t = (saved (files (cl me)))(i := None)"
      "headFreeBit t = (if saved (files (cl me)) i = None then headFreeBit (files (cl me)) else i # headFreeBit (files (cl me)))"
    by (rule Table_remove_ok [OF d(2)])
  obtain hash where p: "HashTable_del (ht (cl me)) h = Some (True, hash)" "hash_inv hash"
      "index_map hash = (index_map (ht (cl me)))(h := None)" "length (itemsChained hash) - 1 = length (itemsChained (ht (cl me))) - 1"
      "card (dom (index_map hash)) \<le> card (dom (index_map (ht (cl me))))"
    by (rule del_present_ok [OF d(1) h(1)])
  define fs where "fs = set_ht (set_files (set_blocks (cl me) b) t) hash"
  have "refs_ok (set_blocks (cl me) b)" using d(3) by (simp add: refs_ok_def)
  note new = gone_file_refs [OF this, of h i t hash]
  have new1: "refs_ok fs" using new(1) h(1) t(3) p(3) by (simp add: fs_def)
  have "obj_at (set_blocks (cl me) b) = obj_at (cl me)" by (intro ext) (simp add: obj_at_def split: option.splits)
  then have new2: "obj_at fs = (obj_at (cl me))(h := None)" using new(2) h(1) t(3) p(3) by (simp add: fs_def)
  have lk: "lock_at fs = lock_at (cl me)" by (rule lock_at_del [OF p(1)]) (simp add: fs_def)
  have ok: "node_ok N me fs" using nd new1 lk t(2) p(2) b by (simp add: node_ok_def fs_def)
  have ns': "node_slack k c fs" if "slack N k c cl" for k c
  proof -
    have "node_slack k c (cl me)" using that n by (simp add: slack_def)
    then show ?thesis using t(4) p(4,5) by (auto simp: node_slack_def fs_def)
  qed
  have run: "remove_file_items (set_blocks (cl me) b) h i = Some (True, fs)"
    using h(2) by (simp add: remove_file_items_def t(1) p(1) fs_def)
  note step = object_step [where P = "\<lambda>k c. slack N k c cl", OF inv me ok lk new2]
  show thesis by (rule that [OF run]; rule step) (use ns' in auto)
qed

lemma remove_dir_items_ok:
  assumes inv: "cluster_inv N L cl" and me: "home N h = me" and h: "index_map (ht (cl me)) h = Some (i, True)" "saved (dirs (cl me)) i = Some d"
  obtains fs where "remove_dir_items (cl me) h i = Some (True, fs)" and "cluster_inv N L (cl(me := fs))"
    and "tree N (cl(me := fs)) = (tree N cl)(h := None)" and "\<And>k c. slack N k c cl \<Longrightarrow> slack N k c (cl(me := fs))"
proof -
  have n: "me \<in> {1..N}" using home_range inv me by (auto simp: cluster_inv_def)
  note nd = cluster_invD(1) [OF inv n]
  have d: "hash_inv (ht (cl me))" "table_inv (dirs (cl me))" "refs_ok (cl me)" using nd by (simp_all add: node_ok_def)
  obtain t where t: "Table_remove (dirs (cl me)) i = Some (saved (dirs (cl me)) i \<noteq> None, t)" "table_inv t"
      "saved t = (saved (dirs (cl me)))(i := None)"
      "headFreeBit t = (if saved (dirs (cl me)) i = None then headFreeBit (dirs (cl me)) else i # headFreeBit (dirs (cl me)))"
    by (rule Table_remove_ok [OF d(2)])
  obtain hash where p: "HashTable_del (ht (cl me)) h = Some (True, hash)" "hash_inv hash"
      "index_map hash = (index_map (ht (cl me)))(h := None)" "length (itemsChained hash) - 1 = length (itemsChained (ht (cl me))) - 1"
      "card (dom (index_map hash)) \<le> card (dom (index_map (ht (cl me))))"
    by (rule del_present_ok [OF d(1) h(1)])
  define fs where "fs = set_ht (set_dirs (cl me) t) hash"
  note new = gone_dir_refs [OF d(3) h(1) t(3) p(3), folded fs_def]
  have lk: "lock_at fs = lock_at (cl me)" by (rule lock_at_del [OF p(1)]) (simp add: fs_def)
  have ok: "node_ok N me fs" using nd new(1) lk t(2) p(2) by (simp add: node_ok_def fs_def)
  have ns': "node_slack k c fs" if "slack N k c cl" for k c
  proof -
    have "node_slack k c (cl me)" using that n by (simp add: slack_def)
    then show ?thesis using t(3,4) p(4,5) by (auto simp: node_slack_def fs_def split: if_splits)
  qed
  have run: "remove_dir_items (cl me) h i = Some (True, fs)" using h(2) by (simp add: remove_dir_items_def t(1) p(1) fs_def)
  note step = object_step [where P = "\<lambda>k c. slack N k c cl", OF inv me ok lk new(2)]
  show thesis by (rule that [OF run]; rule step) (use ns' in auto)
qed

end
