(* ===== verification/OctoRefine.thy ===== *)
theory OctoRefine
  imports OctoTree
begin

text \<open>
  The operations of the Octopus file system refine a tree of names. \<open>st N L T k cl\<close> says that the cluster is consistent, represents the
  tree \<open>T\<close>, holds at most the locks \<open>L\<close>, and has room for \<open>k\<close> more items. Each step of an operation
  takes such a state to another; the lemmas on the operations chain the steps.
\<close>

section \<open>Steps\<close>

definition st :: "nat \<Rightarrow> (nat \<times> nat) set \<Rightarrow> (UniqueHash \<Rightarrow> obj option) \<Rightarrow> nat \<Rightarrow> cluster \<Rightarrow> bool" where
  "st N L T k cl \<longleftrightarrow> cluster_inv N L cl \<and> tree N cl = T \<and> slack N k 0 cl"

lemma st_mono: "st N L T k cl \<Longrightarrow> j \<le> k \<Longrightarrow> st N L T j cl"
  by (auto simp: st_def intro: slack_mono)

lemma st_lock:
  assumes "st N L T k cl" and "me \<in> {1..N}" and "(me, a) \<notin> L"
  shows "\<exists>key cl'. on_node cl me (\<lambda>fs. lockWriteHashItem fs n a) = Some (key, cl') \<and> st N (insert (me, a) L) T k cl'"
proof -
  obtain key fs where "lockWriteHashItem (cl me) n a = Some (key, fs)" "cluster_inv N (insert (me, a) L) (cl(me := fs))"
      "tree N (cl(me := fs)) = tree N cl" "\<And>k. slack N k 0 cl \<Longrightarrow> slack N k 0 (cl(me := fs))"
    using lock_ok [OF _ assms(2,3)] assms(1) unfolding st_def by metis
  then show ?thesis using assms(1) by (simp add: on_node_def st_def)
qed

lemma st_unlock:
  assumes "st N (insert (me, a) L) T k cl" and "me \<in> {1..N}"
  shows "st N L T k (cl(me := unlockWriteHashItem (cl me) a))"
proof -
  have inv: "cluster_inv N (insert (me, a) L) cl" using assms(1) by (simp add: st_def)
  show ?thesis using assms(1) unlock_ok [OF inv assms(2)] by (simp add: st_def)
qed

text \<open>Steps that change the log only; they also keep where a directory is stored.\<close>

lemma same_store_answer:
  assumes "same_store (cl me) fs"
  shows "dir_answer N (cl(me := fs)) = dir_answer N cl"
proof -
  have ht: "ht ((cl(me := fs)) n) = ht (cl n)" for n using assms by (simp add: same_store_def)
  have "tree N (cl(me := fs)) = tree N cl" by (rule tree_upd_same) (simp add: same_store_keeps [OF assms])
  then show ?thesis unfolding dir_answer_def ht by simp
qed

lemma st_same_store:
  assumes "st N L T k cl" and "me \<in> {1..N}" and "same_store (cl me) fs"
  shows "st N L T k (cl(me := fs))" and "dir_answer N (cl(me := fs)) = dir_answer N cl"
proof -
  have inv: "cluster_inv N L cl" using assms(1) by (simp add: st_def)
  note same = same_store_cluster [where cl = cl and me = me, OF assms(3) inv assms(2)]
  show "st N L T k (cl(me := fs))" using assms(1) same by (simp add: st_def)
  show "dir_answer N (cl(me := fs)) = dir_answer N cl" by (rule same_store_answer) (rule assms(3))
qed

lemma st_begin:
  assumes "st N L T k cl" and "me \<in> {1..N}"
  shows "\<exists>n cl'. on_node cl me fs_TxLocalBegin = Some (n, cl') \<and> st N L T k cl'"
  using begin_ok [of "cl me"] st_same_store(1) [OF assms] by (auto simp: on_node_def)

lemma st_write:
  assumes "st N L T k cl" and "me \<in> {1..N}" and "data_size d \<le> 4086"
  shows "\<exists>cl'. on_node' cl me (\<lambda>fs. fs_TxWriteData fs n d) = Some cl' \<and> st N L T k cl' \<and> dir_answer N cl' = dir_answer N cl"
  using write_ok [OF assms(3), of "cl me" n] st_same_store [OF assms(1,2)] by (auto simp: on_node'_def)

lemma st_commit:
  assumes "st N L T k cl" and "me \<in> {1..N}"
  shows "\<exists>cl'. on_node' cl me (\<lambda>fs. fs_TxLocalCommit fs n b) = Some cl' \<and> st N L T k cl'"
  using commit_ok [of "cl me" n b] st_same_store(1) [OF assms] by (auto simp: on_node'_def)

text \<open>The common end of the operations: commit, then unlock.\<close>

lemma st_end:
  assumes "st N (insert (me, a) L) T k cl" and "me \<in> {1..N}"
  obtains cl1 where "on_node' cl me (\<lambda>fs. fs_TxLocalCommit fs n b) = Some cl1"
    and "st N L T k (cl1(me := unlockWriteHashItem (cl1 me) a))"
  using st_commit [OF assms, of n b] st_unlock assms(2) by blast

lemma st_get:
  assumes "st N L T k cl" and "home N h = me"
  shows "HashTable_get (ht (cl me)) h = Some (index_map (ht (cl me)) h)" and "index_map (ht (cl me)) h = None \<longleftrightarrow> T h = None"
proof -
  have inv: "cluster_inv N L cl" and T: "tree N cl = T" using assms(1) by (simp_all add: st_def)
  have "me \<in> {1..N}" using home_range assms(2) inv by (auto simp: cluster_inv_def)
  note nd = cluster_invD(1) [OF inv this]
  show "HashTable_get (ht (cl me)) h = Some (index_map (ht (cl me)) h)" by (rule node_okD(1) [OF nd])
  show "index_map (ht (cl me)) h = None \<longleftrightarrow> T h = None"
    by (rule obj_cases [OF nd, of h]) (use T assms(2) in \<open>auto simp: tree_def\<close>)
qed

lemma dir_answer_cases:
  assumes "st N L T k cl"
  shows "dir_answer N cl h = None \<longleftrightarrow> (\<nexists>d. T h = Some (DirObj d))"
    and "dir_answer N cl h = Some (d, a, i, n) \<Longrightarrow> T h = Some (DirObj d) \<and> n = home N h \<and>
      index_map (ht (cl n)) h = Some (i, True) \<and> saved (dirs (cl n)) i = Some d"
proof -
  have inv: "cluster_inv N L cl" and T: "tree N cl = T" using assms by (simp_all add: st_def)
  have "home N h \<in> {1..N}" using home_range inv by (auto simp: cluster_inv_def)
  note nd = cluster_invD(1) [OF inv this]
  show "dir_answer N cl h = None \<longleftrightarrow> (\<nexists>d. T h = Some (DirObj d))"
    by (rule obj_cases [OF nd, of h]) (use T in \<open>auto simp: dir_answer_def tree_def\<close>)
  show "T h = Some (DirObj d) \<and> n = home N h \<and> index_map (ht (cl n)) h = Some (i, True) \<and> saved (dirs (cl n)) i = Some d"
    if "dir_answer N cl h = Some (d, a, i, n)"
    by (rule obj_cases [OF nd, of h]) (use T that in \<open>auto simp: dir_answer_def tree_def\<close>)
qed

lemma st_remote:
  assumes "st N L T k cl" and "dir_answer N cl h = Some (d, a, i, n)" and "length d' \<le> MAX_DIRECTORY_COUNT"
  shows "\<exists>cl'. updateRemoteMeta cl n d' i = Some cl' \<and> st N L (T(h \<mapsto> DirObj d')) k cl'"
proof -
  have inv: "cluster_inv N L cl" using assms(1) by (simp add: st_def)
  note ans = dir_answer_cases(2) [OF assms(1,2)]
  obtain cl' where "updateRemoteMeta cl (home N h) d' i = Some cl'" "cluster_inv N L cl'" "tree N cl' = (tree N cl)(h \<mapsto> DirObj d')"
      "slack N k 0 cl \<Longrightarrow> length d' + 0 \<le> MAX_DIRECTORY_COUNT \<Longrightarrow> 0 \<le> (0::nat) \<Longrightarrow> slack N k 0 cl'"
    using updateRemoteMeta_ok [OF inv, of h i d d'] ans by metis
  then show ?thesis using assms ans by (auto simp: st_def)
qed

lemma st_read:
  assumes "st N L T k cl" and "me \<in> {1..N}" and "strlen path < MAX_PATH_LENGTH"
    and "(home N (path_hash sha256 path), address_of sha256 path) \<notin> L"
  shows "readDirectoryMeta sha256 cl me path = Some (dir_answer N cl (path_hash sha256 path), cl)"
  by (rule readDirectoryMeta_ok [OF _ assms(2-4)]) (use assms(1) in \<open>simp add: st_def\<close>)

lemma st_dir_bound:
  assumes "st N L T k cl" and "T h = Some (DirObj d)"
  shows "length d \<le> MAX_DIRECTORY_COUNT"
proof -
  have inv: "cluster_inv N L cl" and T: "tree N cl = T" and sl: "slack N k 0 cl" using assms(1) by (simp_all add: st_def)
  have n: "home N h \<in> {1..N}" using home_range inv by (auto simp: cluster_inv_def)
  have "node_slack k 0 (cl (home N h))" using sl n by (simp add: slack_def)
  moreover have "\<exists>i. saved (dirs (cl (home N h))) i = Some d"
    by (rule obj_cases [OF cluster_invD(1) [OF inv n], of h]) (use T assms(2) in \<open>auto simp: tree_def\<close>)
  ultimately show ?thesis by (auto simp: node_slack_def)
qed

section \<open>The operations\<close>

text \<open>Paths an operation handles without waiting for itself or overrunning a buffer: the name and the path of the directory are short
  enough, and the hash items of the path and of its directory are different.\<close>

definition parent_of :: "u8 list \<Rightarrow> u8 list" where
  "parent_of path = snd (getParentDirectory path)"

definition path_ok :: "digest \<Rightarrow> nat \<Rightarrow> u8 list \<Rightarrow> bool" where
  "path_ok sha256 N path \<longleftrightarrow> strlen (parent_of path) < MAX_PATH_LENGTH \<and>
     (case snd (getNameFromPath path) of None \<Rightarrow> False | Some s \<Rightarrow> strlen s < MAX_FILE_NAME_LENGTH) \<and>
     (home N (path_hash sha256 (parent_of path)), address_of sha256 (parent_of path)) \<noteq>
     (home N (path_hash sha256 path), address_of sha256 path)"

definition name_of :: "u8 list \<Rightarrow> u8 list" where
  "name_of path = c_str (the (snd (getNameFromPath path)))"

lemma path_okD:
  assumes "path_ok sha256 N path"
  obtains s where "snd (getNameFromPath path) = Some s" and "strlen s < MAX_FILE_NAME_LENGTH" and "c_str s = name_of path"
    and "strlen (parent_of path) < MAX_PATH_LENGTH" and "path_hash sha256 (parent_of path) \<noteq> path_hash sha256 path"
    and "(home N (path_hash sha256 (parent_of path)), address_of sha256 (parent_of path)) \<notin>
      {(home N (path_hash sha256 path), address_of sha256 path)}"
proof -
  have ne: "path_hash sha256 (parent_of path) \<noteq> path_hash sha256 path" using assms by (auto simp: path_ok_def address_of_def)
  show thesis using assms ne that by (auto simp: path_ok_def name_of_def split: option.splits)
qed

text \<open>Creating an object in a tree: the directory must exist and the path must not.\<close>

definition spec_create :: "obj \<Rightarrow> DirectoryMetaTuple \<Rightarrow> (UniqueHash \<Rightarrow> obj option) \<Rightarrow> UniqueHash \<Rightarrow> UniqueHash \<Rightarrow>
    bool \<times> (UniqueHash \<Rightarrow> obj option)" where
  "spec_create ob e T ph h = (case T ph of
     Some (DirObj d) \<Rightarrow> if T h = None then (True, T(ph \<mapsto> DirObj (d @ [e]), h \<mapsto> ob)) else (False, T)
   | _ \<Rightarrow> (False, T))"

text \<open>What creating the metadata of an object does to a state without that object.\<close>

definition creates :: "(FileSystem \<Rightarrow> UniqueHash \<Rightarrow> (bool \<times> FileSystem) option) \<Rightarrow> obj \<Rightarrow> bool" where
  "creates create ob \<longleftrightarrow> (\<forall>N L T k cl h me. st N L T (Suc k) cl \<longrightarrow> home N h = me \<longrightarrow> T h = None \<longrightarrow>
     (\<exists>cl'. on_node cl me (\<lambda>fs. create fs h) = Some (True, cl') \<and> st N L (T(h \<mapsto> ob)) k cl'))"

definition has_room :: "(UniqueHash \<Rightarrow> obj option) \<Rightarrow> UniqueHash \<Rightarrow> bool" where
  "has_room T ph = (case T ph of Some (DirObj d) \<Rightarrow> length d < MAX_DIRECTORY_COUNT | _ \<Rightarrow> True)"

lemmas createsD = creates_def [THEN iffD1, rule_format]

lemma create_in_parent_ok:
  assumes s: "st N L T (Suc k) cl" and me: "home N h = me" and n: "me \<in> {1..N}" and ph: "ph \<noteq> h"
    and nm: "strlen nm < MAX_FILE_NAME_LENGTH" and cr: "creates create ob"
    and room: "has_room T ph"
  shows "\<exists>r T' cl'. create_in_parent cl me h (Some nm) flag create tx (dir_answer N cl ph) = Some (r, cl') \<and> st N L T' k cl' \<and>
    spec_create ob \<lparr>names = c_str nm, isDirectories = flag\<rparr> T ph h = (r, T')"
proof -
  note get = st_get [OF s me] and ans = dir_answer_cases [OF s, of ph]
  have keep: "st N L T k cl" using st_mono [OF s] by simp
  show ?thesis
  proof (cases "dir_answer N cl ph")
    case None
    then show ?thesis using ans(1) keep by (auto simp: create_in_parent_def spec_create_def split: option.splits obj.splits)
  next
    case (Some q)
    obtain d a i nn where q: "q = (d, a, i, nn)" by (metis prod_cases4)
    note A = ans(2) [OF Some [unfolded q]]
    show ?thesis
    proof (cases "T h")
      case (Some ob')
      then show ?thesis using \<open>dir_answer N cl ph = Some q\<close> q get A keep by (auto simp: create_in_parent_def spec_create_def)
    next
      case None
      let ?d = "d @ [\<lparr>names = c_str nm, isDirectories = flag\<rparr>]"
      have add: "add_entry d (Some nm) flag = Some ?d" using room A nm by (simp add: has_room_def add_entry_def strcpy_into_def)
      obtain cl1 where 1: "on_node' cl me (\<lambda>fs. fs_TxWriteData fs tx (Log_dir ?d)) = Some cl1"
          "st N L T (Suc k) cl1" "dir_answer N cl1 = dir_answer N cl"
        using st_write [OF s n, of "Log_dir ?d" tx] by (auto simp: data_size_def)
      obtain cl2 where 2: "updateRemoteMeta cl1 nn ?d i = Some cl2" "st N L (T(ph \<mapsto> DirObj ?d)) (Suc k) cl2"
        using st_remote [OF 1(2), of ph d a i nn ?d] 1(3) Some q room A by (auto simp: has_room_def)
      obtain cl3 where 3: "on_node cl2 me (\<lambda>fs. create fs h) = Some (True, cl3)" "st N L (T(ph \<mapsto> DirObj ?d, h \<mapsto> ob)) k cl3"
        using createsD [OF cr 2(2) me] None ph by auto
      have "create_in_parent cl me h (Some nm) flag create tx (dir_answer N cl ph) = Some (True, cl3)"
        using None get by (simp add: create_in_parent_def Some q add 1(1) 2(1) 3(1))
      then show ?thesis using 3(2) A None by (auto simp: spec_create_def)
    qed
  qed
qed

lemma create_entry_ok:
  assumes s: "st N {} T (Suc k) cl" and p: "path_ok sha256 N path" and me: "home N (path_hash sha256 path) = me"
    and cr: "creates create ob" and room: "has_room T (path_hash sha256 (parent_of path))"
  shows "\<exists>r T' cl'. create_entry sha256 cl me path flag create = Some (r, cl') \<and> st N {} T' k cl' \<and>
    spec_create ob \<lparr>names = name_of path, isDirectories = flag\<rparr> T (path_hash sha256 (parent_of path)) (path_hash sha256 path) = (r, T')"
proof -
  let ?a = "address_of sha256 path" and ?h = "path_hash sha256 path" and ?ph = "path_hash sha256 (parent_of path)"
  obtain nm where nm: "snd (getNameFromPath path) = Some nm" "strlen nm < MAX_FILE_NAME_LENGTH" "c_str nm = name_of path"
      "strlen (parent_of path) < MAX_PATH_LENGTH" "?ph \<noteq> ?h" "(home N ?ph, address_of sha256 (parent_of path)) \<notin> {(me, ?a)}"
    using p me by (auto elim!: path_okD)
  have inv: "cluster_inv N {} cl" using s by (simp add: st_def)
  have n: "me \<in> {1..N}" using home_range inv me by (auto simp: cluster_inv_def)
  note nd = cluster_invD(1) [OF inv n]
  have local: "checkLocal (cl me) (node_of sha256 (cl me) path)" using me by (simp add: node_of_home [OF nd] node_okD(5) [OF nd])
  obtain key cl1 where 1: "on_node cl me (\<lambda>fs. lockWriteHashItem fs (node_of sha256 (cl me) path) ?a) = Some (key, cl1)"
      "st N {(me, ?a)} T (Suc k) cl1" using st_lock [OF s n, of ?a] by blast
  obtain tx cl2 where 2: "on_node cl1 me fs_TxLocalBegin = Some (tx, cl2)" "st N {(me, ?a)} T (Suc k) cl2"
    using st_begin [OF 1(2) n] by blast
  have 3: "readDirectoryMeta sha256 cl2 me (snd (getParentDirectory path)) = Some (dir_answer N cl2 ?ph, cl2)"
    using st_read [OF 2(2) n nm(4), of sha256] nm(6) by (simp add: parent_of_def)
  obtain r T' cl3 where 4: "create_in_parent cl2 me ?h (Some nm) flag create tx (dir_answer N cl2 ?ph) = Some (r, cl3)"
      "st N {(me, ?a)} T' k cl3" "spec_create ob \<lparr>names = name_of path, isDirectories = flag\<rparr> T ?ph ?h = (r, T')"
    using create_in_parent_ok [OF 2(2) me n nm(5,2) cr room, of flag tx] unfolding nm(3) by blast
  obtain cl4 where 5: "on_node' cl3 me (\<lambda>fs. fs_TxLocalCommit fs tx r) = Some cl4"
      "st N {} T' k (cl4(me := unlockWriteHashItem (cl4 me) ?a))" by (rule st_end [OF 4(2) n])
  have "create_entry sha256 cl me path flag create = Some (r, cl4(me := unlockWriteHashItem (cl4 me) ?a))"
    using local by (simp add: create_entry_def Let_def 1(1) 2(1) 3 nm(1) 4(1) 5(1))
  then show ?thesis using 5(2) 4(3) by blast
qed

lemma creates_file:
  assumes wf: "unat (fm_count m) \<le> length (fm_tuple m)"
  shows "creates (\<lambda>fs h. create_file fs h m) (FileObj m)"
proof (unfold creates_def, intro allI impI)
  fix N L T k cl h me
  assume s: "st N L T (Suc k) cl" and me: "home N h = me" and free: "T h = None"
  have inv: "cluster_inv N L cl" and T: "tree N cl = T" and sl: "slack N (Suc k) 0 cl" using s by (simp_all add: st_def)
  show "\<exists>cl'. on_node cl me (\<lambda>fs. create_file fs h m) = Some (True, cl') \<and> st N L (T(h \<mapsto> FileObj m)) k cl'"
    by (rule create_file_ok [OF inv me _ sl wf]) (use free T in \<open>simp_all add: on_node_def st_def\<close>)
qed

lemma creates_dir: "creates (\<lambda>fs h. create_dir fs h []) (DirObj [])"
proof (unfold creates_def, intro allI impI)
  fix N L T k cl h me
  assume s: "st N L T (Suc k) cl" and me: "home N h = me" and free: "T h = None"
  have inv: "cluster_inv N L cl" and T: "tree N cl = T" and sl: "slack N (Suc k) 0 cl" using s by (simp_all add: st_def)
  show "\<exists>cl'. on_node cl me (\<lambda>fs. create_dir fs h []) = Some (True, cl') \<and> st N L (T(h \<mapsto> DirObj [])) k cl'"
    by (rule create_dir_ok [OF inv me _ sl]) (use free T in \<open>simp_all add: on_node_def st_def\<close>)
qed

text \<open>Removing an object: it must exist, be no directory with entries, and its parent must be a directory.\<close>

definition spec_remove :: "u8 list \<Rightarrow> (UniqueHash \<Rightarrow> obj option) \<Rightarrow> UniqueHash \<Rightarrow> UniqueHash \<Rightarrow> bool \<times> (UniqueHash \<Rightarrow> obj option)" where
  "spec_remove name T ph h = (case (T h, T ph) of
     (Some ob, Some (DirObj d)) \<Rightarrow>
       if (case ob of DirObj es \<Rightarrow> es = [] | FileObj m \<Rightarrow> True) then (True, (T(ph \<mapsto> DirObj (drop_entries d name)))(h := None)) else (False, T)
   | _ \<Rightarrow> (False, T))"

text \<open>The steps before the removal of the metadata keep the index.\<close>

lemma begin_index: "on_node cl me fs_TxLocalBegin = Some (tx, cl') \<Longrightarrow> ht (cl' n) = ht (cl n)"
  using begin_ok [of "cl me"] by (auto simp: on_node_def same_store_def)

lemma write_index: "data_size d \<le> 4086 \<Longrightarrow> on_node' cl me (\<lambda>fs. fs_TxWriteData fs tx d) = Some cl' \<Longrightarrow> ht (cl' n) = ht (cl n)"
  using write_ok [of d "cl me" tx] by (auto simp: on_node'_def same_store_def)

lemma remote_index: "updateRemoteMeta cl p d i = Some cl' \<Longrightarrow> ht (cl' n) = ht (cl n)"
  by (auto simp: updateRemoteMeta_def write_dir_def Let_def split: if_splits bind_splits prod.splits)

definition removes :: "(cluster \<Rightarrow> (bool \<times> cluster) option) \<Rightarrow> nat \<Rightarrow> UniqueHash \<Rightarrow> nat \<times> bool \<Rightarrow> bool" where
  "removes final N h e \<longleftrightarrow> (\<forall>L T k cl. st N L T k cl \<longrightarrow> index_map (ht (cl (home N h))) h = Some e \<longrightarrow>
     (\<exists>cl'. final cl = Some (True, cl') \<and> st N L (T(h := None)) k cl'))"

lemmas removesD = removes_def [THEN iffD1, rule_format]

lemma drop_from_parent_ok:
  assumes s: "st N {(me, address_of sha256 path)} T k cl" and p: "path_ok sha256 N path" and me: "home N (path_hash sha256 path) = me"
    and e: "index_map (ht (cl me)) (path_hash sha256 path) = Some e" and f: "removes final N (path_hash sha256 path) e"
  shows "\<exists>tx r T' cl'. drop_from_parent sha256 cl me path final = Some (tx, r, cl') \<and> st N {(me, address_of sha256 path)} T' k cl' \<and>
    (r, T') = (case T (path_hash sha256 (parent_of path)) of
      Some (DirObj d) \<Rightarrow> (True, (T(path_hash sha256 (parent_of path) \<mapsto> DirObj (drop_entries d (name_of path))))(path_hash sha256 path := None))
    | _ \<Rightarrow> (False, T))"
proof -
  let ?a = "address_of sha256 path" and ?h = "path_hash sha256 path" and ?ph = "path_hash sha256 (parent_of path)"
  obtain nm where nm: "snd (getNameFromPath path) = Some nm" "c_str nm = name_of path"
      "strlen (parent_of path) < MAX_PATH_LENGTH" "(home N ?ph, address_of sha256 (parent_of path)) \<notin> {(me, ?a)}"
    using p me by (auto elim!: path_okD)
  have "cluster_inv N {(me, ?a)} cl" using s by (simp add: st_def)
  then have n: "me \<in> {1..N}" using home_range me by (auto simp: cluster_inv_def)
  obtain tx cl1 where 1: "on_node cl me fs_TxLocalBegin = Some (tx, cl1)" "st N {(me, ?a)} T k cl1" using st_begin [OF s n] by blast
  have 2: "readDirectoryMeta sha256 cl1 me (snd (getParentDirectory path)) = Some (dir_answer N cl1 ?ph, cl1)"
    using st_read [OF 1(2) n nm(3), of sha256] nm(4) by (simp add: parent_of_def)
  note ans = dir_answer_cases [OF 1(2), of ?ph]
  show ?thesis
  proof (cases "dir_answer N cl1 ?ph")
    case None
    then show ?thesis using ans(1) 1(2) by (auto simp: drop_from_parent_def 1(1) 2 split: option.splits obj.splits)
  next
    case (Some q)
    obtain d a i nn where q: "q = (d, a, i, nn)" by (metis prod_cases4)
    note A = ans(2) [OF Some [unfolded q]]
    have drop: "drop_entries d nm = drop_entries d (name_of path)" unfolding nm(2) [symmetric] drop_entries_def strcmp_eq_def c_str_c_str by (rule refl)
    obtain cl2 where 3: "on_node' cl1 me (\<lambda>fs. fs_TxWriteData fs tx (Log_dir d)) = Some cl2"
        "st N {(me, ?a)} T k cl2" "dir_answer N cl2 = dir_answer N cl1"
      using st_write [OF 1(2) n, of "Log_dir d" tx] by (auto simp: data_size_def)
    have fits: "length (drop_entries d nm) \<le> MAX_DIRECTORY_COUNT"
      using st_dir_bound [OF 3(2), of ?ph d] A length_filter_le order_trans unfolding drop_entries_def by blast
    obtain cl3 where 4: "updateRemoteMeta cl2 nn (drop_entries d nm) i = Some cl3"
        "st N {(me, ?a)} (T(?ph \<mapsto> DirObj (drop_entries d nm))) k cl3"
      using st_remote [OF 3(2), of ?ph d a i nn "drop_entries d nm"] 3(3) Some q fits by auto
    have "ht (cl3 me) = ht (cl me)" using begin_index [OF 1(1)] write_index [OF _ 3(1)] remote_index [OF 4(1)] by (simp add: data_size_def)
    then obtain cl4 where 5: "final cl3 = Some (True, cl4)" "st N {(me, ?a)} ((T(?ph \<mapsto> DirObj (drop_entries d nm)))(?h := None)) k cl4"
      using removesD [OF f 4(2)] e me by auto
    have "drop_from_parent sha256 cl me path final = Some (tx, True, cl4)"
      by (simp add: drop_from_parent_def 1(1) 2 Some q nm(1) 3(1) 4(1) 5(1))
    then show ?thesis using 5(2) A by (auto simp: drop)
  qed
qed

lemma removes_dir: "removes (\<lambda>cl. on_node cl (home N h) (\<lambda>fs. remove_dir_items fs h i)) N h (i, True)"
proof (unfold removes_def, intro allI impI)
  fix L T k cl
  assume s: "st N L T k cl" and e: "index_map (ht (cl (home N h))) h = Some (i, True)"
  have inv: "cluster_inv N L cl" and T: "tree N cl = T" and sl: "slack N k 0 cl" using s by (simp_all add: st_def)
  have "home N h \<in> {1..N}" using home_range inv by (auto simp: cluster_inv_def)
  then have "refs_ok (cl (home N h))" using cluster_invD(1) [OF inv] by (simp add: node_ok_def)
  then obtain d where d: "saved (dirs (cl (home N h))) i = Some d" using refs_okD(1) e by blast
  show "\<exists>cl'. on_node cl (home N h) (\<lambda>fs. remove_dir_items fs h i) = Some (True, cl') \<and> st N L (T(h := None)) k cl'"
    by (rule remove_dir_items_ok [OF inv refl e d]) (use T sl in \<open>simp add: on_node_def st_def\<close>)
qed

lemma removes_file:
  assumes wf: "unat (fm_count m) \<le> length (fm_tuple m)"
  shows "removes (\<lambda>cl. do {
      t \<leftarrow> free_extents (blocks (cl (home N h))) hashNode (fm_tuple m) (unat (fm_count m));
      on_node cl (home N h) (\<lambda>fs. remove_file_items (set_blocks fs t) h i) }) N h (i, False)"
proof (unfold removes_def, intro allI impI)
  fix L T k cl
  assume s: "st N L T k cl" and e: "index_map (ht (cl (home N h))) h = Some (i, False)"
  have inv: "cluster_inv N L cl" and T: "tree N cl = T" and sl: "slack N k 0 cl" using s by (simp_all add: st_def)
  have "home N h \<in> {1..N}" using home_range inv by (auto simp: cluster_inv_def)
  then have nd: "refs_ok (cl (home N h))" "table_inv (blocks (cl (home N h)))" using cluster_invD(1) [OF inv] by (simp_all add: node_ok_def)
  obtain f where f: "saved (files (cl (home N h))) i = Some f" using refs_okD(2) [OF nd(1) e] by blast
  obtain t where t: "free_extents (blocks (cl (home N h))) hashNode (fm_tuple m) (unat (fm_count m)) = Some t" "table_inv t"
    using free_extents_ok [OF nd(2) wf] by blast
  show "\<exists>cl'. do { t \<leftarrow> free_extents (blocks (cl (home N h))) hashNode (fm_tuple m) (unat (fm_count m));
      on_node cl (home N h) (\<lambda>fs. remove_file_items (set_blocks fs t) h i) } = Some (True, cl') \<and> st N L (T(h := None)) k cl'"
    by (rule remove_file_items_ok [OF inv refl e f t(2)]) (use T sl t(1) in \<open>simp add: on_node_def st_def\<close>)
qed

text \<open>The metadata an operation hands back in the caller's \<^verbatim>\<open>FileMeta\<close>; a directory is recognised by the count.\<close>

definition meta_of :: "obj option \<Rightarrow> FileMeta \<Rightarrow> FileMeta" where
  "meta_of x attr = (case x of None \<Rightarrow> attr | Some (FileObj m) \<Rightarrow> m | Some (DirObj d) \<Rightarrow> attr\<lparr>fm_count := 20\<rparr>)"

lemma remove_items_ok:
  assumes s: "st N {(me, address_of sha256 path)} T k cl" and p: "path_ok sha256 N path" and me: "home N (path_hash sha256 path) = me"
  shows "\<exists>tx r T' cl'. remove_items sha256 cl me path attr (index_map (ht (cl me)) (path_hash sha256 path)) =
      Some (tx, r, meta_of (T (path_hash sha256 path)) attr, cl') \<and> st N {(me, address_of sha256 path)} T' k cl' \<and>
    spec_remove (name_of path) T (path_hash sha256 (parent_of path)) (path_hash sha256 path) = (r, T')"
proof -
  let ?h = "path_hash sha256 path"
  have inv: "cluster_inv N {(me, address_of sha256 path)} cl" and T: "T ?h = obj_at (cl me) ?h" using s me by (auto simp: st_def tree_def)
  have "me \<in> {1..N}" using home_range inv me by (auto simp: cluster_inv_def)
  note nd = cluster_invD(1) [OF inv this]
  have r: "refs_ok (cl me)" using nd by (simp add: node_ok_def)
  note drop = drop_from_parent_ok [OF s p me]
  show ?thesis
  proof (rule obj_cases [OF nd, of ?h])
    fix i d
    assume e: "index_map (ht (cl me)) ?h = Some (i, True)" "saved (dirs (cl me)) i = Some d" "obj_at (cl me) ?h = Some (DirObj d)"
    show ?thesis
    proof (cases "d = []")
      case True
      then show ?thesis using drop [OF e(1) removes_dir [of N ?h i]] e T me
        by (auto simp: remove_items_def Let_def node_okD [OF nd] meta_of_def spec_remove_def MAX_FILE_EXTENT_COUNT_def
            split: option.splits obj.splits)
    next
      case False
      then show ?thesis using s e T
        by (auto simp: remove_items_def Let_def node_okD [OF nd] meta_of_def spec_remove_def MAX_FILE_EXTENT_COUNT_def
            split: option.splits obj.splits)
    qed
  next
    fix i m
    assume e: "index_map (ht (cl me)) ?h = Some (i, False)" "saved (files (cl me)) i = Some m" "obj_at (cl me) ?h = Some (FileObj m)"
    show ?thesis using drop [OF e(1) removes_file [OF refs_okD(4) [OF r e(2)], of N ?h "node_of sha256 (cl me) path" i]] e T me
      by (auto simp: remove_items_def Let_def node_okD [OF nd] meta_of_def spec_remove_def split: option.splits obj.splits)
  qed (use s T in \<open>auto simp: remove_items_def Let_def meta_of_def spec_remove_def\<close>)
qed

lemma removecd_ok:
  assumes s: "st N {} T k cl" and p: "path_ok sha256 N path" and me: "home N (path_hash sha256 path) = me"
  shows "\<exists>r T' cl'. removecd sha256 cl me path attr = Some (r, meta_of (T (path_hash sha256 path)) attr, cl') \<and> st N {} T' k cl' \<and>
    spec_remove (name_of path) T (path_hash sha256 (parent_of path)) (path_hash sha256 path) = (r, T')"
proof -
  let ?a = "address_of sha256 path" and ?h = "path_hash sha256 path"
  have inv: "cluster_inv N {} cl" using s by (simp add: st_def)
  have n: "me \<in> {1..N}" using home_range inv me by (auto simp: cluster_inv_def)
  note nd = cluster_invD(1) [OF inv n]
  have local: "checkLocal (cl me) (node_of sha256 (cl me) path)" using me by (simp add: node_of_home [OF nd] node_okD(5) [OF nd])
  obtain key cl1 where 1: "on_node cl me (\<lambda>fs. lockWriteHashItem fs (node_of sha256 (cl me) path) ?a) = Some (key, cl1)"
      "st N {(me, ?a)} T k cl1" using st_lock [OF s n, of ?a] by blast
  obtain tx r T' cl2 where 2: "remove_items sha256 cl1 me path attr (index_map (ht (cl1 me)) ?h) = Some (tx, r, meta_of (T ?h) attr, cl2)"
      "st N {(me, ?a)} T' k cl2" "spec_remove (name_of path) T (path_hash sha256 (parent_of path)) ?h = (r, T')"
    using remove_items_ok [OF 1(2) p me, of attr] by blast
  obtain cl3 where 3: "on_node' cl2 me (\<lambda>fs. fs_TxLocalCommit fs tx r) = Some cl3"
      "st N {} T' k (cl3(me := unlockWriteHashItem (cl3 me) ?a))" by (rule st_end [OF 2(2) n])
  have "removecd sha256 cl me path attr = Some (r, meta_of (T ?h) attr, cl3(me := unlockWriteHashItem (cl3 me) ?a))"
    using local by (simp add: removecd_def Let_def 1(1) st_get(1) [OF 1(2) me] 2(1) 3(1))
  then show ?thesis using 3(2) 2(3) by blast
qed

section \<open>The server\<close>

text \<open>The requests of the name space. A client sends a request to the node that is home to the path.\<close>

definition request_path :: "request \<Rightarrow> u8 list option" where
  "request_path req = (case req of
     MESSAGE_ACCESS p \<Rightarrow> Some p | MESSAGE_GETATTR p \<Rightarrow> Some p | MESSAGE_READDIR p \<Rightarrow> Some p
   | MESSAGE_MKNOD p \<Rightarrow> Some p | MESSAGE_MKDIR p \<Rightarrow> Some p | MESSAGE_REMOVE p \<Rightarrow> Some p | _ \<Rightarrow> None)"

text \<open>When a request is within the limits of the code: one that changes a directory needs a path an operation handles, and one
  that adds an entry needs room for it.\<close>

definition admissible :: "digest \<Rightarrow> nat \<Rightarrow> (UniqueHash \<Rightarrow> obj option) \<Rightarrow> request \<Rightarrow> bool" where
  "admissible sha256 N T req = (case req of
     MESSAGE_MKNOD p \<Rightarrow> path_ok sha256 N p \<and> has_room T (path_hash sha256 (parent_of p))
   | MESSAGE_MKDIR p \<Rightarrow> path_ok sha256 N p \<and> has_room T (path_hash sha256 (parent_of p))
   | MESSAGE_REMOVE p \<Rightarrow> path_ok sha256 N p
   | _ \<Rightarrow> request_path req \<noteq> None)"

definition spec_handle :: "digest \<Rightarrow> int \<Rightarrow> Uninit \<Rightarrow> ResponseBuffer \<Rightarrow> (UniqueHash \<Rightarrow> obj option) \<Rightarrow> request \<Rightarrow>
    response \<times> (UniqueHash \<Rightarrow> obj option)" where
  "spec_handle sha256 now u rb T req = (case req of
     MESSAGE_ACCESS p \<Rightarrow> (General (T (path_hash sha256 p) \<noteq> None), T)
   | MESSAGE_GETATTR p \<Rightarrow> (GetAttribute (T (path_hash sha256 p) \<noteq> None) (meta_of (T (path_hash sha256 p)) (rb_attribute rb)), T)
   | MESSAGE_READDIR p \<Rightarrow> (case T (path_hash sha256 p) of
       Some (DirObj d) \<Rightarrow> ReadDirectory True (Some d) | _ \<Rightarrow> ReadDirectory False None, T)
   | MESSAGE_MKNOD p \<Rightarrow> apfst General (spec_create (FileObj (new_file now u)) \<lparr>names = name_of p, isDirectories = u_flag u\<rparr> T
       (path_hash sha256 (parent_of p)) (path_hash sha256 p))
   | MESSAGE_MKDIR p \<Rightarrow> apfst General (spec_create (DirObj []) \<lparr>names = name_of p, isDirectories = True\<rparr> T
       (path_hash sha256 (parent_of p)) (path_hash sha256 p))
   | MESSAGE_REMOVE p \<Rightarrow> apfst (\<lambda>r. GetAttribute r (meta_of (T (path_hash sha256 p)) (rb_attribute rb)))
       (spec_remove (name_of p) T (path_hash sha256 (parent_of p)) (path_hash sha256 p))
   | _ \<Rightarrow> (No_result, T))"

lemma st_home:
  assumes "st N {} T k cl"
  shows "node_ok N (home N h) (cl (home N h))" and "lock_at (cl (home N h)) a = 0" and "obj_at (cl (home N h)) h = T h"
proof -
  have inv: "cluster_inv N {} cl" and T: "tree N cl = T" using assms by (simp_all add: st_def)
  have "home N h \<in> {1..N}" using home_range inv by (auto simp: cluster_inv_def)
  then show "node_ok N (home N h) (cl (home N h))" and "lock_at (cl (home N h)) a = 0" using cluster_invD [OF inv] by auto
  show "obj_at (cl (home N h)) h = T h" using T by (auto simp: tree_def)
qed

lemma parseMessage_ok:
  assumes s: "st N {} T (Suc k) cl" and p: "request_path req = Some p" and ok: "admissible sha256 N T req"
  shows "\<exists>cl'. parseMessage sha256 now u rb cl (home N (path_hash sha256 p)) req = Some (fst (spec_handle sha256 now u rb T req), cl') \<and>
    st N {} (snd (spec_handle sha256 now u rb T req)) k cl'"
proof -
  have keep: "st N {} T k cl" using st_mono [OF s] by simp
  note reads = access_ok getattr_ok readdir_ok
  note [simp] = reads [OF st_home(1,2) [OF s] refl] st_home(3) [OF s]
  have new: "unat (fm_count (new_file now u)) \<le> length (fm_tuple (new_file now u))" by (simp add: new_file_def)
  show ?thesis
  proof (cases req)
    case (MESSAGE_MKNOD q)
    then show ?thesis using create_entry_ok [OF s _ refl creates_file [OF new], of sha256 p "u_flag u"] p ok
      by (auto simp: request_path_def admissible_def parseMessage_def spec_handle_def general_def mknod_def mknodcd_def)
  next
    case (MESSAGE_MKDIR q)
    then show ?thesis using create_entry_ok [OF s _ refl creates_dir, of sha256 p True] p ok
      by (auto simp: request_path_def admissible_def parseMessage_def spec_handle_def general_def mkdir_def mkdircd_def)
  next
    case (MESSAGE_REMOVE q)
    then show ?thesis using removecd_ok [OF keep _ refl, of sha256 p "rb_attribute rb"] p ok
      by (auto simp: request_path_def admissible_def parseMessage_def spec_handle_def remove_def)
  qed (use p keep in \<open>auto simp: request_path_def parseMessage_def spec_handle_def general_def on_node_def meta_of_def
      split: option.splits obj.splits\<close>)
qed

text \<open>A session: the requests of the clients in the order the nodes handle them, each with what its handler finds in uninitialised
  memory.\<close>

type_synonym call = "int \<times> Uninit \<times> ResponseBuffer \<times> request"

fun serve :: "digest \<Rightarrow> nat \<Rightarrow> cluster \<Rightarrow> call list \<Rightarrow> (response list \<times> cluster) option" where
  "serve sha256 N cl [] = Some ([], cl)"
| "serve sha256 N cl ((now, u, rb, req) # rest) = do {
     p \<leftarrow> request_path req;
     (r, cl) \<leftarrow> parseMessage sha256 now u rb cl (home N (path_hash sha256 p)) req;
     (rs, cl) \<leftarrow> serve sha256 N cl rest;
     Some (r # rs, cl)
   }"

fun spec_serve :: "digest \<Rightarrow> (UniqueHash \<Rightarrow> obj option) \<Rightarrow> call list \<Rightarrow> response list \<times> (UniqueHash \<Rightarrow> obj option)" where
  "spec_serve sha256 T [] = ([], T)"
| "spec_serve sha256 T ((now, u, rb, req) # rest) =
     (let (r, T) = spec_handle sha256 now u rb T req; (rs, T) = spec_serve sha256 T rest in (r # rs, T))"

fun admissible_all :: "digest \<Rightarrow> nat \<Rightarrow> (UniqueHash \<Rightarrow> obj option) \<Rightarrow> call list \<Rightarrow> bool" where
  "admissible_all sha256 N T [] \<longleftrightarrow> True"
| "admissible_all sha256 N T ((now, u, rb, req) # rest) \<longleftrightarrow>
     admissible sha256 N T req \<and> admissible_all sha256 N (snd (spec_handle sha256 now u rb T req)) rest"

lemma admissible_path: "admissible sha256 N T req \<Longrightarrow> \<exists>p. request_path req = Some p"
  by (auto simp: admissible_def request_path_def split: request.splits)

lemma serve_ok:
  "st N {} T (length cs + k) cl \<Longrightarrow> admissible_all sha256 N T cs \<Longrightarrow>
   \<exists>cl'. serve sha256 N cl cs = Some (fst (spec_serve sha256 T cs), cl') \<and> st N {} (snd (spec_serve sha256 T cs)) k cl'"
proof (induction cs arbitrary: T cl)
  case (Cons call cs)
  obtain now u rb req where c: "call = (now, u, rb, req)" by (metis prod_cases4)
  have ok: "admissible sha256 N T req" using Cons.prems(2) c by simp
  obtain p where p: "request_path req = Some p" using admissible_path [OF ok] by blast
  have s: "st N {} T (Suc (length cs + k)) cl" using Cons.prems(1) by simp
  obtain cl1 where 1: "parseMessage sha256 now u rb cl (home N (path_hash sha256 p)) req = Some (fst (spec_handle sha256 now u rb T req), cl1)"
      "st N {} (snd (spec_handle sha256 now u rb T req)) (length cs + k) cl1"
    using parseMessage_ok [OF s p ok, of now u rb] by blast
  obtain cl2 where 2: "serve sha256 N cl1 cs = Some (fst (spec_serve sha256 (snd (spec_handle sha256 now u rb T req)) cs), cl2)"
      "st N {} (snd (spec_serve sha256 (snd (spec_handle sha256 now u rb T req)) cs)) k cl2"
    using Cons.IH [OF 1(2)] Cons.prems(2) c by auto
  show ?case using 1 2 by (simp add: c p case_prod_beta Let_def)
qed simp

end
