(* ===== verification/OctoServer.thy ===== *)
theory OctoServer
  imports OctoRefine
begin

text \<open>
  A cluster of Octopus servers from its start. \<open>start_node\<close> is the part of the constructor in \<^verbatim>\<open>sys/octopus/src/net/RPCServer.cpp\<close>
  that makes the file system of a node, with the sizes given there. Started on zeroed memory, the nodes form a consistent cluster
  that holds the root directory only, and a session of requests on it answers like the tree of names.
\<close>

definition start_node ::
    "digest \<Rightarrow> nat \<Rightarrow> LockService \<Rightarrow> nat \<Rightarrow> log_data TxManager \<Rightarrow> u8 list \<Rightarrow> u8 list \<Rightarrow> nat \<Rightarrow> (fs_exit + FileSystem) option" where
  "start_node sha256 N ls unset tm buffer bufferBlock nodeID =
     (case FileSystem_new ls unset tm (Some buffer) (Some bufferBlock) (1024 * 20) (1024 * 30) 2000 N nodeID of
        Inl e \<Rightarrow> Some (Inl e)
      | Inr fs \<Rightarrow> rootInitialize sha256 fs nodeID)"

section \<open>An empty node\<close>

definition memory_ok :: "u8 list \<Rightarrow> u8 list \<Rightarrow> bool" where
  "memory_ok buffer bufferBlock \<longleftrightarrow>
     (\<exists>n m. buffer = replicate n 0 \<and> bufferBlock = replicate m 0 \<and>
        HASH_ITEMS_SIZE + 6400 + 56 * 51200 + (2560 + 20480 * 344) + (3840 + 30720 * 3072) \<le> n \<and> 2000 * unat BLOCK_SIZE + 250 \<le> m)"

lemma FileSystem_new_zero:
  assumes mem: "memory_ok buffer bufferBlock" and n: "1 \<le> n" "n \<le> N"
  obtains fs where "FileSystem_new ls unset tm (Some buffer) (Some bufferBlock) (1024 * 20) (1024 * 30) 2000 N n = Inr fs"
    and "node_ok N n (fs\<lparr>hashLocalNode := n\<rparr>)" and "\<And>a. lock_at fs a = 0" and "index_map (ht fs) = (\<lambda>_. None)"
    and "node_slack 20480 0 fs"
proof -
  obtain b m where b: "buffer = replicate b 0" "bufferBlock = replicate m 0"
      "HASH_ITEMS_SIZE + 6400 + 56 * 51200 + (2560 + 20480 * 344) + (3840 + 30720 * 3072) \<le> b" "2000 * unat BLOCK_SIZE + 250 \<le> m"
    using mem by (auto simp: memory_ok_def)
  obtain t where t: "HashTable_new (Some (replicate b 0)) 51200 = Inr t" "hash_inv t" "index_map t = (\<lambda>_. None)" "length (itemsChained t) = 51200"
    by (rule HashTable_new_zero [of 51200 b]) (use b(3) in auto)
  have locks: "hash_key_lock (itemsHash t a) = 0" for a
    using t(1) by (auto simp: HashTable_new_def read_HashItem_def read_u64_zero split: sum.splits prod.splits if_splits)
  obtain tf where tf: "Table_new read_FileMeta 344 (Some (drop (HASH_ITEMS_SIZE + 6400 + 56 * 51200) buffer)) 20480 = Inr tf" "table_inv tf"
      "saved tf = (\<lambda>_. None)" "length (headFreeBit tf) = 20480"
    unfolding b(1) drop_replicate by (rule Table_new_zero [where cnt = 20480 and sz = 344 and decode = read_FileMeta and n = "b - (HASH_ITEMS_SIZE + 6400 + 56 * 51200)"])
      (use b(3) in auto)
  obtain td where td: "Table_new read_DirectoryMeta 3072 (Some (drop (HASH_ITEMS_SIZE + 6400 + 56 * 51200 + (2560 + 20480 * 344)) buffer)) 30720 = Inr td"
      "table_inv td" "saved td = (\<lambda>_. None)" "length (headFreeBit td) = 30720"
    unfolding b(1) drop_replicate by (rule Table_new_zero [where cnt = 30720 and sz = 3072 and decode = read_DirectoryMeta
        and n = "b - (HASH_ITEMS_SIZE + 6400 + 56 * 51200 + (2560 + 20480 * 344))"]) (use b(3) in auto)
  obtain tb where tb: "Table_new id (unat BLOCK_SIZE) (Some bufferBlock) 2000 = Inr tb" "table_inv tb"
    unfolding b(2) by (rule Table_new_zero [where cnt = 2000 and sz = "unat BLOCK_SIZE" and decode = id and n = m]) (use b(4) in auto)
  obtain fs where fs: "FileSystem_new ls unset tm (Some buffer) (Some bufferBlock) (1024 * 20) (1024 * 30) 2000 N n = Inr fs"
      "ht fs = t" "files fs = tf" "dirs fs = td" "blocks fs = tb" "countNode (storage fs) = N"
    using n t(1) tf(1) td(1) tb(1) b(1) by (simp add: FileSystem_new_def Storage_new_def Let_def)
  show thesis
  proof (rule that [OF fs(1)])
    show "lock_at fs a = 0" for a using fs(2) locks by (simp add: lock_at_def)
    then show "node_ok N n (fs\<lparr>hashLocalNode := n\<rparr>)"
      using fs t tf td tb by (simp add: node_ok_def refs_ok_def lock_at_def WriteUnlock_def)
    show "index_map (ht fs) = (\<lambda>_. None)" using fs(2) t(3) by simp
    show "node_slack 20480 0 fs" using fs t tf td by (simp add: node_slack_def)
  qed
qed

section \<open>The cluster after the start\<close>

lemma rootInitialize_here:
  assumes "create_dir (fs\<lparr>hashLocalNode := n\<rparr>) (path_hash sha256 root_path) [] = Some (True, fs')"
    and "getNodeHash (storage fs) (path_hash sha256 root_path) = n"
  shows "rootInitialize sha256 fs n = Some (Inr fs')"
proof -
  have put: "HashTable_put_path sha256 t root_path = HashTable_put t (path_hash sha256 root_path)" for t
    by (simp add: fun_eq_iff HashTable_put_path_def HashTable_put_def path_hash_def getAddressHash_def getAddressHash_buf_def getUniqueHash_def)
  obtain i t hash where "Table_create_item (dirs fs) [] = Some ((True, Some i), t)"
      "HashTable_put (ht fs) (path_hash sha256 root_path) i True = Some (True, hash)" "fs' = set_ht (set_dirs (fs\<lparr>hashLocalNode := n\<rparr>) t) hash"
    using assms(1) by (auto simp: create_dir_def split: bind_splits bool.splits option.splits)
  then show ?thesis using assms(2) by (simp add: rootInitialize_def put)
qed

lemma rootInitialize_elsewhere:
  "getNodeHash (storage fs) (path_hash sha256 root_path) \<noteq> n \<Longrightarrow> rootInitialize sha256 fs n = Some (Inr (fs\<lparr>hashLocalNode := n\<rparr>))"
  by (simp add: rootInitialize_def)

text \<open>What the constructor of a node is given: the lock service, the uninitialised field, the log and the memory.\<close>

record NodeEnv =
  env_lock :: LockService
  env_unset :: nat
  env_log :: "log_data TxManager"
  env_buffer :: "u8 list"
  env_bufferBlock :: "u8 list"

definition boot :: "digest \<Rightarrow> nat \<Rightarrow> (nat \<Rightarrow> NodeEnv) \<Rightarrow> nat \<Rightarrow> (fs_exit + FileSystem) option" where
  "boot sha256 N env n =
     start_node sha256 N (env_lock (env n)) (env_unset (env n)) (env_log (env n)) (env_buffer (env n)) (env_bufferBlock (env n)) n"

lemma boot_ok:
  assumes N: "0 < N" and mem: "\<And>n. memory_ok (env_buffer (env n)) (env_bufferBlock (env n))"
  obtains cl where "\<And>n. n \<in> {1..N} \<Longrightarrow> boot sha256 N env n = Some (Inr (cl n))"
    and "st N {} [path_hash sha256 root_path \<mapsto> DirObj []] 20479 cl"
proof -
  let ?h = "path_hash sha256 root_path"
  define F where "F n = FileSystem_new (env_lock (env n)) (env_unset (env n)) (env_log (env n)) (Some (env_buffer (env n)))
    (Some (env_bufferBlock (env n))) (1024 * 20) (1024 * 30) 2000 N n" for n
  define fs where "fs n = projr (F n)" for n
  define cl where "cl n = (fs n)\<lparr>hashLocalNode := n\<rparr>" for n
  have node: "F n = Inr (fs n) \<and> node_ok N n (cl n) \<and> (\<forall>a. lock_at (cl n) a = 0) \<and> index_map (ht (cl n)) = (\<lambda>_. None) \<and> node_slack 20480 0 (cl n)"
    if "n \<in> {1..N}" for n
    by (rule FileSystem_new_zero [OF mem [of n], of n N "env_lock (env n)" "env_unset (env n)" "env_log (env n)"])
      (use that in \<open>auto simp: F_def fs_def cl_def lock_at_def node_slack_def\<close>)
  have nh: "getNodeHash (storage (fs n)) ?h = home N ?h" if "n \<in> {1..N}" for n
    using node [OF that] by (auto simp: getNodeHash_def home_def node_ok_def cl_def)
  have start: "boot sha256 N env n = rootInitialize sha256 (fs n) n" if "n \<in> {1..N}" for n
    unfolding boot_def start_node_def F_def [symmetric] using node [OF that] by simp
  have "tree N cl h = None" for h using node [OF home_range [OF N]] by (simp add: tree_def obj_at_def)
  then have "st N {} (\<lambda>_. None) (Suc 20479) cl" using node N by (auto simp: st_def cluster_inv_def slack_def fun_eq_iff)
  then obtain cl' where cl': "on_node cl (home N ?h) (\<lambda>fs. create_dir fs ?h []) = Some (True, cl')"
      "st N {} [?h \<mapsto> DirObj []] 20479 cl'"
    using createsD [OF creates_dir, of N "{}" "\<lambda>_. None" 20479 cl ?h] by auto
  then obtain fs' where fs': "create_dir (cl (home N ?h)) ?h [] = Some (True, fs')" "cl' = cl(home N ?h := fs')"
    by (auto simp: on_node_def split: bind_splits prod.splits)
  have "boot sha256 N env n = Some (Inr (cl' n))" if n: "n \<in> {1..N}" for n
  proof (cases "n = home N ?h")
    case True
    then show ?thesis using rootInitialize_here [where fs = "fs n" and n = n and ?sha256.0 = sha256 and fs' = fs'] nh [OF n] fs' start [OF n] by (simp add: cl_def)
  next
    case False
    then show ?thesis using rootInitialize_elsewhere [where fs = "fs n" and n = n and ?sha256.0 = sha256] nh [OF n] fs' start [OF n] by (auto simp: cl_def)
  qed
  then show thesis using that cl'(2) by blast
qed

section \<open>The properties\<close>


definition sample_digest :: digest where
  "sample_digest bytes = [of_nat (length bytes), 0, 0, of_nat (length bytes)]"

definition sample_env :: NodeEnv where
  "sample_env = \<lparr>env_lock = \<lparr>WriteID = 0\<rparr>, env_unset = 0,
     env_log = TxManager_new 4096 8192 (\<lambda>_. \<lparr>ll_TxID = 0, ll_begin = False, ll_logData = Log_text [], ll_commit = False\<rparr>)
       (\<lambda>_. \<lparr>dl_TxID = 0, dl_begin = False, dl_prepare = False, dl_commit = False\<rparr>),
     env_buffer = replicate (HASH_ITEMS_SIZE + 104296960) 0, env_bufferBlock = replicate (2000 * unat BLOCK_SIZE + 250) 0\<rparr>"

lemma sample_memory: "memory_ok (env_buffer sample_env) (env_bufferBlock sample_env)"
  unfolding memory_ok_def sample_env_def by (intro exI conjI) (rule refl | simp)+

text \<open>The session makes the directory \<^verbatim>\<open>/a\<close> and the file \<^verbatim>\<open>/a/b\<close>, fails to remove the directory, lists it and removes the file.\<close>

definition sample_uninit :: Uninit where
  "sample_uninit = \<lparr>u_tuple = [], u_flag = True, u_TxID = 7\<rparr>"

definition sample_buffer :: ResponseBuffer where
  "sample_buffer = \<lparr>rb_attribute = new_file 3 sample_uninit, rb_fpi = \<lparr>fpi_len = 0, fpi_tuple = []\<rparr>, rb_offset = 0\<rparr>"

definition sample_session :: "call list" where
  "sample_session = map (\<lambda>r. (5, sample_uninit, sample_buffer, r))
     [MESSAGE_MKDIR [0x2F, 0x61], MESSAGE_MKNOD [0x2F, 0x61, 0x2F, 0x62], MESSAGE_REMOVE [0x2F, 0x61], MESSAGE_READDIR [0x2F, 0x61],
      MESSAGE_REMOVE [0x2F, 0x61, 0x2F, 0x62], MESSAGE_ACCESS [0x2F, 0x61, 0x2F, 0x62]]"

lemma sample_admissible: "admissible_all sample_digest 2 [path_hash sample_digest root_path \<mapsto> DirObj []] sample_session"
  by code_simp

lemma sample_answers: "fst (spec_serve sample_digest [path_hash sample_digest root_path \<mapsto> DirObj []] sample_session) =
    [General True, General True, GetAttribute False ((rb_attribute sample_buffer)\<lparr>fm_count := 20\<rparr>),
     ReadDirectory True (Some [\<lparr>names = [0x62], isDirectories = True\<rparr>]), GetAttribute True (new_file 5 sample_uninit), General False]"
  by code_simp


end
