(* ===== verification/OctoFaults.thy ===== *)
theory OctoFaults
  imports OctoServer
begin

text \<open>
  Requests on which an Octopus server does not do what it means to: a creation that waits for its own lock, and a read of no bytes
  that releases a lock it has not taken. Both are reached through \<^verbatim>\<open>parseMessage\<close> from the state after the start.
\<close>

section \<open>Waiting for itself\<close>

lemma create_entry_stuck:
  assumes inv: "cluster_inv N {} cl" and N: "N < 2 ^ 16" and me: "home N (path_hash sha256 path) = me"
    and same: "home N (path_hash sha256 (parent_of path)) = me" "address_of sha256 (parent_of path) = address_of sha256 path"
  shows "create_entry sha256 cl me path flag create = None"
proof -
  let ?a = "address_of sha256 path"
  have n: "me \<in> {1..N}" using home_range inv me by (auto simp: cluster_inv_def)
  note nd = cluster_invD [OF inv n]
  have local: "checkLocal (cl me) (node_of sha256 (cl me) path)" using me by (simp add: node_of_home [OF nd(1)] node_okD(5) [OF nd(1)])
  let ?key = "lock_key (of_nat me) (WriteID (fs_lock (cl me)))"
  let ?fs = "(set_lock (cl me) ?a ?key)\<lparr>fs_lock := (fs_lock (cl me))\<lparr>WriteID := WriteID (fs_lock (cl me)) + 1\<rparr>\<rparr>"
  have lock: "on_node cl me (\<lambda>fs. lockWriteHashItem fs (node_of sha256 (cl me) path) ?a) = Some (?key, cl(me := ?fs))"
    using nd(2) [of ?a] me by (simp add: on_node_def lockWriteHashItem_def WriteLock_free node_of_home [OF nd(1)])
  obtain tx fs where tx: "fs_TxLocalBegin ?fs = Some (tx, fs)" "same_store ?fs fs" using begin_ok [of ?fs] by blast
  have held: "lock_at fs ?a = ?key" using tx(2) by (simp add: same_store_def lock_at_def set_lock_def)
  have "unat (of_nat me :: u16) = me" using n N by (intro unat_of_nat_id) simp
  then have "(of_nat me :: u16) \<noteq> 0" using n by (metis atLeastAtMost_iff not_one_le_zero unat_0)
  then have wait: "lockReadHashItem fs ?a = None" using ReadLock_own_key held by (simp add: lockReadHashItem_def)
  have "hashLocalNode fs = me" "countNode (storage fs) = N"
    using tx(2) nd(1) by (simp_all add: same_store_def node_ok_def set_lock_def)
  then have "checkLocal fs (node_of sha256 fs (parent_of path))" using same(1) by (simp add: checkLocal_def node_of_def getNodeHash_def home_def)
  then have "readDirectoryMeta sha256 (cl(me := ?fs, me := fs)) me (snd (getParentDirectory path)) = None"
    using wait same(2) by (subst readDirectoryMeta.simps) (simp add: readDirectoryMeta_local_def parent_of_def)
  moreover have "on_node (cl(me := ?fs)) me fs_TxLocalBegin = Some (tx, cl(me := ?fs, me := fs))" using tx(1) by (simp add: on_node_def)
  ultimately show ?thesis using local by (simp add: create_entry_def Let_def lock)
qed

text \<open>C3: creating a file or a directory at a path whose parent has its hash item at the same address of the same node never
  returns, on any consistent cluster: the server locks the item of the path for writing and then waits to read the item of the
  parent. The root directory is its own parent, so a request to create \<^verbatim>\<open>/\<close> stops a worker of the server for ever.\<close>

theorem create_waits_for_itself:
  assumes "cluster_inv N {} cl" and "N < 2 ^ 16"
    and "home N (path_hash sha256 (parent_of path)) = home N (path_hash sha256 path)"
    and "address_of sha256 (parent_of path) = address_of sha256 path"
  shows "parseMessage sha256 now u rb cl (home N (path_hash sha256 path)) (MESSAGE_MKNOD path) = None \<and>
    parseMessage sha256 now u rb cl (home N (path_hash sha256 path)) (MESSAGE_MKDIR path) = None"
  using create_entry_stuck [OF assms(1,2) refl assms(3,4)]
  by (simp add: parseMessage_def general_def mknod_def mkdir_def mknodcd_def mkdircd_def)

lemma parent_of_root: "parent_of root_path = root_path"
  by code_simp

theorem create_waits_for_itself_witness:
  "\<exists>cl. (\<forall>n \<in> {1..2}. boot sample_digest 2 (\<lambda>_. sample_env) n = Some (Inr (cl n))) \<and>
     parseMessage sample_digest 5 sample_uninit sample_buffer cl (home 2 (path_hash sample_digest root_path)) (MESSAGE_MKDIR root_path) = None"
proof -
  obtain cl where cl: "\<And>n. n \<in> {1..2} \<Longrightarrow> boot sample_digest 2 (\<lambda>_. sample_env) n = Some (Inr (cl n))"
      "st 2 {} [path_hash sample_digest root_path \<mapsto> DirObj []] 20479 cl"
    by (rule boot_ok [where N = 2 and env = "\<lambda>_. sample_env" and ?sha256.0 = sample_digest]) (use sample_memory in auto)
  have "cluster_inv 2 {} cl" using cl(2) by (simp add: st_def)
  from create_waits_for_itself [OF this, of sample_digest root_path 5 sample_uninit sample_buffer] cl(1)
  show ?thesis by (auto simp: parent_of_root)
qed

section \<open>A read of no bytes\<close>

text \<open>C4: a request to read no bytes, sent to a server whose response buffer holds the address of a lock that is free, is refused,
  but the server releases that lock once more than it was taken. From then on no writer can lock the item, and the next reader
  enters with the lock word at 0, the value that means that nobody holds the lock, so a writer can enter while it reads.\<close>

theorem empty_read_breaks_lock:
  assumes "rb_offset rb < HASH_ITEMS_COUNT" and "lock_at (cl me) (rb_offset rb) = 0"
  shows "\<exists>cl' fs. parseMessage sha256 now u rb cl me (MESSAGE_EXTENTREAD path 0 offset) = Some (Extent False (rb_fpi rb) (rb_offset rb), cl') \<and>
    lockWriteHashItem (cl' me) n (rb_offset rb) = None \<and>
    lockReadHashItem (cl' me) (rb_offset rb) = Some fs \<and> lock_at fs (rb_offset rb) = 0 \<and> lockWriteHashItem fs n (rb_offset rb) \<noteq> None"
proof -
  let ?a = "rb_offset rb"
  let ?fs = "set_lock (cl me) ?a (- 1)"
  have run: "parseMessage sha256 now u rb cl me (MESSAGE_EXTENTREAD path 0 offset) = Some (Extent False (rb_fpi rb) ?a, cl(me := ?fs))"
    using assms by (simp add: parseMessage_def on_node_def handle_read_def extentRead_def unlockReadHashItem_def ReadUnlock_def Let_def)
  have word: "lock_at ?fs ?a = - 1" by simp
  have "lockWriteHashItem ?fs n ?a = None" using word by (simp add: lockWriteHashItem_def WriteLock_def next_key_def write_try_def)
  moreover have read: "lockReadHashItem ?fs ?a = Some (set_lock ?fs ?a 0)"
    unfolding lockReadHashItem_def word by (simp add: ReadLock_def read_enter_def read_poll_def)
  moreover have "lockWriteHashItem (set_lock ?fs ?a 0) n ?a \<noteq> None" by (simp add: lockWriteHashItem_def WriteLock_free)
  ultimately show ?thesis using run by (intro exI conjI) (assumption | simp)+
qed

theorem empty_read_breaks_lock_witness:
  "\<exists>cl cl'. (\<forall>n \<in> {1..2}. boot sample_digest 2 (\<lambda>_. sample_env) n = Some (Inr (cl n))) \<and>
     parseMessage sample_digest 5 sample_uninit sample_buffer cl 1 (MESSAGE_EXTENTREAD root_path 0 0) =
       Some (Extent False (rb_fpi sample_buffer) 0, cl') \<and> lockWriteHashItem (cl' 1) 1 0 = None"
proof -
  obtain cl where cl: "\<And>n. n \<in> {1..2} \<Longrightarrow> boot sample_digest 2 (\<lambda>_. sample_env) n = Some (Inr (cl n))"
      "st 2 {} [path_hash sample_digest root_path \<mapsto> DirObj []] 20479 cl"
    by (rule boot_ok [where N = 2 and env = "\<lambda>_. sample_env" and ?sha256.0 = sample_digest]) (use sample_memory in auto)
  have off: "rb_offset sample_buffer = 0" by (simp add: sample_buffer_def)
  have "lock_at (cl 1) (rb_offset sample_buffer) = 0" using cl(2) by (simp add: st_def cluster_inv_def off)
  from empty_read_breaks_lock [where rb = sample_buffer and cl = cl and me = 1, OF _ this, of sample_digest 5 sample_uninit root_path 0 1] cl(1)
  show ?thesis by (auto simp: off HASH_ITEMS_COUNT_def)
qed

end
