(* ===== verification/OctoBlocks.thy ===== *)
theory OctoBlocks
  imports OctoFs
begin

text \<open>
  The blocks of a file of the Octopus file system: what \<^verbatim>\<open>extentWrite\<close> of \<^verbatim>\<open>sys/octopus/src/fs/filesystem.cpp\<close> allocates. The
  extents of a file list its blocks; a write that makes the file longer takes blocks from the free chain of the block table and
  appends them to that list, joining a block to the last extent if it follows it.
\<close>

section \<open>The blocks of a file\<close>

definition extent_blocks :: "FileMetaTuple \<Rightarrow> nat list" where
  "extent_blocks e = [unat (indexExtentStartBlock e)..<unat (indexExtentStartBlock e) + unat (countExtentBlock e)]"

definition file_extents :: "FileMeta \<Rightarrow> FileMetaTuple list" where
  "file_extents m = take (unat (fm_count m)) (fm_tuple m)"

definition file_blocks :: "FileMeta \<Rightarrow> nat list" where
  "file_blocks m = concat (map extent_blocks (file_extents m))"

definition extents_ok :: "FileMeta \<Rightarrow> bool" where
  "extents_ok m \<longleftrightarrow> length (fm_tuple m) = MAX_FILE_EXTENT_COUNT \<and> unat (fm_count m) \<le> MAX_FILE_EXTENT_COUNT \<and>
     list_all extent_ok (file_extents m)"

lemma length_file_blocks: "length (file_blocks m) * 2 ^ 20 = cap (file_extents m)"
proof -
  have "length (concat (map extent_blocks ts)) * 2 ^ 20 = cap ts" for ts
    by (induction ts) (simp_all add: extent_blocks_def distrib_right)
  then show ?thesis by (simp add: file_blocks_def)
qed

lemma extents_ok_no_blocks:
  assumes "extents_ok m" and "file_blocks m = []"
  shows "fm_count m = 0"
proof -
  have "extent_blocks e \<noteq> []" if "extent_ok e" for e using that by (simp add: extent_blocks_def extent_ok_def)
  then have "file_extents m = []" using assms by (cases "file_extents m") (auto simp: file_blocks_def extents_ok_def)
  then show ?thesis using assms(1) by (auto simp: file_extents_def extents_ok_def MAX_FILE_EXTENT_COUNT_def unat_eq_0)
qed

section \<open>Allocation\<close>

lemma unat_small:
  assumes "n < 4096"
  shows "unat (of_nat n :: u64) = n" and "unat (of_nat n :: u32) = n"
  using assms by (simp_all add: unat_of_nat_id)

lemma append_block_ok:
  assumes ok: "extents_ok m" and room: "unat (fm_count m) < MAX_FILE_EXTENT_COUNT" and i: "Suc index < 4096"
  obtains m' where "append_block node m (int (unat (fm_count m)) - 1) index = Some (True, m', int (unat (fm_count m')) - 1)"
    and "extents_ok m'" and "file_blocks m' = file_blocks m @ [index]" and "unat (fm_count m') \<le> Suc (unat (fm_count m))"
    and "fm_size m' = fm_size m" and "timeLastModified m' = timeLastModified m"
proof -
  let ?ts = "fm_tuple m" and ?c = "unat (fm_count m)"
  let ?new = "\<lparr>ft_hashNode = of_nat node, indexExtentStartBlock = of_nat index, countExtentBlock = 1\<rparr>"
  let ?m = "m\<lparr>fm_tuple := ?ts[?c := ?new], fm_count := fm_count m + 1\<rparr>"
  have len: "length ?ts = 20" "?c < 20" using ok room by (simp_all add: extents_ok_def MAX_FILE_EXTENT_COUNT_def)
  have c1: "unat (fm_count m + 1) = Suc ?c" using len(2) by (simp add: unat_word_ariths)
  have new: "extent_ok ?new" "extent_blocks ?new = [index]" using i unat_small(2) [of index] by (simp_all add: extent_ok_def extent_blocks_def)
  have fresh: "file_extents ?m = file_extents m @ [?new]" using len by (simp add: file_extents_def c1 take_Suc_conv_app_nth)
  then have add: "extents_ok ?m" "file_blocks ?m = file_blocks m @ [index]"
    using ok new len c1 by (simp_all add: extents_ok_def file_blocks_def MAX_FILE_EXTENT_COUNT_def)
  show thesis
  proof (cases "?c = 0")
    case True
    then have "append_block node m (int ?c - 1) index = Some (True, ?m, int (unat (fm_count ?m)) - 1)"
      using len by (auto simp: append_block_def Let_def c1)
    then show thesis by (rule that) (use add c1 in simp_all)
  next
    case False
    then obtain b where b: "?c = Suc b" by (cases ?c) auto
    let ?e = "?ts ! b"
    have split: "file_extents m = take b ?ts @ [?e]" using b len by (simp add: file_extents_def take_Suc_conv_app_nth)
    have e: "extent_ok ?e" using ok split by (simp add: extents_ok_def)
    have sum: "unat (indexExtentStartBlock ?e + countExtentBlock ?e) = unat (indexExtentStartBlock ?e) + unat (countExtentBlock ?e)"
      using e by (simp add: extent_ok_def unat_word_ariths)
    let ?last = "ucast (indexExtentStartBlock ?e + countExtentBlock ?e) :: u64"
    have last: "of_nat index = ?last \<longleftrightarrow> index = unat (indexExtentStartBlock ?e) + unat (countExtentBlock ?e)"
    proof -
      have "unat ?last = unat (indexExtentStartBlock ?e) + unat (countExtentBlock ?e)"
        using sum e by (simp add: unsigned_ucast_eq take_bit_eq_mod extent_ok_def)
      moreover have "unat (of_nat index :: u64) = index" using i unat_small(1) [of index] by simp
      ultimately show ?thesis by (metis unat_inj)
    qed
    show thesis
    proof (cases "of_nat index = ?last")
      case True
      let ?e' = "?e\<lparr>countExtentBlock := countExtentBlock ?e + 1\<rparr>"
      let ?m' = "m\<lparr>fm_tuple := ?ts[b := ?e']\<rparr>"
      have s1: "unat (countExtentBlock ?e + 1) = Suc (unat (countExtentBlock ?e))" using e by (simp add: extent_ok_def unat_word_ariths)
      have e': "extent_ok ?e'" "extent_blocks ?e' = extent_blocks ?e @ [index]" using e s1 True last i by (simp_all add: extent_ok_def extent_blocks_def)
      have "file_extents ?m' = take b ?ts @ [?e']" using b len by (simp add: file_extents_def take_Suc_conv_app_nth)
      then have "extents_ok ?m'" "file_blocks ?m' = file_blocks m @ [index]" using ok e' split by (simp_all add: extents_ok_def file_blocks_def)
      moreover have "append_block node m (int ?c - 1) index = Some (True, ?m', int (unat (fm_count ?m')) - 1)"
        using True b len by (simp add: append_block_def Let_def)
      ultimately show thesis using that by simp
    next
      case False
      then have "append_block node m (int ?c - 1) index = Some (True, ?m, int (unat (fm_count ?m)) - 1)"
        using b len by (simp add: append_block_def Let_def c1 nat_add_distrib)
      then show thesis by (rule that) (use add c1 in simp_all)
    qed
  qed
qed

lemma alloc_blocks_ok:
  assumes "table_inv t" and "extents_ok m" and "n \<le> length (headFreeBit t)" and "unat (fm_count m) + n \<le> MAX_FILE_EXTENT_COUNT"
    and "\<forall>i \<in> set (headFreeBit t). Suc i < 4096"
  shows "\<exists>m' t'. alloc_blocks node n t m (int (unat (fm_count m)) - 1) = Some (True, m', t') \<and> table_inv t' \<and> extents_ok m' \<and>
    file_blocks m' = file_blocks m @ take n (headFreeBit t) \<and> unat (fm_count m') \<le> unat (fm_count m) + n \<and> fm_size m' = fm_size m \<and>
    headFreeBit t' = drop n (headFreeBit t) \<and> dom (saved t') = dom (saved t) \<union> set (take n (headFreeBit t))"
  using assms
proof (induction n arbitrary: t m)
  case (Suc n)
  obtain i chain where h: "headFreeBit t = i # chain" using Suc.prems(3) by (cases "headFreeBit t") auto
  obtain t1 where t1: "Table_create t = Some ((True, Some i), t1)" "table_inv t1" "saved t1 = (saved t)(i \<mapsto> table_items t ! i)" "headFreeBit t1 = chain"
    by (rule Table_create_ok [OF Suc.prems(1) h])
  obtain m1 where m1: "append_block node m (int (unat (fm_count m)) - 1) i = Some (True, m1, int (unat (fm_count m1)) - 1)"
      "extents_ok m1" "file_blocks m1 = file_blocks m @ [i]" "unat (fm_count m1) \<le> Suc (unat (fm_count m))" "fm_size m1 = fm_size m"
    by (rule append_block_ok [OF Suc.prems(2), of i node]) (use Suc.prems(4,5) h in auto)
  obtain m2 t2 where 2: "alloc_blocks node n t1 m1 (int (unat (fm_count m1)) - 1) = Some (True, m2, t2)" "table_inv t2" "extents_ok m2"
      "file_blocks m2 = file_blocks m1 @ take n chain" "unat (fm_count m2) \<le> unat (fm_count m1) + n" "fm_size m2 = fm_size m1"
      "headFreeBit t2 = drop n chain" "dom (saved t2) = dom (saved t1) \<union> set (take n chain)"
    using Suc.IH [OF t1(2) m1(2)] Suc.prems(3-5) h t1(4) m1(4) by auto
  have "alloc_blocks node (Suc n) t m (int (unat (fm_count m)) - 1) = Some (True, m2, t2)"
    using 2(1) by (simp only: alloc_blocks.simps t1(1) m1(1) bind.bind_lunit prod.case option.case bool.case if_True)
  then show ?case using 2 t1(3) m1 h by auto
qed simp

section \<open>Writing\<close>

text \<open>The blocks a file of a size needs, and a file that has exactly these.\<close>

definition need :: "nat \<Rightarrow> nat" where
  "need n = (n + 2 ^ 20 - 1) div 2 ^ 20"

definition file_ok :: "FileMeta \<Rightarrow> bool" where
  "file_ok m \<longleftrightarrow> extents_ok m \<and> length (file_blocks m) = need (unat (fm_size m))"

lemma need_mono: "a \<le> b \<Longrightarrow> need a \<le> need b"
  by (simp add: need_def div_le_mono)

lemma need_pos: "0 < n \<Longrightarrow> need n = Suc ((n - 1) div 2 ^ 20)"
  by (cases n) (simp_all add: need_def)

lemma need_cap: "n \<le> need n * 2 ^ 20"
proof (cases n)
  case (Suc k)
  have "k < Suc (k div 2 ^ 20) * 2 ^ 20" using dividend_less_div_times [of "2 ^ 20" k] by simp
  then show ?thesis using Suc need_pos [of n] by simp
qed simp

lemma last_block:
  assumes "0 < unat (w :: u64)"
  shows "unat ((w - 1) div BLOCK_SIZE64) = need (unat w) - 1" and "unat ((w - 1) div BLOCK_SIZE64 + 1) = need (unat w)"
proof -
  have w: "unat (w - 1) = unat w - 1" using assms by (simp add: unat_sub1)
  show d: "unat ((w - 1) div BLOCK_SIZE64) = need (unat w) - 1" using need_pos [OF assms] w by (simp add: unat_div BLOCK_SIZE64_def)
  have "need (unat w) - 1 < 2 ^ 64 - 1" using need_pos [OF assms] unat_less_2p [of w] by simp
  then show "unat ((w - 1) div BLOCK_SIZE64 + 1) = need (unat w)" using need_pos [OF assms] d by (simp add: unat_word_ariths)
qed

lemma fill_ok:
  assumes "extents_ok m" and "need e \<le> length (file_blocks m)" and "unat offset + unat sz \<le> e" and "0 < unat sz"
    and "unat (fm_count m) \<le> 10" and "length (fpi_tuple fpi) = 10"
  shows "\<exists>fpi'. fillFilePositionInformation sz offset fpi m = Some fpi'"
proof (rule fill_returns)
  show "extents m = Some (file_extents m)" using assms(1) by (simp add: extents_def file_extents_def extents_ok_def)
  show "\<forall>t \<in> set (file_extents m). extent_ok t" using assms(1) by (simp add: extents_ok_def list_all_iff)
  show "length (file_extents m) \<le> 10" using assms(5) by (simp add: file_extents_def)
  have "e \<le> length (file_blocks m) * 2 ^ 20" using need_cap [of e] assms(2) by (meson le_trans mult_le_mono1)
  then show "unat offset + unat sz \<le> cap (file_extents m)" using assms(3) length_file_blocks [of m] by simp
qed (use assms in simp_all)

lemma extra_blocks:
  assumes w: "0 < unat (w :: u64)"
  shows "(s = 0 \<or> (w - 1) div BLOCK_SIZE64 > (s - 1) div BLOCK_SIZE64) \<longleftrightarrow> need (unat s) < need (unat w)"
    and "need (unat s) < need (unat w) \<Longrightarrow>
      unat (if s = 0 then (w - 1) div BLOCK_SIZE64 + 1 else (w - 1) div BLOCK_SIZE64 - (s - 1) div BLOCK_SIZE64) = need (unat w) - need (unat s)"
proof -
  have n: "0 < need (unat w)" "need 0 = 0" using need_pos [OF w] by (simp_all add: need_def)
  have s: "s = 0 \<or> 0 < unat s \<and> 0 < need (unat s)" using need_pos [of "unat s"] by (auto simp: unat_gt_0)
  show "(s = 0 \<or> (w - 1) div BLOCK_SIZE64 > (s - 1) div BLOCK_SIZE64) \<longleftrightarrow> need (unat s) < need (unat w)"
    using s n last_block(1) [OF w] last_block(1) [of s] by (auto simp: word_less_nat_alt)
  show "unat (if s = 0 then (w - 1) div BLOCK_SIZE64 + 1 else (w - 1) div BLOCK_SIZE64 - (s - 1) div BLOCK_SIZE64) = need (unat w) - need (unat s)"
    if "need (unat s) < need (unat w)"
    using s that n(2) last_block [OF w] last_block(1) [of s] by (auto simp: unat_sub_le)
qed

lemma grow_guard:
  fixes sz offset :: u64
  assumes "0 < unat sz" and "unat offset + unat sz < 2 ^ 64"
  shows "\<not> (0xFFFFFFFFFFFFFFFF - offset < sz \<or> sz = 0)"
proof -
  have "unat (0xFFFFFFFFFFFFFFFF - offset) = 2 ^ 64 - 1 - unat offset" using assms(2) by (subst unat_sub_le) simp_all
  then show ?thesis using assms by (auto simp: word_less_nat_alt)
qed

lemma bound_of_count:
  assumes "extents_ok m"
  shows "sint (fm_count m) - 1 = int (unat (fm_count m)) - 1"
proof -
  have "unat (fm_count m) < 2 ^ 63" using assms by (simp add: extents_ok_def MAX_FILE_EXTENT_COUNT_def)
  then have "uint (fm_count m) < 2 ^ 63" by (metis of_nat_less_numeral_power_cancel_iff uint_nat)
  then have "signed_take_bit 63 (uint (fm_count m)) = uint (fm_count m)" by (intro signed_take_bit_int_eq_self) (auto intro: order_trans [of _ 0])
  then show ?thesis by (simp add: sint_uint flip: uint_nat)
qed

text \<open>C2: a write to a file that has exactly the blocks its size needs, within the limits of the tables, succeeds. The file then has
  the larger of its old size and the end of the write, and again exactly the blocks it needs: the old ones, in their order, followed
  by blocks from the free chain, which were not in use and now are. No other block of the node changes its state.\<close>

theorem write_allocates_needed_blocks:
  fixes m :: FileMeta and sz offset :: u64
  defines "e \<equiv> unat offset + unat sz"
  defines "k \<equiv> need (max (unat (fm_size m)) e) - need (unat (fm_size m))"
  assumes t: "table_inv t" "length (table_items t) < 4096" and m: "file_ok m" and sz: "0 < unat sz" "e < 2 ^ 64"
    and room: "k \<le> length (headFreeBit t)" "unat (fm_count m) + k \<le> 10" and fpi: "length (fpi_tuple fpi) = 10"
  shows "\<exists>fpi' m' t'. grow_file node t m sz offset fpi = Some (True, fpi', m', t') \<and>
    unat (fm_size m') = max (unat (fm_size m)) e \<and> file_ok m' \<and> file_blocks m' = file_blocks m @ take k (headFreeBit t) \<and>
    table_inv t' \<and> headFreeBit t' = drop k (headFreeBit t) \<and>
    (\<forall>b. saved t' b \<noteq> None \<longleftrightarrow> saved t b \<noteq> None \<or> b \<in> set (take k (headFreeBit t)))"
proof -
  let ?old = "unat (fm_size m)" and ?w = "offset + sz"
  have ok: "extents_ok m" "length (file_blocks m) = need ?old" using m by (simp_all add: file_ok_def)
  have w: "unat ?w = e" using sz(2) by (simp add: e_def unat_word_ariths)
  have pos: "0 < unat ?w" using sz(1) w by (simp add: e_def)
  note guard = grow_guard [OF sz(1) sz(2) [unfolded e_def]]
  have small: "\<forall>i \<in> set (headFreeBit t). Suc i < 4096" using t by (auto simp: table_inv_def bmp.free_list_of_def)
  show ?thesis
  proof (cases "need ?old < need e")
    case True
    have old: "?old < e" using True need_mono [of e ?old] by (meson leD leI)
    then have k: "k = need e - need ?old" by (simp add: k_def)
    have bound: "(if fm_size m = 0 then - 1 else sint (fm_count m) - 1) = int (unat (fm_count m)) - 1"
      using bound_of_count [OF ok(1)] extents_ok_no_blocks [OF ok(1)] ok(2) by (auto simp: need_def)
    have fits: "unat (fm_count m) + k \<le> MAX_FILE_EXTENT_COUNT" using room(2) by (simp add: MAX_FILE_EXTENT_COUNT_def)
    obtain m' t' where a: "alloc_blocks node k t m (int (unat (fm_count m)) - 1) = Some (True, m', t')" "table_inv t'" "extents_ok m'"
        "file_blocks m' = file_blocks m @ take k (headFreeBit t)" "unat (fm_count m') \<le> unat (fm_count m) + k"
        "headFreeBit t' = drop k (headFreeBit t)" "dom (saved t') = dom (saved t) \<union> set (take k (headFreeBit t))"
      using alloc_blocks_ok [OF t(1) ok(1) room(1) fits small, of node] by blast
    let ?m = "m'\<lparr>fm_size := ?w\<rparr>"
    have m': "extents_ok ?m" "file_blocks ?m = file_blocks m'" using a(3) by (simp_all add: extents_ok_def file_blocks_def file_extents_def)
    have len: "length (file_blocks ?m) = need e" using m'(2) a(4) ok(2) room(1) k True by simp
    obtain fpi' where f: "fillFilePositionInformation sz offset fpi ?m = Some fpi'"
      using fill_ok [OF m'(1), of e offset sz fpi] len sz(1) a(5) room(2) fpi by (auto simp: e_def)
    have "grow_file node t m sz offset fpi = Some (True, fpi', ?m, t')"
      using guard True a(1) f extra_blocks [OF pos, of "fm_size m"] unfolding w
      by (simp add: grow_file_def Let_def bound k)
    then show ?thesis using a m' len old w by (auto simp: file_ok_def dom_def set_eq_iff)
  next
    case False
    then have k: "k = 0" "need (max ?old e) = need ?old" using need_mono [of e ?old] need_mono [of ?old e] by (auto simp: k_def max_def)
    let ?m = "m\<lparr>fm_size := if ?w > fm_size m then ?w else fm_size m\<rparr>"
    have s: "unat (fm_size ?m) = max ?old e" using w by (auto simp: word_less_nat_alt)
    have m': "extents_ok ?m" "file_blocks ?m = file_blocks m" using ok(1) by (simp_all add: extents_ok_def file_blocks_def file_extents_def)
    obtain fpi' where f: "fillFilePositionInformation sz offset fpi ?m = Some fpi'"
      using fill_ok [OF m'(1), of e offset sz fpi] m'(2) ok(2) False sz(1) room(2) fpi by (auto simp: e_def)
    have "grow_file node t m sz offset fpi = Some (True, fpi', ?m, t)"
      using guard False f extra_blocks(1) [OF pos, of "fm_size m"] unfolding w by (simp add: grow_file_def Let_def)
    then show ?thesis using t(1) ok m' s k by (auto simp: file_ok_def)
  qed
qed

text \<open>A write of two bytes across the first block boundary of a new file, on a table of eight free blocks.\<close>

definition new_meta :: FileMeta where
  "new_meta = \<lparr>timeLastModified = 0, fm_count = 0, fm_size = 0,
     fm_tuple = replicate 20 \<lparr>ft_hashNode = 0, indexExtentStartBlock = 0, countExtentBlock = 0\<rparr>\<rparr>"

theorem write_allocates_needed_blocks_witness:
  "\<exists>t fpi' m' t'. Table_new id 1 (Some (replicate 9 0)) 8 = Inr t \<and>
     grow_file 1 t new_meta 2 0xFFFFF empty_fpi = Some (True, fpi', m', t') \<and> length (file_blocks m') = 2"
proof -
  obtain t where t: "Table_new id 1 (Some (replicate 9 0)) 8 = Inr t" "table_inv t" "length (table_items t) = 8" "length (headFreeBit t) = 8"
    by (rule Table_new_zero [where cnt = 8 and sz = 1 and n = 9 and decode = id]) (auto simp: Table_new_def split: sum.splits)
  have pre: "length (table_items t) < 4096" "file_ok new_meta" using t(3)
    by (simp_all add: file_ok_def extents_ok_def file_blocks_def file_extents_def new_meta_def need_def MAX_FILE_EXTENT_COUNT_def)
  show ?thesis
    using write_allocates_needed_blocks [OF t(2) pre, of 2 "0xFFFFF" empty_fpi 1] t(1,4)
    by (auto simp: new_meta_def empty_fpi_def need_def file_ok_def)
qed

end
