(* ===== verification/Spec2Isabelle.thy ===== *)
theory Spec2Isabelle
  imports LevelProps HostService DpuProps OctoMem OctoFaults OctoBlocks
begin

text \<open>
  A verification of the two storage systems of the repository: the level hash table with its key-value services
  (\<^verbatim>\<open>levelkv\<close>) and the Octopus distributed file system (\<^verbatim>\<open>sys/octopus\<close>). All file names are relative to \<^verbatim>\<open>src/\<close>.

  \<^bold>\<open>The program.\<close> \<^verbatim>\<open>levelkv\<close> keeps key-value pairs in a two-level hash table in host memory. One service runs the C table on the
  host and answers messages from the DPU; another runs on the DPU itself, which fetches buckets of host memory into a small cache
  by DMA. Octopus spreads a tree of names over the nodes of a cluster: a path belongs to the node its hash names. Each node has an
  index from hashes to metadata, tables of files, directories and blocks over bitmaps, a lock word per hash item, and a log. A
  client sends a request to the node of the path; the handler locks the hash item, works on the index and the tables, and reads and
  writes the metadata of the parent directory on its node.

  \<^bold>\<open>The theories.\<close>
  \<^item> \<open>Prelude\<close>: word types, C strings and generic lemmas.
  \<^item> \<open>KeyHash\<close>: \<^verbatim>\<open>levelkv/src/levelhashing/hash.c\<close>. \<open>LevelTable\<close>: the record \<open>level_hash\<close> and every function of
    \<^verbatim>\<open>level_hashing.c\<close>. \<open>LevelInv\<close>: the invariant and the contents as a multiset. \<open>LevelOps\<close>, \<open>LevelResize\<close> and \<open>LevelAlloc\<close>: queries,
    deletion, update and movements; creation, expansion and shrinking; insertion as its callers see it. \<open>LevelSpec\<close>: the locale
    \<open>item_store\<close>, its refinement of a map, and its interpretation on the table. \<open>LevelProps\<close>: the properties.
  \<^item> \<open>HostService\<close>: the message handlers of \<^verbatim>\<open>host/levelhashing_host.cpp\<close> and \<^verbatim>\<open>dpu/levelhashing_dpu.cpp\<close>.
  \<^item> \<open>SlotBucket\<close>: \<^verbatim>\<open>common/type.hpp\<close> and \<^verbatim>\<open>common/level_hashing.hpp\<close>. \<open>Replacer\<close>: \<^verbatim>\<open>dpu/replacer.cpp\<close>, with the locale
    \<open>lru_replacer\<close>. \<open>DpuCache\<close>: \<^verbatim>\<open>dpu/dpu.cpp\<close>. \<open>DpuCoherence\<close> and \<open>DpuProps\<close>: what a cached store holds, and the requests.
  \<^item> \<open>OctoBitmap\<close>, \<open>OctoTable\<close>, \<open>OctoHash\<close>, \<open>OctoIndex\<close>: \<^verbatim>\<open>bitmap.cpp\<close>, \<^verbatim>\<open>table.hpp\<close> and \<^verbatim>\<open>hashtable.cpp\<close>, with the locales \<open>bit_array\<close>,
    \<open>item_table\<close> and \<open>bounded_index\<close>, each interpreted on the code's operations.
  \<^item> \<open>OctoLock\<close>: \<^verbatim>\<open>lock.cpp\<close>, also as a step relation of interleaved threads. \<open>OctoTx\<close>: \<^verbatim>\<open>TxManager.cpp\<close>. \<open>OctoMem\<close>: \<^verbatim>\<open>mempool.cpp\<close>.
    \<open>OctoPath\<close>: paths in \<^verbatim>\<open>filesystem.cpp\<close> and \<^verbatim>\<open>nrfs.cpp\<close>. \<open>OctoExtent\<close>: positions of the bytes of a file.
  \<^item> \<open>OctoStorage\<close>: \<^verbatim>\<open>storage.cpp\<close>, the record \<open>FileSystem\<close>, constructors and lock and log wrappers. \<open>OctoFs\<close>: the operations of one node
    in \<^verbatim>\<open>filesystem.cpp\<close>. \<open>OctoNamespace\<close>: those that change a directory on another node, on a \<open>cluster\<close>, a map from node numbers to
    nodes. \<open>OctoMessage\<close>: \<^verbatim>\<open>parseMessage\<close>.
  \<^item> \<open>OctoTree\<close>: the tree of names a cluster represents and its invariant, kept by each step. \<open>OctoRefine\<close>: the operations and sessions of
    requests against the tree. \<open>OctoServer\<close>: the start of a cluster and the refinement. \<open>OctoBlocks\<close>: what a write allocates.
    \<open>OctoFaults\<close>: requests on which the server fails.

  \<^bold>\<open>Conventions.\<close> Integers have their width where it matters. An operation that exits returns \<open>Inl\<close>; one that does not return, waits
  for ever or has undefined behaviour returns \<open>None\<close>, so every property that states a value states that the code returns. Loops that may
  not end are \<open>partial_function\<close>s. What an uninitialised variable or buffer holds is an argument (\<open>Uninit\<close>, \<open>ResponseBuffer\<close>), as are the
  memory an allocator returns, the success of a transfer, the clock, and the SHA-256 of the cryptographic library the index calls.
  \<^verbatim>\<open>recursivereaddir\<close> has fuel, one unit per level of directories: a directory graph with a cycle exhausts every fuel, as it does the
  stack of the code.

  \<^bold>\<open>What the lemmas show.\<close> The level table keeps its invariant, loses no item in movements, expansion and shrinking, and refines a map.
  The DPU store returns what the buckets hold however it fetches and evicts, for requests that find room without moving an item. The
  index, tables and bitmap refine finite maps and sets and always return. Octopus, started on zeroed memory, answers sessions of
  requests of the name space like a tree and leaves no lock taken; a write allocates exactly the blocks a file needs from the free
  chain; the lock words exclude writers; a local transaction flushes all it wrote. The hypotheses of these theorems are limits of the
  code: capacities, name lengths, and that a path and its parent use different hash items. Beyond some of these limits theorems show
  what goes wrong: a full table keeps its mutex, a creation waits for itself, an empty read releases a lock, a range over two extents
  has the wrong position, regions of memory overlap, and a table on memory that is not zeroed invents items.

  \<^bold>\<open>Bounds.\<close> A session has at most 20479 requests, one less than the 20480 file entries a server allocates, so no table can fill. Blocks
  are numbered below 4096, where the 32-bit product with the block size does not wrap; a server has 2000. Ten extents at most are used
  by a write because a position message has ten tuples.

  \<^bold>\<open>Not modelled.\<close> Operations of the file system run one after the other: only the lock words are modelled with interleaving, because
  the code writes the metadata of a parent without a lock. The properties of the two-phase commit variants, \<^verbatim>\<open>truncate\<close>, \<^verbatim>\<open>rmdir\<close> and
  \<^verbatim>\<open>rename\<close> are not stated; these are modelled as the code has them, with the faults the manifest lists. The network layer of Octopus,
  its client calls, command lines and tests, the DMA and channel transport of \<^verbatim>\<open>levelkv\<close>, the benchmarks (\<^verbatim>\<open>doca_dma\<close>, \<^verbatim>\<open>doca_dma_2\<close>,
  \<^verbatim>\<open>doca_dma_3\<close>, \<^verbatim>\<open>comch_test\<close>, \<^verbatim>\<open>nvm\<close>, \<^verbatim>\<open>benchlib\<close>, \<^verbatim>\<open>scripts\<close>) and the memory regions are calls into libraries, devices and the operating
  system. DrTM+H (\<^verbatim>\<open>sys/drtmh\<close>) depends on hardware transactions and RDMA verbs whose semantics are not in the sources. The file \<^verbatim>\<open>sha256.c\<close> is not called by the program. The code under
  \<^verbatim>\<open>third_party\<close> and \<^verbatim>\<open>ddio_tools\<close> is of other projects.
\<close>

end
